(* ===== verification/Venturi_Prelude.thy ===== *)
theory Venturi_Prelude
  imports
    Complex_Main
    "HOL-Library.Word"
    "HOL-Library.List_Lexorder"
    "HOL-Library.Char_ord"
    "HOL-Library.Product_Lexorder"
begin

unbundle bit_operations_syntax

text \<open>
  Vocabulary shared by every component of the development: the machine integers of the Rust
  sources at their width, instants and durations, the JSON values that cross the storage
  boundary, the result type of fallible operations, the parts of the Rust standard library the
  sources use (saturating arithmetic, decimal printing, ordered selection), and the generic
  list lemmas behind the table operations.
\<close>

section \<open>Types\<close>

text \<open>
  Unsigned and signed machine integers are words: \<^verbatim>\<open>u32\<close> and \<^verbatim>\<open>i32\<close> share the type of
  32-bit words, the first read by \<^const>\<open>unat\<close> and the second by \<^const>\<open>sint\<close>, so that the Rust cast
  between them is the identity. \<^verbatim>\<open>i16\<close> priorities and \<^verbatim>\<open>i64\<close> limits are never computed with
  and are plain integers.
\<close>

type_synonym u32 = "32 word"
type_synonym i32 = "32 word"
type_synonym u64 = "64 word"
type_synonym i16 = int
type_synonym i64 = int

text \<open>A ULID is 128 bits, ordered as an unsigned number.\<close>

type_synonym ulid = "128 word"

text \<open>
  Instants (\<^verbatim>\<open>DateTime<Utc>\<close>) and durations (\<^verbatim>\<open>std::time::Duration\<close>) count nanoseconds.
\<close>

type_synonym datetime = int
type_synonym duration = nat

text \<open>JSON values as \<^verbatim>\<open>serde_json::Value\<close> has them; numbers are kept in their textual form.\<close>

datatype json =
    JNull
  | JBool bool
  | JNumber string
  | JString string
  | JArray "json list"
  | JObject "(string \<times> json) list"

definition is_null :: "json \<Rightarrow> bool" where
  "is_null v \<longleftrightarrow> v = JNull"

lemma is_null_simps [simp]:
  "is_null JNull" "\<not> is_null (JBool b)" "\<not> is_null (JNumber n)" "\<not> is_null (JString s)"
  "\<not> is_null (JArray vs)" "\<not> is_null (JObject kvs)"
  by (simp_all add: is_null_def)

section \<open>A collection of simplification rules\<close>

named_theorems row_simps \<open>decoding of table rows\<close>

section \<open>Results\<close>

text \<open>
  \<^verbatim>\<open>Result<T, E>\<close> is a sum with the error on the left; \<open>bind_ok\<close> is the \<^verbatim>\<open>?\<close> operator.
\<close>

definition bind_ok :: "'e + 'a \<Rightarrow> ('a \<Rightarrow> 'e + 'b) \<Rightarrow> 'e + 'b" where
  "bind_ok r k = (case r of Inl e \<Rightarrow> Inl e | Inr x \<Rightarrow> k x)"

lemma bind_ok_simps [simp]:
  "bind_ok (Inl e) k = Inl e"
  "bind_ok (Inr x) k = k x"
  by (simp_all add: bind_ok_def)

lemma bind_ok_eq_Inr:
  "bind_ok r k = Inr y \<longleftrightarrow> (\<exists>x. r = Inr x \<and> k x = Inr y)"
  by (cases r) simp_all

text \<open>\<^verbatim>\<open>iter().map(f).collect::<Result<Vec<_>, _>>()\<close>: the first error wins.\<close>

fun collect_results :: "('a \<Rightarrow> 'e + 'b) \<Rightarrow> 'a list \<Rightarrow> 'e + 'b list" where
  "collect_results f [] = Inr []"
| "collect_results f (x # xs) =
     bind_ok (f x) (\<lambda>y. bind_ok (collect_results f xs) (\<lambda>ys. Inr (y # ys)))"

lemma collect_results_all_ok:
  "(\<And>x. x \<in> set xs \<Longrightarrow> f x = Inr (g x)) \<Longrightarrow> collect_results f xs = Inr (map g xs)"
  by (induction xs) simp_all

lemma collect_results_Inr_length:
  "collect_results f xs = Inr ys \<Longrightarrow> length ys = length xs"
  by (induction xs arbitrary: ys) (auto simp: bind_ok_eq_Inr)

section \<open>Machine arithmetic of the Rust standard library\<close>

definition u32_max :: nat where "u32_max = 2 ^ 32 - 1"
definition u64_max :: nat where "u64_max = 2 ^ 64 - 1"
definition u128_max :: nat where "u128_max = 2 ^ 128 - 1"
definition i32_max :: int where "i32_max = 2 ^ 31 - 1"
definition i32_min :: int where "i32_min = - (2 ^ 31)"

lemmas int_limits = u32_max_def u64_max_def u128_max_def i32_max_def i32_min_def

definition u64_saturating_add :: "u64 \<Rightarrow> u64 \<Rightarrow> u64" where
  "u64_saturating_add a b = (if u64_max < unat a + unat b then - 1 else a + b)"

definition u64_saturating_sub :: "u64 \<Rightarrow> u64 \<Rightarrow> u64" where
  "u64_saturating_sub a b = (if a < b then 0 else a - b)"

definition u128_saturating_mul :: "nat \<Rightarrow> nat \<Rightarrow> nat" where
  "u128_saturating_mul a b = min (a * b) u128_max"

definition i32_saturating_add :: "i32 \<Rightarrow> i32 \<Rightarrow> i32" where
  "i32_saturating_add a b =
     (let s = sint a + sint b
      in if i32_max < s then word_of_int i32_max
         else if s < i32_min then word_of_int i32_min
         else word_of_int s)"

text \<open>\<^verbatim>\<open>x.max(0) as u32\<close> for a signed \<^verbatim>\<open>x\<close>.\<close>

definition i32_max0_as_u32 :: "i32 \<Rightarrow> u32" where
  "i32_max0_as_u32 w = (if sint w < 0 then 0 else w)"

lemma unat_u64_le_max [simp]: "unat (w :: u64) \<le> u64_max"
  using unsigned_less [where 'a = nat, of w] by (simp add: u64_max_def)

lemma unat_u64_saturating_add:
  "unat (u64_saturating_add a b) = min (unat a + unat b) u64_max"
proof (cases "u64_max < unat a + unat b")
  case True
  then show ?thesis
    by (simp add: u64_saturating_add_def u64_max_def unsigned_minus_1_eq_mask mask_eq_exp_minus_1)
next
  case False
  then have "unat a + unat b < 2 ^ LENGTH(64)" by (simp add: u64_max_def)
  then have "unat (a + b) = unat a + unat b" by (rule unat_add_lem [THEN iffD1])
  with False show ?thesis by (simp add: u64_saturating_add_def)
qed

lemma unat_u64_saturating_sub:
  "unat (u64_saturating_sub a b) = unat a - unat b"
  by (simp add: u64_saturating_sub_def word_less_nat_alt unat_sub_if_size word_size)

lemma sint_i32_bounds: "i32_min \<le> sint (w :: i32)" "sint (w :: i32) \<le> i32_max"
  using sint_range_size [of w] by (simp_all add: word_size int_limits)

lemma sint_word_of_int_i32:
  "i32_min \<le> k \<Longrightarrow> k \<le> i32_max \<Longrightarrow> sint (word_of_int k :: i32) = k"
  by (simp add: int_limits sint_sbintrunc' signed_take_bit_int_eq_self)

lemma sint_i32_saturating_add:
  "sint (i32_saturating_add a b) = max i32_min (min i32_max (sint a + sint b))"
proof -
  let ?s = "sint a + sint b"
  have lim: "i32_min \<le> i32_max" by (simp add: int_limits)
  consider "i32_max < ?s" | "?s < i32_min" | "i32_min \<le> ?s" "?s \<le> i32_max" by linarith
  then show ?thesis
  proof cases
    case 3
    then have "sint (word_of_int ?s :: i32) = ?s" by (rule sint_word_of_int_i32)
    with 3 show ?thesis by (simp add: i32_saturating_add_def Let_def)
  qed (use lim in \<open>simp_all add: i32_saturating_add_def sint_word_of_int_i32\<close>)
qed

lemma unat_eq_sint_nonneg:
  assumes "0 \<le> sint (w :: i32)"
  shows "int (unat w) = sint w"
proof -
  have "sint w < 2 ^ 32" using sint_i32_bounds(2) [of w] by (simp add: int_limits)
  with assms have "take_bit 32 (sint w) = sint w" by (simp add: take_bit_int_eq_self)
  then show ?thesis using uint_sint [of w] by simp
qed

lemma sint_i32_succ:
  assumes "0 \<le> sint (w :: i32)" "sint w \<noteq> i32_max"
  shows "sint (w + 1) = sint w + 1"
proof -
  have "w + 1 = word_of_int (sint w + 1)" by simp
  moreover have "i32_min \<le> sint w + 1" "sint w + 1 \<le> i32_max"
    using assms sint_i32_bounds(2) [of w] by (simp_all add: int_limits)
  ultimately show ?thesis by (metis sint_word_of_int_i32)
qed

lemma unat_nonneg_i32:
  assumes "0 \<le> sint (w :: i32)"
  shows "unat w < u32_max"
proof -
  define n where "n = unat w"
  have "int n \<le> i32_max"
    using unat_eq_sint_nonneg [OF assms] sint_i32_bounds(2) [of w] unfolding n_def by linarith
  then show ?thesis by (simp add: int_limits flip: n_def)
qed

section \<open>Encodings\<close>

text \<open>
  A value kept in another form, such as an enumeration in a text column: what was encoded decodes
  to itself. A canonical encoding accepts no other form.
\<close>

locale encoding =
  fixes encode :: "'a \<Rightarrow> 'b" and decode :: "'b \<Rightarrow> 'a option"
  assumes decode_encode: "decode (encode x) = Some x"
begin

lemma encode_inject: "encode x = encode y \<longleftrightarrow> x = y"
  by (metis decode_encode option.inject)

end

locale canonical_encoding = encoding +
  assumes encode_decode: "decode v = Some x \<Longrightarrow> v = encode x"
begin

lemma decode_eq_Some_iff: "decode v = Some x \<longleftrightarrow> v = encode x"
  by (auto simp: decode_encode dest: encode_decode)

lemma decode_eq_None_iff: "decode v = None \<longleftrightarrow> v \<notin> range encode"
  by (auto simp: decode_encode) (metis decode_eq_Some_iff not_None_eq rangeI)

end

section \<open>Ordered selection\<close>

text \<open>The head of a sorted list, as \<^verbatim>\<open>ORDER BY .. LIMIT 1\<close> selects it.\<close>

lemma sort_key_Nil_iff: "sort_key k xs = [] \<longleftrightarrow> xs = []"
  by (metis length_0_conv length_sort)

lemma sort_key_hd:
  assumes "sort_key k xs = y # ys"
  shows "y \<in> set xs" "x \<in> set xs \<Longrightarrow> k y \<le> k x"
proof -
  have "set (y # ys) = set xs" using assms by (metis set_sort)
  moreover have "sorted (map k (y # ys))" using assms by (metis sorted_sort_key)
  ultimately show "y \<in> set xs" "x \<in> set xs \<Longrightarrow> k y \<le> k x" by auto
qed

lemma lex_prefix_le: "(a, b, p) \<le> (c, d, q) \<Longrightarrow> (a, b) \<le> (c, d)"
  for a c :: "'a::linorder" and b d :: "'b::linorder" and p q :: "'c::linorder"
  by auto

end
