(* ===== verification/Errors.thy ===== *)
theory Errors
  imports Venturi_Prelude
begin

text \<open>
  The error type of queue and storage operations (\<^verbatim>\<open>src/error.rs\<close>). The variants that wrap a
  foreign error carry its text: a database error carries the SQLSTATE the server reports. The
  message of a configuration error is kept as its template with the interpolated arguments.
\<close>

datatype config_message =
    PrefixEmpty
  | PrefixTooLong string nat
  | PrefixBadStart string
  | PrefixBadCharacter string char
  | StoredJobIdInvalid string
  | StoredStatusUnknown string
  | JournalJobIdInvalid string
  | JournalOutcomeUnknown string

datatype error =
    Database string
  | Pool string
  | PoolBuild string
  | Migration string
  | Serialization string
  | UnknownKind string
  | Config config_message
  | InvalidPriority i16
  | RunNumberOutOfRange u32

type_synonym 'a res = "error + 'a"

text \<open>The SQLSTATE codes of the failures the schema and the statements can raise by themselves.\<close>

definition unique_violation :: error where
  "unique_violation = Database ''23505''"

definition check_violation :: error where
  "check_violation = Database ''23514''"

definition integer_out_of_range :: error where
  "integer_out_of_range = Database ''22003''"

definition negative_limit :: error where
  "negative_limit = Database ''2201W''"

lemmas sqlstate_defs = unique_violation_def check_violation_def integer_out_of_range_def
  negative_limit_def

end
