(* ===== verification/Store_Types.thy ===== *)
theory Store_Types
  imports Errors
begin

text \<open>
  The vocabulary of the storage boundary: the value types of \<^verbatim>\<open>src/store.rs\<close>, the priority tiers
  of \<^verbatim>\<open>src/task.rs\<close> that a new job is validated against, and the \<^verbatim>\<open>Store\<close> trait itself as a
  record of operations over an arbitrary storage state, the model of an \<^verbatim>\<open>Arc<dyn Store>\<close>.
\<close>

section \<open>Lifecycle status and journal outcomes\<close>

datatype status = Pending | Claimed | Completed | Dead

fun status_as_str :: "status \<Rightarrow> string" where
  "status_as_str Pending = ''pending''"
| "status_as_str Claimed = ''claimed''"
| "status_as_str Completed = ''completed''"
| "status_as_str Dead = ''dead''"

definition status_from_db :: "string \<Rightarrow> status option" where
  "status_from_db v =
     (if v = ''pending'' then Some Pending
      else if v = ''claimed'' then Some Claimed
      else if v = ''completed'' then Some Completed
      else if v = ''dead'' then Some Dead
      else None)"

datatype journal_outcome =
    JCompleted
  | JPaused
  | JRetried
  | JDead
  | JStaleRecovered
  | JReleased
  | JMerged

fun outcome_as_str :: "journal_outcome \<Rightarrow> string" where
  "outcome_as_str JCompleted = ''completed''"
| "outcome_as_str JPaused = ''paused''"
| "outcome_as_str JRetried = ''retried''"
| "outcome_as_str JDead = ''dead''"
| "outcome_as_str JStaleRecovered = ''stale-recovered''"
| "outcome_as_str JReleased = ''released''"
| "outcome_as_str JMerged = ''merged''"

definition outcome_from_db :: "string \<Rightarrow> journal_outcome option" where
  "outcome_from_db v =
     (if v = ''completed'' then Some JCompleted
      else if v = ''paused'' then Some JPaused
      else if v = ''retried'' then Some JRetried
      else if v = ''dead'' then Some JDead
      else if v = ''stale-recovered'' then Some JStaleRecovered
      else if v = ''released'' then Some JReleased
      else if v = ''merged'' then Some JMerged
      else None)"

fun is_failure :: "journal_outcome \<Rightarrow> bool" where
  "is_failure JRetried = True"
| "is_failure JDead = True"
| "is_failure JStaleRecovered = True"
| "is_failure _ = False"

section \<open>Priority tiers\<close>

datatype priority = High | Normal | Low

fun as_smallint :: "priority \<Rightarrow> i16" where
  "as_smallint High = 0"
| "as_smallint Normal = 1"
| "as_smallint Low = 2"

definition from_smallint :: "i16 \<Rightarrow> priority option" where
  "from_smallint v =
     (if v = 0 then Some High
      else if v = 1 then Some Normal
      else if v = 2 then Some Low
      else None)"

section \<open>Records crossing the storage boundary\<close>

record job_record =
  job_id :: ulid
  job_kind :: string
  job_payload :: json
  job_priority :: i16
  job_status :: status
  job_created_at :: datetime
  job_visible_at :: datetime
  job_claim_expires_at :: "datetime option"
  job_claimed_by :: "string option"
  job_finished_at :: "datetime option"
  job_run_count :: u32
  job_failure_count :: i32
  job_carry :: json
  job_dedup_key :: "string option"

record journal_record =
  entry_id :: i64
  entry_job_id :: ulid
  entry_kind :: string
  entry_run_no :: u32
  entry_recorded_at :: datetime
  entry_outcome :: journal_outcome
  entry_note :: "string option"
  entry_attachment :: "json option"

record new_job =
  new_id :: ulid
  new_kind :: string
  new_payload :: json
  new_priority :: i16
  new_created_at :: datetime
  new_visible_at :: datetime
  new_carry :: json
  new_dedup_key :: "string option"

definition validate :: "new_job \<Rightarrow> unit res" where
  "validate nj =
     (if from_smallint (new_priority nj) = None then Inl (InvalidPriority (new_priority nj))
      else Inr ())"

record journal_append =
  app_kind :: string
  app_run_no :: u32
  app_recorded_at :: datetime
  app_outcome :: journal_outcome
  app_note :: "string option"
  app_attachment :: "json option"

datatype settlement =
    Complete datetime
  | Retry datetime i32 json
  | Pause datetime json
  | GiveUp datetime i32
  | Release datetime

text \<open>\<open>GiveUp\<close> is the variant \<^verbatim>\<open>Settlement::Dead\<close>.\<close>

record merge_payload =
  mp_payload :: json
  mp_carry :: json
  mp_priority :: i16

record history_filter =
  hf_kind :: "string option"
  hf_status :: "status option"
  hf_finished_since :: "datetime option"
  hf_finished_until :: "datetime option"
  hf_created_before :: "(datetime \<times> ulid) option"
  hf_limit :: "i64 option"

record cleanup_criteria =
  cc_finished_before :: datetime
  cc_kind :: "string option"
  cc_status :: "status option"

record snapshot =
  snap_pending_by_kind :: "string \<rightharpoonup> nat"
  snap_oldest_pending_age :: "string \<rightharpoonup> duration"
  snap_claimed :: nat
  snap_dead_by_kind :: "string \<rightharpoonup> nat"

section \<open>The backend trait\<close>

text \<open>
  The circumstances of one call that the caller does not control: the backend's clock, the order
  in which the query planner returns rows that the requested order leaves open, the rows other
  transactions hold locks on, and a failure of the connection. A failing call either had no
  effect or took effect with its acknowledgement lost.
\<close>

datatype fault = Rolled_back error | Ack_lost error

record call_env =
  env_now :: datetime
  env_plan :: "string \<Rightarrow> nat"
  env_locked :: "string \<Rightarrow> bool"
  env_fault :: "fault option"

record 's store_ops =
  so_enqueue :: "call_env \<Rightarrow> new_job \<Rightarrow> 's \<Rightarrow> unit res \<times> 's"
  so_claim_next ::
    "call_env \<Rightarrow> string list \<Rightarrow> i16 \<Rightarrow> duration \<Rightarrow> string \<Rightarrow> 's \<Rightarrow> job_record option res \<times> 's"
  so_settle ::
    "call_env \<Rightarrow> ulid \<Rightarrow> string \<Rightarrow> u32 \<Rightarrow> settlement \<Rightarrow> journal_append \<Rightarrow> 's \<Rightarrow> bool res \<times> 's"
  so_journal :: "call_env \<Rightarrow> ulid \<Rightarrow> 's \<Rightarrow> journal_record list res"
  so_next_visible_at :: "call_env \<Rightarrow> string list \<Rightarrow> 's \<Rightarrow> datetime option res"
  so_dedup_candidate :: "call_env \<Rightarrow> string \<Rightarrow> string \<Rightarrow> 's \<Rightarrow> job_record option res"
  so_find_stale :: "call_env \<Rightarrow> 's \<Rightarrow> job_record list res"
  so_recover ::
    "call_env \<Rightarrow> ulid \<Rightarrow> datetime \<Rightarrow> i32 \<Rightarrow> u32 \<Rightarrow> journal_append \<Rightarrow> 's \<Rightarrow> bool res \<times> 's"
  so_extend_lease ::
    "call_env \<Rightarrow> ulid \<Rightarrow> string \<Rightarrow> u32 \<Rightarrow> duration \<Rightarrow> 's \<Rightarrow> bool res \<times> 's"
  so_query_jobs :: "call_env \<Rightarrow> history_filter \<Rightarrow> 's \<Rightarrow> job_record list res"
  so_job :: "call_env \<Rightarrow> ulid \<Rightarrow> 's \<Rightarrow> job_record option res"
  so_cleanup :: "call_env \<Rightarrow> cleanup_criteria \<Rightarrow> 's \<Rightarrow> nat res \<times> 's"
  so_merge_into ::
    "call_env \<Rightarrow> ulid \<Rightarrow> merge_payload option \<Rightarrow> journal_append \<Rightarrow> 's \<Rightarrow> bool res \<times> 's"
  so_stats :: "call_env \<Rightarrow> datetime \<Rightarrow> 's \<Rightarrow> 's \<Rightarrow> 's \<Rightarrow> snapshot res"

text \<open>
  A client's sequence of store calls: the \<open>n\<close>-th call sees what the other clients did to the store
  since the client's previous call, then runs under its own circumstances.
\<close>

type_synonym 's calls = "nat \<Rightarrow> ('s \<Rightarrow> 's) \<times> call_env"

definition before_call :: "'s calls \<Rightarrow> nat \<Rightarrow> 's \<Rightarrow> 's" where
  "before_call cs n s = fst (cs n) s"

definition call_at :: "'s calls \<Rightarrow> nat \<Rightarrow> call_env" where
  "call_at cs n = snd (cs n)"

section \<open>Column forms\<close>

interpretation status_column: canonical_encoding status_as_str status_from_db
proof
  show "status_from_db (status_as_str x) = Some x" for x by (cases x) (simp_all add: status_from_db_def)
qed (auto simp: status_from_db_def split: if_splits)

interpretation outcome_column: canonical_encoding outcome_as_str outcome_from_db
proof
  show "outcome_from_db (outcome_as_str x) = Some x" for x by (cases x) (simp_all add: outcome_from_db_def)
qed (auto simp: outcome_from_db_def split: if_splits)

interpretation priority_column: canonical_encoding as_smallint from_smallint
proof
  show "from_smallint (as_smallint x) = Some x" for x by (cases x) (simp_all add: from_smallint_def)
qed (auto simp: from_smallint_def split: if_splits)

lemmas column_roundtrips [simp] = status_column.decode_encode outcome_column.decode_encode priority_column.decode_encode
  status_column.encode_inject outcome_column.encode_inject

lemma status_as_str_eq [simp]:
  "status_as_str s = ''pending'' \<longleftrightarrow> s = Pending" "status_as_str s = ''claimed'' \<longleftrightarrow> s = Claimed"
  "status_as_str s = ''completed'' \<longleftrightarrow> s = Completed" "status_as_str s = ''dead'' \<longleftrightarrow> s = Dead"
  by (cases s; simp)+

lemma range_as_smallint: "range as_smallint = {0, 1, 2}"
proof -
  have "(UNIV :: priority set) = {High, Normal, Low}" using priority.exhaust by auto
  then show ?thesis by (rule ssubst) simp
qed

lemma from_smallint_None: "from_smallint v = None \<longleftrightarrow> v \<notin> {0, 1, 2}"
  using priority_column.decode_eq_None_iff by (simp add: range_as_smallint)

lemma as_smallint_range: "as_smallint p \<in> {0, 1, 2}"
  using range_as_smallint by blast

lemma validate_iff: "validate nj = Inr () \<longleftrightarrow> new_priority nj \<in> {0, 1, 2}"
  by (simp add: validate_def from_smallint_None)

end
