(* ===== verification/Store_Spec.thy ===== *)
theory Store_Spec
  imports Store_Types
begin

text \<open>
  The abstract store: what the documentation of the \<^verbatim>\<open>Store\<close> trait promises, as transitions on a
  finite map of jobs and a per-job journal, and the locales \<open>store_reads\<close> and \<open>store_contract\<close> that say
  when a record of operations implements it. Clients (the queue handle, the worker) are proved against this
  contract; the adapters discharge it.
\<close>

section \<open>The abstract store\<close>

record astore =
  a_job :: "ulid \<rightharpoonup> job_record"
  a_journal :: "ulid \<Rightarrow> journal_append list"

text \<open>A journal record without its surrogate identity.\<close>

definition entry_of :: "journal_record \<Rightarrow> journal_append" where
  "entry_of r =
     \<lparr>app_kind = entry_kind r, app_run_no = entry_run_no r, app_recorded_at = entry_recorded_at r,
      app_outcome = entry_outcome r, app_note = entry_note r, app_attachment = entry_attachment r\<rparr>"

definition fresh_job :: "new_job \<Rightarrow> job_record" where
  "fresh_job nj =
     \<lparr>job_id = new_id nj, job_kind = new_kind nj, job_payload = new_payload nj,
      job_priority = new_priority nj, job_status = Pending, job_created_at = new_created_at nj,
      job_visible_at = new_visible_at nj, job_claim_expires_at = None, job_claimed_by = None,
      job_finished_at = None, job_run_count = 0, job_failure_count = 0,
      job_carry = new_carry nj, job_dedup_key = new_dedup_key nj\<rparr>"

definition claimable :: "datetime \<Rightarrow> string list \<Rightarrow> i16 \<Rightarrow> job_record \<Rightarrow> bool" where
  "claimable now kinds pfloor j \<longleftrightarrow>
     job_status j = Pending \<and> job_visible_at j \<le> now \<and> job_kind j \<in> set kinds \<and>
     pfloor \<le> job_priority j"

definition claim_key :: "job_record \<Rightarrow> i16 \<times> datetime" where
  "claim_key j = (job_priority j, job_created_at j)"

definition claim_job :: "datetime \<Rightarrow> string \<Rightarrow> job_record \<Rightarrow> job_record" where
  "claim_job expiry by j =
     j\<lparr>job_status := Claimed, job_claimed_by := Some by, job_claim_expires_at := Some expiry,
       job_run_count := job_run_count j + 1\<rparr>"

definition owned :: "string \<Rightarrow> u32 \<Rightarrow> job_record \<Rightarrow> bool" where
  "owned by run_no j \<longleftrightarrow>
     job_claimed_by j = Some by \<and> job_run_count j = run_no \<and> job_status j = Claimed"

definition expired :: "datetime \<Rightarrow> u32 \<Rightarrow> job_record \<Rightarrow> bool" where
  "expired now run_no j \<longleftrightarrow>
     job_status j = Claimed \<and> (\<exists>t. job_claim_expires_at j = Some t \<and> t < now) \<and>
     job_run_count j = run_no"

definition unclaim :: "job_record \<Rightarrow> job_record" where
  "unclaim j = j\<lparr>job_claimed_by := None, job_claim_expires_at := None\<rparr>"

fun settle_job :: "settlement \<Rightarrow> job_record \<Rightarrow> job_record" where
  "settle_job (Complete fin) j =
     unclaim (j\<lparr>job_status := Completed, job_finished_at := Some fin\<rparr>)"
| "settle_job (Retry vis failures carry) j =
     unclaim (j\<lparr>job_status := Pending, job_visible_at := vis, job_failure_count := failures,
                job_carry := carry\<rparr>)"
| "settle_job (Pause vis carry) j =
     unclaim (j\<lparr>job_status := Pending, job_visible_at := vis, job_carry := carry\<rparr>)"
| "settle_job (GiveUp fin failures) j =
     unclaim (j\<lparr>job_status := Dead, job_finished_at := Some fin, job_failure_count := failures\<rparr>)"
| "settle_job (Release vis) j =
     unclaim (j\<lparr>job_status := Pending, job_visible_at := vis\<rparr>)"

definition recover_job :: "datetime \<Rightarrow> i32 \<Rightarrow> job_record \<Rightarrow> job_record" where
  "recover_job vis failures j =
     unclaim (j\<lparr>job_status := Pending, job_visible_at := vis, job_failure_count := failures\<rparr>)"

definition extend_job :: "datetime \<Rightarrow> job_record \<Rightarrow> job_record" where
  "extend_job expiry j = j\<lparr>job_claim_expires_at := Some expiry\<rparr>"

definition merge_job :: "merge_payload option \<Rightarrow> job_record \<Rightarrow> job_record" where
  "merge_job update j =
     (case update of
        None \<Rightarrow> j
      | Some mp \<Rightarrow> j\<lparr>job_payload := mp_payload mp, job_carry := mp_carry mp,
                     job_priority := mp_priority mp\<rparr>)"

definition sweepable :: "cleanup_criteria \<Rightarrow> job_record \<Rightarrow> bool" where
  "sweepable cc j \<longleftrightarrow>
     (\<exists>t. job_finished_at j = Some t \<and> t < cc_finished_before cc) \<and>
     (\<forall>k. cc_kind cc = Some k \<longrightarrow> job_kind j = k) \<and>
     (\<forall>st. cc_status cc = Some st \<longrightarrow> job_status j = st)"

text \<open>
  Every guarded write has one shape: if the job exists and passes the guard, it is changed and
  (for all but a lease extension) one journal entry is appended; otherwise nothing happens.
\<close>

definition guarded ::
  "(job_record \<Rightarrow> bool) \<Rightarrow> (job_record \<Rightarrow> job_record) \<Rightarrow> journal_append list \<Rightarrow> ulid \<Rightarrow> astore
    \<Rightarrow> bool \<times> astore" where
  "guarded g f es i a =
     (case a_job a i of
        Some j \<Rightarrow>
          if g j then
            (True, a\<lparr>a_job := (a_job a)(i \<mapsto> f j),
                     a_journal := (a_journal a)(i := a_journal a i @ es)\<rparr>)
          else (False, a)
      | None \<Rightarrow> (False, a))"

definition spec_settle ::
  "string \<Rightarrow> u32 \<Rightarrow> settlement \<Rightarrow> journal_append \<Rightarrow> ulid \<Rightarrow> astore \<Rightarrow> bool \<times> astore" where
  "spec_settle by run_no stl ja = guarded (owned by run_no) (settle_job stl) [ja]"

definition spec_recover ::
  "datetime \<Rightarrow> datetime \<Rightarrow> i32 \<Rightarrow> u32 \<Rightarrow> journal_append \<Rightarrow> ulid \<Rightarrow> astore \<Rightarrow> bool \<times> astore" where
  "spec_recover now vis failures run_no ja =
     guarded (expired now run_no) (recover_job vis failures) [ja]"

definition spec_extend :: "datetime \<Rightarrow> string \<Rightarrow> u32 \<Rightarrow> ulid \<Rightarrow> astore \<Rightarrow> bool \<times> astore" where
  "spec_extend expiry by run_no = guarded (owned by run_no) (extend_job expiry) []"

definition spec_merge ::
  "merge_payload option \<Rightarrow> journal_append \<Rightarrow> ulid \<Rightarrow> astore \<Rightarrow> bool \<times> astore" where
  "spec_merge update ja = guarded (\<lambda>j. job_status j = Pending) (merge_job update) [ja]"

definition spec_enqueue :: "new_job \<Rightarrow> astore \<Rightarrow> astore" where
  "spec_enqueue nj a = a\<lparr>a_job := (a_job a)(new_id nj \<mapsto> fresh_job nj)\<rparr>"

definition spec_cleanup :: "cleanup_criteria \<Rightarrow> astore \<Rightarrow> astore" where
  "spec_cleanup cc a =
     (let swept = (\<lambda>i. \<exists>j. a_job a i = Some j \<and> sweepable cc j)
      in a\<lparr>a_job := (\<lambda>i. if swept i then None else a_job a i),
           a_journal := (\<lambda>i. if swept i then [] else a_journal a i)\<rparr>)"

text \<open>The live aggregate state: counts per kind, and the age of the oldest pending job.\<close>

definition jobs_in :: "astore \<Rightarrow> status \<Rightarrow> string \<Rightarrow> job_record set" where
  "jobs_in a st k = {j. \<exists>i. a_job a i = Some j \<and> job_status j = st \<and> job_kind j = k}"

definition spec_stats :: "datetime \<Rightarrow> astore \<Rightarrow> snapshot" where
  "spec_stats now a =
     \<lparr>snap_pending_by_kind = (\<lambda>k. if jobs_in a Pending k = {} then None else Some (card (jobs_in a Pending k))),
      snap_oldest_pending_age = (\<lambda>k. if jobs_in a Pending k = {} then None
        else Some (nat (now - Min (job_created_at ` jobs_in a Pending k)))),
      snap_claimed = card {j. \<exists>i. a_job a i = Some j \<and> job_status j = Claimed},
      snap_dead_by_kind = (\<lambda>k. if jobs_in a Dead k = {} then None else Some (card (jobs_in a Dead k)))\<rparr>"

text \<open>
  A claim takes a job that no eligible, unlocked job precedes in priority-then-age order; which of
  several equal ones is open. It finds nothing only when every eligible job is locked.
\<close>

definition spec_claim ::
  "(ulid \<Rightarrow> bool) \<Rightarrow> datetime \<Rightarrow> string list \<Rightarrow> i16 \<Rightarrow> duration \<Rightarrow> string \<Rightarrow> astore
    \<Rightarrow> job_record option \<Rightarrow> astore \<Rightarrow> bool" where
  "spec_claim busy now kinds pfloor lease by a r a' \<longleftrightarrow>
     (case r of
        None \<Rightarrow>
          a' = a \<and> (\<forall>i j. a_job a i = Some j \<and> claimable now kinds pfloor j \<longrightarrow> busy i)
      | Some j' \<Rightarrow>
          (\<exists>i j expiry.
             a_job a i = Some j \<and> claimable now kinds pfloor j \<and> \<not> busy i \<and>
             (\<forall>k l. a_job a k = Some l \<and> claimable now kinds pfloor l \<and> \<not> busy k \<longrightarrow>
                claim_key j \<le> claim_key l) \<and>
             unat (job_run_count j) < u32_max \<and>
             now \<le> expiry \<and> expiry \<le> now + int lease \<and>
             j' = claim_job expiry by j \<and>
             a' = a\<lparr>a_job := (a_job a)(i \<mapsto> j')\<rparr>))"

section \<open>Well-formed jobs\<close>

text \<open>
  The claim columns are set exactly while the job is claimed, the terminal timestamp exactly in a
  terminal state, and the priority is one of the three tiers.
\<close>

definition job_wf :: "job_record \<Rightarrow> bool" where
  "job_wf j \<longleftrightarrow>
     (job_claimed_by j \<noteq> None \<longleftrightarrow> job_status j = Claimed) \<and>
     (job_claim_expires_at j \<noteq> None \<longleftrightarrow> job_status j = Claimed) \<and>
     (job_finished_at j \<noteq> None \<longleftrightarrow> job_status j \<in> {Completed, Dead}) \<and>
     job_priority j \<in> {0, 1, 2}"

definition astore_wf :: "astore \<Rightarrow> bool" where
  "astore_wf a \<longleftrightarrow>
     (\<forall>i j. a_job a i = Some j \<longrightarrow> job_id j = i \<and> job_wf j) \<and>
     (\<forall>i. a_job a i = None \<longrightarrow> a_journal a i = [])"

definition merge_valid :: "merge_payload option \<Rightarrow> bool" where
  "merge_valid update \<longleftrightarrow> (\<forall>mp. update = Some mp \<longrightarrow> mp_priority mp \<in> {0, 1, 2})"

lemmas job_defs = claim_job_def recover_job_def extend_job_def merge_job_def fresh_job_def unclaim_def
lemmas guard_defs = owned_def expired_def claimable_def

lemma job_id_transitions [simp]:
  "job_id (claim_job e by j) = job_id j" "job_id (settle_job stl j) = job_id j"
  "job_id (recover_job v n j) = job_id j" "job_id (extend_job e j) = job_id j"
  "job_id (merge_job u j) = job_id j" "job_id (fresh_job nj) = new_id nj"
  by (simp_all add: job_defs split: option.split) (cases stl; simp add: unclaim_def)

lemma job_kind_transitions [simp]:
  "job_kind (claim_job e by j) = job_kind j" "job_kind (settle_job stl j) = job_kind j"
  "job_kind (recover_job v n j) = job_kind j" "job_kind (extend_job e j) = job_kind j"
  "job_kind (merge_job u j) = job_kind j"
  by (simp_all add: job_defs split: option.split) (cases stl; simp add: unclaim_def)

lemma job_run_count_transitions [simp]:
  "job_run_count (settle_job stl j) = job_run_count j"
  "job_run_count (recover_job v n j) = job_run_count j"
  "job_run_count (extend_job e j) = job_run_count j"
  "job_run_count (merge_job u j) = job_run_count j"
  by (simp_all add: job_defs split: option.split) (cases stl; simp add: unclaim_def)

lemma job_run_count_claim: "job_run_count (claim_job e by j) = job_run_count j + 1"
  by (simp add: claim_job_def)

lemma job_wf_claim: "job_wf j \<Longrightarrow> job_status j = Pending \<Longrightarrow> job_wf (claim_job e by j)"
  by (auto simp: job_wf_def job_defs)

lemma job_wf_settle: "job_wf j \<Longrightarrow> job_status j = Claimed \<Longrightarrow> job_wf (settle_job stl j)"
  by (cases stl) (auto simp: job_wf_def job_defs)

lemma job_wf_recover: "job_wf j \<Longrightarrow> job_status j = Claimed \<Longrightarrow> job_wf (recover_job v n j)"
  by (auto simp: job_wf_def job_defs)

lemma job_wf_extend: "job_wf j \<Longrightarrow> job_status j = Claimed \<Longrightarrow> job_wf (extend_job e j)"
  by (auto simp: job_wf_def job_defs)

lemma job_wf_merge: "job_wf j \<Longrightarrow> merge_valid u \<Longrightarrow> job_wf (merge_job u j)"
  by (auto simp: job_wf_def job_defs merge_valid_def split: option.split)

lemma job_wf_fresh: "new_priority nj \<in> {0, 1, 2} \<Longrightarrow> job_wf (fresh_job nj)"
  by (auto simp: job_wf_def job_defs)

lemmas job_wf_intros = job_wf_claim job_wf_settle job_wf_recover job_wf_extend job_wf_merge
  job_wf_fresh

lemma guarded_cases:
  obtains (applied) j where "a_job a i = Some j" "g j"
      "guarded g f es i a =
        (True, a\<lparr>a_job := (a_job a)(i \<mapsto> f j), a_journal := (a_journal a)(i := a_journal a i @ es)\<rparr>)"
    | (missed) "guarded g f es i a = (False, a)" "\<And>j. a_job a i = Some j \<Longrightarrow> \<not> g j"
  by (cases "a_job a i") (auto simp: guarded_def split: if_splits)

lemma guarded_fst: "fst (guarded g f es i a) \<longleftrightarrow> (\<exists>j. a_job a i = Some j \<and> g j)"
  by (auto simp: guarded_def split: option.split)

lemma guarded_other: "k \<noteq> i \<Longrightarrow> a_job (snd (guarded g f es i a)) k = a_job a k"
  "k \<noteq> i \<Longrightarrow> a_journal (snd (guarded g f es i a)) k = a_journal a k"
  by (auto simp: guarded_def split: option.split)

lemma astore_wf_guarded:
  assumes "astore_wf a"
    and "\<And>j. a_job a i = Some j \<Longrightarrow> g j \<Longrightarrow> job_wf j \<Longrightarrow> job_id (f j) = job_id j \<and> job_wf (f j)"
  shows "astore_wf (snd (guarded g f es i a))"
  by (rule guarded_cases [of a i g f es]) (use assms in \<open>auto simp: astore_wf_def\<close>)

lemma astore_wf_spec:
  assumes "astore_wf a"
  shows "astore_wf (snd (spec_settle by rn stl ja i a))"
    and "astore_wf (snd (spec_recover now vis fc rn ja i a))"
    and "astore_wf (snd (spec_extend expiry by rn i a))"
    and "merge_valid u \<Longrightarrow> astore_wf (snd (spec_merge u ja i a))"
    and "new_priority nj \<in> {0, 1, 2} \<Longrightarrow> astore_wf (spec_enqueue nj a)"
    and "astore_wf (spec_cleanup cc a)"
  unfolding spec_settle_def spec_recover_def spec_extend_def spec_merge_def
  by (intro astore_wf_guarded [OF assms] conjI job_wf_intros; simp add: guard_defs)+
    (use assms in \<open>auto simp: astore_wf_def spec_enqueue_def spec_cleanup_def Let_def job_wf_fresh\<close>)

lemma astore_wf_spec_claim:
  "astore_wf a \<Longrightarrow> spec_claim busy now ks fl ls by a r a' \<Longrightarrow> astore_wf a'"
  by (auto simp: spec_claim_def astore_wf_def claimable_def job_wf_claim split: option.splits if_splits)

section \<open>The contract\<close>

text \<open>
  \<open>conforms view s out spec\<close>: the call's outcome \<open>out\<close> from state \<open>s\<close> agrees with the abstract
  transition. A successful call returns the specified value and reaches the specified state; a
  failing call had either no effect or, with its acknowledgement lost, the whole effect.
\<close>

definition conforms ::
  "('s \<Rightarrow> astore) \<Rightarrow> 's \<Rightarrow> 'a res \<times> 's \<Rightarrow> 'a \<times> astore \<Rightarrow> bool" where
  "conforms view s out spec \<longleftrightarrow>
     (case fst out of
        Inr v \<Rightarrow> v = fst spec \<and> view (snd out) = snd spec
      | Inl _ \<Rightarrow> view (snd out) = view s \<or> view (snd out) = snd spec)"

lemma conforms_cases:
  assumes "conforms view s out spec"
  obtains "view (snd out) = view s" | "view (snd out) = snd spec"
  using assms by (auto simp: conforms_def split: sum.splits)

lemma conforms_Inr:
  "conforms view s (Inr v, s') spec \<longleftrightarrow> v = fst spec \<and> view s' = snd spec"
  by (simp add: conforms_def)

text \<open>What the read operations promise of the abstract state, which every reachable state has.\<close>

locale store_reads =
  fixes ops :: "'s store_ops"
    and invar :: "'s \<Rightarrow> bool"
    and view :: "'s \<Rightarrow> astore"
  assumes view_wf: "invar s \<Longrightarrow> astore_wf (view s)"
    and journal_ok:
      "invar s \<Longrightarrow> so_journal ops e i s = Inr rs \<Longrightarrow> map entry_of rs = a_journal (view s) i"
    and job_ok: "invar s \<Longrightarrow> so_job ops e i s = Inr r \<Longrightarrow> r = a_job (view s) i"
    and find_stale_ok:
      "invar s \<Longrightarrow> so_find_stale ops e s = Inr js \<Longrightarrow> j \<in> set js \<Longrightarrow>
        a_job (view s) (job_id j) = Some j \<and> expired (env_now e) (job_run_count j) j"
    and dedup_none:
      "invar s \<Longrightarrow> so_dedup_candidate ops e k key s = Inr None \<Longrightarrow> a_job (view s) i = Some j \<Longrightarrow>
        \<not> (job_kind j = k \<and> job_dedup_key j = Some key \<and> job_status j = Pending)"
    and dedup_some:
      "invar s \<Longrightarrow> so_dedup_candidate ops e k key s = Inr (Some j) \<Longrightarrow>
        a_job (view s) (job_id j) = Some j \<and> job_kind j = k \<and> job_dedup_key j = Some key \<and>
        job_status j = Pending \<and>
        (\<forall>i l. a_job (view s) i = Some l \<and> job_kind l = k \<and> job_dedup_key l = Some key \<and>
          job_status l = Pending \<longrightarrow> job_created_at j \<le> job_created_at l)"
    and next_visible_ok:
      "invar s \<Longrightarrow> so_next_visible_at ops e ks s = Inr upcoming \<Longrightarrow>
        (case upcoming of
           None \<Rightarrow> \<forall>i j. a_job (view s) i = Some j \<and> job_status j = Pending \<and> job_kind j \<in> set ks \<longrightarrow>
             job_visible_at j \<le> env_now e
         | Some t \<Rightarrow> env_now e < t \<and>
             (\<forall>i j. a_job (view s) i = Some j \<and> job_status j = Pending \<and> job_kind j \<in> set ks \<longrightarrow>
               job_visible_at j \<le> env_now e \<or> t \<le> job_visible_at j))"
    and stats_ok: "invar s \<Longrightarrow> so_stats ops e now s s s = Inr sn \<Longrightarrow> sn = spec_stats now (view s)"

text \<open>
  The guarded writes: an enqueue, a settlement, a recovery, a merge or a sweep has the specified effect,
  under any fault.
\<close>

locale store_writes = store_reads ops invar view
  for ops :: "'s store_ops" and invar :: "'s \<Rightarrow> bool" and view :: "'s \<Rightarrow> astore" +
  assumes enqueue_invalid:
      "new_priority nj \<notin> {0, 1, 2} \<Longrightarrow>
        so_enqueue ops e nj s = (Inl (InvalidPriority (new_priority nj)), s)"
    and enqueue_inv:
      "invar s \<Longrightarrow> a_job (view s) (new_id nj) = None \<Longrightarrow> invar (snd (so_enqueue ops e nj s))"
    and enqueue_conforms:
      "invar s \<Longrightarrow> new_priority nj \<in> {0, 1, 2} \<Longrightarrow> a_job (view s) (new_id nj) = None \<Longrightarrow>
        conforms view s (so_enqueue ops e nj s) ((), spec_enqueue nj (view s))"
    and settle_inv: "invar s \<Longrightarrow> invar (snd (so_settle ops e i by rn stl ja s))"
    and settle_conforms:
      "invar s \<Longrightarrow>
        conforms view s (so_settle ops e i by rn stl ja s) (spec_settle by rn stl ja i (view s))"
    and recover_inv: "invar s \<Longrightarrow> invar (snd (so_recover ops e i vis fc rn ja s))"
    and recover_conforms:
      "invar s \<Longrightarrow>
        conforms view s (so_recover ops e i vis fc rn ja s)
          (spec_recover (env_now e) vis fc rn ja i (view s))"
    and merge_inv: "invar s \<Longrightarrow> merge_valid u \<Longrightarrow> invar (snd (so_merge_into ops e i u ja s))"
    and merge_conforms:
      "invar s \<Longrightarrow> merge_valid u \<Longrightarrow>
        conforms view s (so_merge_into ops e i u ja s) (spec_merge u ja i (view s))"
    and responds:
      "invar s \<Longrightarrow> env_fault e = None \<Longrightarrow> a_job (view s) i = Some j \<Longrightarrow> rn = job_run_count j \<Longrightarrow>
        app_run_no ja = job_run_count j \<Longrightarrow>
        (\<exists>v. fst (so_settle ops e i by rn stl ja s) = Inr v) \<and>
        (\<exists>v. fst (so_recover ops e i vis fc rn ja s) = Inr v) \<and>
        (merge_valid u \<longrightarrow> (\<exists>v. fst (so_merge_into ops e i u ja s) = Inr v))"
    and enqueue_responds:
      "invar s \<Longrightarrow> env_fault e = None \<Longrightarrow> new_priority nj \<in> {0, 1, 2} \<Longrightarrow>
        a_job (view s) (new_id nj) = None \<Longrightarrow> fst (so_enqueue ops e nj s) = Inr ()"
    and cleanup_inv: "invar s \<Longrightarrow> invar (snd (so_cleanup ops e cc s))"
    and cleanup_effect:
      "invar s \<Longrightarrow> view (snd (so_cleanup ops e cc s)) = view s \<or>
        view (snd (so_cleanup ops e cc s)) = spec_cleanup cc (view s)"
    and cleanup_ok:
      "invar s \<Longrightarrow> so_cleanup ops e cc s = (Inr n, s') \<Longrightarrow>
        n = card {j. \<exists>i. a_job (view s) i = Some j \<and> sweepable cc j} \<and> view s' = spec_cleanup cc (view s)"

text \<open>
  The whole contract adds what depends on the store's clock: claims and lease extensions, with \<open>busy\<close> the
  jobs other transactions hold locked.
\<close>

locale store_contract = store_writes ops invar view
  for ops :: "'s store_ops" and invar :: "'s \<Rightarrow> bool" and view :: "'s \<Rightarrow> astore" +
  fixes busy :: "call_env \<Rightarrow> ulid \<Rightarrow> bool"
  assumes claim_inv: "invar s \<Longrightarrow> invar (snd (so_claim_next ops e ks fl ls by s))"
    and claim_ok:
      "invar s \<Longrightarrow> so_claim_next ops e ks fl ls by s = (Inr r, s') \<Longrightarrow>
        spec_claim (busy e) (env_now e) ks fl ls by (view s) r (view s')"
    and claim_err:
      "invar s \<Longrightarrow> so_claim_next ops e ks fl ls by s = (Inl x, s') \<Longrightarrow>
        view s' = view s \<or> (\<exists>r. spec_claim (busy e) (env_now e) ks fl ls by (view s) r (view s'))"
    and extend_inv: "invar s \<Longrightarrow> invar (snd (so_extend_lease ops e i by rn ls s))"
    and extend_conforms:
      "invar s \<Longrightarrow> \<exists>expiry. env_now e \<le> expiry \<and> expiry \<le> env_now e + int ls \<and>
        conforms view s (so_extend_lease ops e i by rn ls s) (spec_extend expiry by rn i (view s))"
    and extend_responds:
      "invar s \<Longrightarrow> env_fault e = None \<Longrightarrow> a_job (view s) i = Some j \<Longrightarrow> rn = job_run_count j \<Longrightarrow>
        \<exists>v. fst (so_extend_lease ops e i by rn ls s) = Inr v"

context store_writes
begin

lemma recover_responds:
  "invar s \<Longrightarrow> env_fault e = None \<Longrightarrow> a_job (view s) i = Some j \<Longrightarrow> app_run_no ja = job_run_count j \<Longrightarrow>
    \<exists>v. fst (so_recover ops e i vis fc (job_run_count j) ja s) = Inr v"
  by (rule responds [THEN conjunct2, THEN conjunct1, OF _ _ _ refl])

lemma settle_responds:
  "invar s \<Longrightarrow> env_fault e = None \<Longrightarrow> a_job (view s) i = Some j \<Longrightarrow> app_run_no ja = job_run_count j \<Longrightarrow>
    \<exists>v. fst (so_settle ops e i by (job_run_count j) stl ja s) = Inr v"
  by (rule responds [THEN conjunct1, OF _ _ _ refl])

end

end
