(* ===== verification/Postgres_Rows.thy ===== *)
theory Postgres_Rows
  imports Store_Spec
begin

text \<open>
  Table rows and their decoding (\<^verbatim>\<open>src/postgres/rows.rs\<close>, with the columns of
  \<^verbatim>\<open>migrations/V1__initial.sql\<close>). Identifiers and states are text in the tables, so reading a row
  can fail. The textual form of a ULID comes from the \<^verbatim>\<open>ulid\<close> crate and is a parameter: a codec,
  of which the theorems assume that parsing undoes printing.
\<close>

section \<open>Definitions\<close>

record ulid_codec =
  to_string :: "ulid \<Rightarrow> string"
  from_string :: "string \<Rightarrow> ulid option"

definition ulid_codec_ok :: "ulid_codec \<Rightarrow> bool" where
  "ulid_codec_ok c \<longleftrightarrow> (\<forall>u. from_string c (to_string c u) = Some u)"

record job_row =
  r_id :: string
  r_kind :: string
  r_payload :: json
  r_priority :: i16
  r_status :: string
  r_created_at :: datetime
  r_visible_at :: datetime
  r_claim_expires_at :: "datetime option"
  r_claimed_by :: "string option"
  r_finished_at :: "datetime option"
  r_run_count :: i32
  r_failure_count :: i32
  r_carry :: json
  r_dedup_key :: "string option"

record journal_row =
  jr_id :: i64
  jr_job_id :: string
  jr_kind :: string
  jr_run_no :: i32
  jr_recorded_at :: datetime
  jr_outcome :: string
  jr_note :: "string option"
  jr_attachment :: "json option"

definition job_from_row :: "ulid_codec \<Rightarrow> job_row \<Rightarrow> job_record res" where
  "job_from_row c r =
     bind_ok
       (case from_string c (r_id r) of
          None \<Rightarrow> Inl (Config (StoredJobIdInvalid (r_id r))) | Some u \<Rightarrow> Inr u)
       (\<lambda>u. bind_ok
         (case status_from_db (r_status r) of
            None \<Rightarrow> Inl (Config (StoredStatusUnknown (r_status r))) | Some s \<Rightarrow> Inr s)
         (\<lambda>s. Inr
           \<lparr>job_id = u, job_kind = r_kind r, job_payload = r_payload r,
            job_priority = r_priority r, job_status = s, job_created_at = r_created_at r,
            job_visible_at = r_visible_at r, job_claim_expires_at = r_claim_expires_at r,
            job_claimed_by = r_claimed_by r, job_finished_at = r_finished_at r,
            job_run_count = r_run_count r, job_failure_count = r_failure_count r,
            job_carry = r_carry r, job_dedup_key = r_dedup_key r\<rparr>))"

definition journal_from_row :: "ulid_codec \<Rightarrow> journal_row \<Rightarrow> journal_record res" where
  "journal_from_row c r =
     bind_ok
       (case from_string c (jr_job_id r) of
          None \<Rightarrow> Inl (Config (JournalJobIdInvalid (jr_job_id r))) | Some u \<Rightarrow> Inr u)
       (\<lambda>u. bind_ok
         (case outcome_from_db (jr_outcome r) of
            None \<Rightarrow> Inl (Config (JournalOutcomeUnknown (jr_outcome r))) | Some k \<Rightarrow> Inr k)
         (\<lambda>k. Inr
           \<lparr>entry_id = jr_id r, entry_job_id = u, entry_kind = jr_kind r,
            entry_run_no = jr_run_no r, entry_recorded_at = jr_recorded_at r,
            entry_outcome = k, entry_note = jr_note r, entry_attachment = jr_attachment r\<rparr>))"

text \<open>
  The typed row: what a row stores, before its text is decoded, is determined by a job record.
\<close>

definition row_of_job :: "ulid_codec \<Rightarrow> job_record \<Rightarrow> job_row" where
  "row_of_job c j =
     \<lparr>r_id = to_string c (job_id j), r_kind = job_kind j, r_payload = job_payload j,
      r_priority = job_priority j, r_status = status_as_str (job_status j),
      r_created_at = job_created_at j, r_visible_at = job_visible_at j,
      r_claim_expires_at = job_claim_expires_at j, r_claimed_by = job_claimed_by j,
      r_finished_at = job_finished_at j, r_run_count = job_run_count j,
      r_failure_count = job_failure_count j, r_carry = job_carry j,
      r_dedup_key = job_dedup_key j\<rparr>"

definition row_of_entry :: "ulid_codec \<Rightarrow> i64 \<Rightarrow> ulid \<Rightarrow> journal_append \<Rightarrow> journal_row" where
  "row_of_entry c n i ja =
     \<lparr>jr_id = n, jr_job_id = to_string c i, jr_kind = app_kind ja, jr_run_no = app_run_no ja,
      jr_recorded_at = app_recorded_at ja, jr_outcome = outcome_as_str (app_outcome ja),
      jr_note = app_note ja, jr_attachment = app_attachment ja\<rparr>"

section \<open>Decoding\<close>

lemma to_string_inj [simp]:
  "ulid_codec_ok c \<Longrightarrow> to_string c u = to_string c v \<longleftrightarrow> u = v"
  by (metis option.inject ulid_codec_ok_def)

lemma job_from_row_of_job [simp]:
  "ulid_codec_ok c \<Longrightarrow> job_from_row c (row_of_job c j) = Inr j"
  by (simp add: job_from_row_def row_of_job_def ulid_codec_ok_def)

lemma journal_from_row_of_entry [simp]:
  "ulid_codec_ok c \<Longrightarrow> journal_from_row c (row_of_entry c n i ja) =
    Inr \<lparr>entry_id = n, entry_job_id = i, entry_kind = app_kind ja, entry_run_no = app_run_no ja,
         entry_recorded_at = app_recorded_at ja, entry_outcome = app_outcome ja,
         entry_note = app_note ja, entry_attachment = app_attachment ja\<rparr>"
  by (simp add: journal_from_row_def row_of_entry_def ulid_codec_ok_def)

lemma row_of_job_sel [row_simps]:
  "r_id (row_of_job c j) = to_string c (job_id j)" "r_kind (row_of_job c j) = job_kind j"
  "r_payload (row_of_job c j) = job_payload j" "r_priority (row_of_job c j) = job_priority j"
  "r_status (row_of_job c j) = status_as_str (job_status j)"
  "r_created_at (row_of_job c j) = job_created_at j"
  "r_visible_at (row_of_job c j) = job_visible_at j"
  "r_claim_expires_at (row_of_job c j) = job_claim_expires_at j"
  "r_claimed_by (row_of_job c j) = job_claimed_by j"
  "r_finished_at (row_of_job c j) = job_finished_at j"
  "r_run_count (row_of_job c j) = job_run_count j"
  "r_failure_count (row_of_job c j) = job_failure_count j"
  "r_carry (row_of_job c j) = job_carry j" "r_dedup_key (row_of_job c j) = job_dedup_key j"
  by (simp_all add: row_of_job_def)

lemma row_of_job_inj [simp]: "ulid_codec_ok c \<Longrightarrow> row_of_job c j = row_of_job c k \<longleftrightarrow> j = k"
  by (metis job_from_row_of_job sum.inject(2))

end
