(* ===== verification/Postgres_Store.thy ===== *)
theory Postgres_Store
  imports Postgres_Rows
begin

text \<open>
  The PostgreSQL adapter (\<^verbatim>\<open>src/postgres/mod.rs\<close>): the two tables as lists of rows in an arbitrary
  physical order, one definition per store operation with its statements, guards and transaction,
  the notification each committed write queues, and the prefix validation and advisory-lock key.
  Statements follow the documented semantics of PostgreSQL at the default isolation level: a
  transaction of one guarded \<^verbatim>\<open>UPDATE\<close> holds the row lock until it commits, so each operation
  below is atomic; comparisons with \<^verbatim>\<open>NULL\<close> are not true; a requested order leaves ties to the
  planner (\<open>env_plan\<close>); \<^verbatim>\<open>SKIP LOCKED\<close> passes over \<open>env_locked\<close> rows. Timestamps are stored
  exactly.
\<close>

section \<open>State and statements\<close>

record pg_state =
  jobs_tbl :: "job_row list"
  journal_tbl :: "journal_row list"
  journal_seq :: i64
  notified :: nat

definition pg_empty :: pg_state where
  "pg_empty = \<lparr>jobs_tbl = [], journal_tbl = [], journal_seq = 1, notified = 0\<rparr>"

text \<open>
  \<open>transact e s out\<close> ends a transaction begun in \<open>s\<close>: an error of a statement rolls it back; the
  connection may fail before the commit, or after it with the acknowledgement lost.
\<close>

definition transact :: "call_env \<Rightarrow> 's \<Rightarrow> 'a res \<times> 's \<Rightarrow> 'a res \<times> 's" where
  "transact e s out =
     (case fst out of
        Inl x \<Rightarrow> (Inl (case env_fault e of None \<Rightarrow> x | Some (Rolled_back y) \<Rightarrow> y | Some (Ack_lost y) \<Rightarrow> y), s)
      | Inr v \<Rightarrow>
          (case env_fault e of
             None \<Rightarrow> (Inr v, snd out)
           | Some (Rolled_back x) \<Rightarrow> (Inl x, s)
           | Some (Ack_lost x) \<Rightarrow> (Inl x, snd out)))"

definition fetch :: "call_env \<Rightarrow> 'a res \<Rightarrow> 'a res" where
  "fetch e r =
     (case env_fault e of
        None \<Rightarrow> r
      | Some (Rolled_back x) \<Rightarrow> Inl x
      | Some (Ack_lost x) \<Rightarrow> Inl x)"

text \<open>\<^verbatim>\<open>UPDATE .. SET f WHERE p\<close>: the number of rows affected and the new table.\<close>

definition sql_update :: "('r \<Rightarrow> bool) \<Rightarrow> ('r \<Rightarrow> 'r) \<Rightarrow> 'r list \<Rightarrow> nat \<times> 'r list" where
  "sql_update p f rows = (length (filter p rows), map (\<lambda>r. if p r then f r else r) rows)"

text \<open>\<^verbatim>\<open>INSERT INTO .._journal\<close>, with the identity column generated.\<close>

definition insert_journal :: "string \<Rightarrow> i32 \<Rightarrow> journal_append \<Rightarrow> pg_state \<Rightarrow> pg_state" where
  "insert_journal jid run_no ja st =
     st\<lparr>journal_tbl := journal_tbl st @
          [\<lparr>jr_id = journal_seq st, jr_job_id = jid, jr_kind = app_kind ja, jr_run_no = run_no,
            jr_recorded_at = app_recorded_at ja, jr_outcome = outcome_as_str (app_outcome ja),
            jr_note = app_note ja, jr_attachment = app_attachment ja\<rparr>],
        journal_seq := journal_seq st + 1\<rparr>"

definition notify :: "pg_state \<Rightarrow> pg_state" where
  "notify st = st\<lparr>notified := notified st + 1\<rparr>"

fun notifies_on_repend :: "settlement \<Rightarrow> bool" where
  "notifies_on_repend (Retry _ _ _) = True"
| "notifies_on_repend (Pause _ _) = True"
| "notifies_on_repend (Release _) = True"
| "notifies_on_repend (Complete _) = False"
| "notifies_on_repend (GiveUp _ _) = False"

definition run_no_to_db :: "u32 \<Rightarrow> i32 res" where
  "run_no_to_db run_no = (if sint run_no < 0 then Inl (RunNumberOutOfRange run_no) else Inr run_no)"

section \<open>Writing operations\<close>

definition pg_enqueue :: "ulid_codec \<Rightarrow> call_env \<Rightarrow> new_job \<Rightarrow> pg_state \<Rightarrow> unit res \<times> pg_state" where
  "pg_enqueue c e nj st =
     (case validate nj of
        Inl x \<Rightarrow> (Inl x, st)
      | Inr _ \<Rightarrow>
          let row = \<lparr>r_id = to_string c (new_id nj), r_kind = new_kind nj, r_payload = new_payload nj,
                     r_priority = new_priority nj, r_status = ''pending'',
                     r_created_at = new_created_at nj, r_visible_at = new_visible_at nj,
                     r_claim_expires_at = None, r_claimed_by = None, r_finished_at = None,
                     r_run_count = 0, r_failure_count = 0, r_carry = new_carry nj,
                     r_dedup_key = new_dedup_key nj\<rparr>
          in transact e st
               (if r_id row \<in> r_id ` set (jobs_tbl st) then (Inl unique_violation, st)
                else (Inr (), notify (st\<lparr>jobs_tbl := jobs_tbl st @ [row]\<rparr>))))"

definition claim_row :: "datetime \<Rightarrow> string \<Rightarrow> job_row \<Rightarrow> job_row" where
  "claim_row expiry by r =
     r\<lparr>r_status := ''claimed'', r_claimed_by := Some by, r_claim_expires_at := Some expiry,
       r_run_count := r_run_count r + 1\<rparr>"

definition pg_claim_candidates ::
  "call_env \<Rightarrow> string list \<Rightarrow> i16 \<Rightarrow> pg_state \<Rightarrow> job_row list" where
  "pg_claim_candidates e kinds pfloor st =
     sort_key (\<lambda>r. (r_priority r, r_created_at r, env_plan e (r_id r)))
       (filter (\<lambda>r. r_status r = ''pending'' \<and> r_visible_at r \<le> env_now e \<and>
                    r_kind r \<in> set kinds \<and> pfloor \<le> r_priority r \<and> \<not> env_locked e (r_id r))
          (jobs_tbl st))"

definition pg_claim_next ::
  "ulid_codec \<Rightarrow> call_env \<Rightarrow> string list \<Rightarrow> i16 \<Rightarrow> duration \<Rightarrow> string \<Rightarrow> pg_state
    \<Rightarrow> job_record option res \<times> pg_state" where
  "pg_claim_next c e kinds pfloor lease by st =
     (case pg_claim_candidates e kinds pfloor st of
        [] \<Rightarrow> transact e st (Inr None, st)
      | r # _ \<Rightarrow>
          let f = claim_row (env_now e + int lease) by;
              jobs' = snd (sql_update (\<lambda>x. r_id x = r_id r) f (jobs_tbl st));
              out = transact e st
                (if sint (r_run_count r) = i32_max then (Inl integer_out_of_range, st)
                 else (Inr (f r), st\<lparr>jobs_tbl := jobs'\<rparr>))
          in (bind_ok (fst out) (\<lambda>row. bind_ok (job_from_row c row) (\<lambda>j. Inr (Some j))), snd out))"

text \<open>The columns each settlement writes; every one clears the claim.\<close>

fun settle_row :: "settlement \<Rightarrow> job_row \<Rightarrow> job_row" where
  "settle_row (Complete fin) r =
     r\<lparr>r_status := ''completed'', r_finished_at := Some fin, r_claimed_by := None,
       r_claim_expires_at := None\<rparr>"
| "settle_row (Retry vis failures carry) r =
     r\<lparr>r_status := ''pending'', r_visible_at := vis, r_failure_count := failures, r_carry := carry,
       r_claimed_by := None, r_claim_expires_at := None\<rparr>"
| "settle_row (Pause vis carry) r =
     r\<lparr>r_status := ''pending'', r_visible_at := vis, r_carry := carry, r_claimed_by := None,
       r_claim_expires_at := None\<rparr>"
| "settle_row (GiveUp fin failures) r =
     r\<lparr>r_status := ''dead'', r_finished_at := Some fin, r_failure_count := failures,
       r_claimed_by := None, r_claim_expires_at := None\<rparr>"
| "settle_row (Release vis) r =
     r\<lparr>r_status := ''pending'', r_visible_at := vis, r_claimed_by := None,
       r_claim_expires_at := None\<rparr>"

definition owned_row :: "string \<Rightarrow> string \<Rightarrow> i32 \<Rightarrow> job_row \<Rightarrow> bool" where
  "owned_row jid by run_no r \<longleftrightarrow>
     r_id r = jid \<and> r_claimed_by r = Some by \<and> r_run_count r = run_no \<and> r_status r = ''claimed''"

definition pg_settle ::
  "ulid_codec \<Rightarrow> call_env \<Rightarrow> ulid \<Rightarrow> string \<Rightarrow> u32 \<Rightarrow> settlement \<Rightarrow> journal_append \<Rightarrow> pg_state
    \<Rightarrow> bool res \<times> pg_state" where
  "pg_settle c e i by run_no stl ja st =
     (let jid = to_string c i in
      case run_no_to_db run_no of
        Inl x \<Rightarrow> (Inl x, st)
      | Inr rn \<Rightarrow>
      (case run_no_to_db (app_run_no ja) of
        Inl x \<Rightarrow> (Inl x, st)
      | Inr entry_rn \<Rightarrow>
          let repends = notifies_on_repend stl;
              (affected, jobs') = sql_update (owned_row jid by rn) (settle_row stl) (jobs_tbl st);
              st1 = st\<lparr>jobs_tbl := jobs'\<rparr>;
              st2 = (if 0 < affected then insert_journal jid entry_rn ja st1 else st1);
              st3 = (if 0 < affected \<and> repends then notify st2 else st2)
          in transact e st (Inr (0 < affected), st3)))"

definition recover_row :: "datetime \<Rightarrow> i32 \<Rightarrow> job_row \<Rightarrow> job_row" where
  "recover_row vis failures r =
     r\<lparr>r_status := ''pending'', r_visible_at := vis, r_failure_count := failures,
       r_claimed_by := None, r_claim_expires_at := None\<rparr>"

definition expired_row :: "datetime \<Rightarrow> job_row \<Rightarrow> bool" where
  "expired_row now r \<longleftrightarrow>
     r_status r = ''claimed'' \<and> (case r_claim_expires_at r of None \<Rightarrow> False | Some t \<Rightarrow> t < now)"

definition pg_recover ::
  "ulid_codec \<Rightarrow> call_env \<Rightarrow> ulid \<Rightarrow> datetime \<Rightarrow> i32 \<Rightarrow> u32 \<Rightarrow> journal_append \<Rightarrow> pg_state
    \<Rightarrow> bool res \<times> pg_state" where
  "pg_recover c e i vis failures run_no ja st =
     (let jid = to_string c i in
      case run_no_to_db run_no of
        Inl x \<Rightarrow> (Inl x, st)
      | Inr rn \<Rightarrow>
      (case run_no_to_db (app_run_no ja) of
        Inl x \<Rightarrow> (Inl x, st)
      | Inr entry_rn \<Rightarrow>
          let (affected, jobs') =
                sql_update (\<lambda>r. r_id r = jid \<and> expired_row (env_now e) r \<and> r_run_count r = rn)
                  (recover_row vis failures) (jobs_tbl st);
              st1 = st\<lparr>jobs_tbl := jobs'\<rparr>;
              st2 = (if 0 < affected then insert_journal jid entry_rn ja st1 else st1);
              st3 = (if 0 < affected then notify st2 else st2)
          in transact e st (Inr (0 < affected), st3)))"

definition pg_extend_lease ::
  "ulid_codec \<Rightarrow> call_env \<Rightarrow> ulid \<Rightarrow> string \<Rightarrow> u32 \<Rightarrow> duration \<Rightarrow> pg_state \<Rightarrow> bool res \<times> pg_state" where
  "pg_extend_lease c e i by run_no lease st =
     (case run_no_to_db run_no of
        Inl x \<Rightarrow> (Inl x, st)
      | Inr rn \<Rightarrow>
          let (affected, jobs') =
                sql_update (owned_row (to_string c i) by rn)
                  (\<lambda>r. r\<lparr>r_claim_expires_at := Some (env_now e + int lease)\<rparr>) (jobs_tbl st)
          in transact e st (Inr (0 < affected), st\<lparr>jobs_tbl := jobs'\<rparr>))"

definition merge_row :: "merge_payload option \<Rightarrow> job_row \<Rightarrow> job_row" where
  "merge_row update r =
     (case update of
        Some mp \<Rightarrow> r\<lparr>r_payload := mp_payload mp, r_carry := mp_carry mp, r_priority := mp_priority mp\<rparr>
      | None \<Rightarrow> r\<lparr>r_dedup_key := r_dedup_key r\<rparr>)"

text \<open>A tier outside the three violates the column's \<^verbatim>\<open>CHECK\<close> if a row is to be written.\<close>

definition priority_check :: "merge_payload option \<Rightarrow> bool" where
  "priority_check update =
     (case update of None \<Rightarrow> True | Some mp \<Rightarrow> mp_priority mp \<in> {0, 1, 2})"

definition pg_merge_into ::
  "ulid_codec \<Rightarrow> call_env \<Rightarrow> ulid \<Rightarrow> merge_payload option \<Rightarrow> journal_append \<Rightarrow> pg_state
    \<Rightarrow> bool res \<times> pg_state" where
  "pg_merge_into c e i update ja st =
     (let jid = to_string c i in
      case run_no_to_db (app_run_no ja) of
        Inl x \<Rightarrow> (Inl x, st)
      | Inr entry_rn \<Rightarrow>
          let (affected, jobs') =
                sql_update (\<lambda>r. r_id r = jid \<and> r_status r = ''pending'') (merge_row update)
                  (jobs_tbl st);
              st1 = st\<lparr>jobs_tbl := jobs'\<rparr>;
              st2 = (if 0 < affected then insert_journal jid entry_rn ja st1 else st1)
          in transact e st
               (if 0 < affected \<and> \<not> priority_check update then (Inl check_violation, st)
                else (Inr (0 < affected), st2)))"

definition cleanup_clauses :: "cleanup_criteria \<Rightarrow> (job_row \<Rightarrow> bool) list" where
  "cleanup_clauses cc =
     [\<lambda>r. r_finished_at r \<noteq> None,
      \<lambda>r. case r_finished_at r of None \<Rightarrow> False | Some t \<Rightarrow> t < cc_finished_before cc] @
     (case cc_kind cc of None \<Rightarrow> [] | Some k \<Rightarrow> [\<lambda>r. r_kind r = k]) @
     (case cc_status cc of None \<Rightarrow> [] | Some s \<Rightarrow> [\<lambda>r. r_status r = status_as_str s])"

text \<open>The foreign key of the journal cascades the deletion.\<close>

definition pg_cleanup :: "call_env \<Rightarrow> cleanup_criteria \<Rightarrow> pg_state \<Rightarrow> nat res \<times> pg_state" where
  "pg_cleanup e cc st =
     (let swept = (\<lambda>r. \<forall>p \<in> set (cleanup_clauses cc). p r);
          deleted = filter swept (jobs_tbl st)
      in transact e st
           (Inr (length deleted),
            st\<lparr>jobs_tbl := filter (\<lambda>r. \<not> swept r) (jobs_tbl st),
               journal_tbl := filter (\<lambda>x. jr_job_id x \<notin> r_id ` set deleted) (journal_tbl st)\<rparr>))"

section \<open>Reading operations\<close>

definition pg_journal :: "ulid_codec \<Rightarrow> call_env \<Rightarrow> ulid \<Rightarrow> pg_state \<Rightarrow> journal_record list res" where
  "pg_journal c e i st =
     bind_ok
       (fetch e (Inr (sort_key jr_id (filter (\<lambda>x. jr_job_id x = to_string c i) (journal_tbl st)))))
       (collect_results (journal_from_row c))"

definition pg_next_visible_at :: "call_env \<Rightarrow> string list \<Rightarrow> pg_state \<Rightarrow> datetime option res" where
  "pg_next_visible_at e kinds st =
     (let ts = map r_visible_at
                 (filter (\<lambda>r. r_status r = ''pending'' \<and> r_kind r \<in> set kinds \<and> env_now e < r_visible_at r)
                    (jobs_tbl st))
      in fetch e (Inr (if ts = [] then None else Some (Min (set ts)))))"

definition pg_find_stale :: "ulid_codec \<Rightarrow> call_env \<Rightarrow> pg_state \<Rightarrow> job_record list res" where
  "pg_find_stale c e st =
     bind_ok
       (fetch e (Inr (take 100
          (sort_key (\<lambda>r. (the (r_claim_expires_at r), env_plan e (r_id r)))
             (filter (expired_row (env_now e)) (jobs_tbl st))))))
       (collect_results (job_from_row c))"

definition history_clauses :: "ulid_codec \<Rightarrow> history_filter \<Rightarrow> (job_row \<Rightarrow> bool) list" where
  "history_clauses c hf =
     (case hf_kind hf of None \<Rightarrow> [] | Some k \<Rightarrow> [\<lambda>r. r_kind r = k]) @
     (case hf_status hf of None \<Rightarrow> [] | Some s \<Rightarrow> [\<lambda>r. r_status r = status_as_str s]) @
     (case hf_finished_since hf of
        None \<Rightarrow> []
      | Some since \<Rightarrow> [\<lambda>r. case r_finished_at r of None \<Rightarrow> False | Some t \<Rightarrow> since \<le> t]) @
     (case hf_finished_until hf of
        None \<Rightarrow> []
      | Some until \<Rightarrow> [\<lambda>r. case r_finished_at r of None \<Rightarrow> False | Some t \<Rightarrow> t < until]) @
     (case hf_created_before hf of
        None \<Rightarrow> []
      | Some (ts, u) \<Rightarrow> [\<lambda>r. (r_created_at r, r_id r) < (ts, to_string c u)])"

definition history_page :: "ulid_codec \<Rightarrow> history_filter \<Rightarrow> pg_state \<Rightarrow> job_row list" where
  "history_page c hf st =
     (let rows = rev (sort_key (\<lambda>r. (r_created_at r, r_id r))
                   (filter (\<lambda>r. \<forall>p \<in> set (history_clauses c hf). p r) (jobs_tbl st)))
      in case hf_limit hf of None \<Rightarrow> rows | Some n \<Rightarrow> take (nat n) rows)"

definition pg_query_jobs ::
  "ulid_codec \<Rightarrow> call_env \<Rightarrow> history_filter \<Rightarrow> pg_state \<Rightarrow> job_record list res" where
  "pg_query_jobs c e hf st =
     bind_ok
       (fetch e
          (case hf_limit hf of
             Some n \<Rightarrow> if n < 0 then Inl negative_limit else Inr (history_page c hf st)
           | None \<Rightarrow> Inr (history_page c hf st)))
       (collect_results (job_from_row c))"

text \<open>\<^verbatim>\<open>row.as_ref().map(job_from_row).transpose()\<close>\<close>

definition transpose_row :: "ulid_codec \<Rightarrow> job_row option \<Rightarrow> job_record option res" where
  "transpose_row c r =
     (case r of None \<Rightarrow> Inr None | Some row \<Rightarrow> bind_ok (job_from_row c row) (\<lambda>j. Inr (Some j)))"

definition pg_job :: "ulid_codec \<Rightarrow> call_env \<Rightarrow> ulid \<Rightarrow> pg_state \<Rightarrow> job_record option res" where
  "pg_job c e i st =
     bind_ok (fetch e (Inr (find (\<lambda>r. r_id r = to_string c i) (jobs_tbl st)))) (transpose_row c)"

definition first_row :: "'r list \<Rightarrow> 'r option" where
  "first_row rows = (case rows of [] \<Rightarrow> None | r # _ \<Rightarrow> Some r)"

definition pg_dedup_candidate ::
  "ulid_codec \<Rightarrow> call_env \<Rightarrow> string \<Rightarrow> string \<Rightarrow> pg_state \<Rightarrow> job_record option res" where
  "pg_dedup_candidate c e kind key st =
     bind_ok
       (fetch e (Inr (first_row
          (sort_key (\<lambda>r. (r_created_at r, env_plan e (r_id r)))
             (filter (\<lambda>r. r_kind r = kind \<and> r_dedup_key r = Some key \<and> r_status r = ''pending'')
                (jobs_tbl st))))))
       (transpose_row c)"

text \<open>
  \<^verbatim>\<open>stats\<close> runs three separate statements, each of which sees the tables as they are when it
  starts: it takes the three states, and the client's clock for the ages.
\<close>

definition rows_in :: "string \<Rightarrow> string \<Rightarrow> pg_state \<Rightarrow> job_row list" where
  "rows_in status kind st = filter (\<lambda>r. r_status r = status \<and> r_kind r = kind) (jobs_tbl st)"

definition count_by_kind :: "string \<Rightarrow> pg_state \<Rightarrow> string \<rightharpoonup> nat" where
  "count_by_kind status st =
     (\<lambda>k. let rows = rows_in status k st in if rows = [] then None else Some (length rows))"

definition pg_stats ::
  "call_env \<Rightarrow> datetime \<Rightarrow> pg_state \<Rightarrow> pg_state \<Rightarrow> pg_state \<Rightarrow> snapshot res" where
  "pg_stats e now st1 st2 st3 =
     fetch e (Inr
       \<lparr>snap_pending_by_kind = count_by_kind ''pending'' st1,
        snap_oldest_pending_age =
          (\<lambda>k. let rows = rows_in ''pending'' k st1
               in if rows = [] then None
                  else Some (nat (now - Min (r_created_at ` set rows)))),
        snap_claimed = length (filter (\<lambda>r. r_status r = ''claimed'') (jobs_tbl st2)),
        snap_dead_by_kind = count_by_kind ''dead'' st3\<rparr>)"

definition pg_ops :: "ulid_codec \<Rightarrow> pg_state store_ops" where
  "pg_ops c =
     \<lparr>so_enqueue = pg_enqueue c, so_claim_next = pg_claim_next c, so_settle = pg_settle c,
      so_journal = pg_journal c, so_next_visible_at = pg_next_visible_at,
      so_dedup_candidate = pg_dedup_candidate c, so_find_stale = pg_find_stale c,
      so_recover = pg_recover c, so_extend_lease = pg_extend_lease c,
      so_query_jobs = pg_query_jobs c, so_job = pg_job c, so_cleanup = pg_cleanup,
      so_merge_into = pg_merge_into c, so_stats = pg_stats\<rparr>"

section \<open>Prefix validation and the advisory-lock key\<close>

definition LONGEST_SUFFIX_LEN :: nat where
  "LONGEST_SUFFIX_LEN = length ''_refinery_schema_history''"

definition is_ascii_lowercase :: "char \<Rightarrow> bool" where
  "is_ascii_lowercase ch \<longleftrightarrow> CHR ''a'' \<le> ch \<and> ch \<le> CHR ''z''"

definition is_ascii_digit :: "char \<Rightarrow> bool" where
  "is_ascii_digit ch \<longleftrightarrow> CHR ''0'' \<le> ch \<and> ch \<le> CHR ''9''"

definition validate_prefix :: "string \<Rightarrow> unit res" where
  "validate_prefix prefix =
     (if prefix = [] then Inl (Config PrefixEmpty)
      else if length prefix > 63 - LONGEST_SUFFIX_LEN
        then Inl (Config (PrefixTooLong prefix (length prefix)))
      else if \<not> is_ascii_lowercase (hd prefix) then Inl (Config (PrefixBadStart prefix))
      else
        (case find (\<lambda>ch. \<not> (is_ascii_lowercase ch \<or> is_ascii_digit ch \<or> ch = CHR ''_'')) prefix of
           Some bad \<Rightarrow> Inl (Config (PrefixBadCharacter prefix bad))
         | None \<Rightarrow> Inr ()))"

definition channel :: "string \<Rightarrow> string" where
  "channel prefix = prefix @ ''_jobs''"

text \<open>FNV-1a over the bytes of the prefix; the result's bits are read as a signed integer.\<close>

definition advisory_lock_id :: "string \<Rightarrow> u64" where
  "advisory_lock_id prefix =
     fold (\<lambda>ch hash. (hash XOR of_char ch) * 0x00000100000001b3) prefix 0xcbf29ce484222325"

end
