(* ===== verification/Notifications.thy ===== *)
theory Notifications
  imports Postgres_Store
begin

text \<open>
  Push wakeups (\<^verbatim>\<open>src/postgres/notify.rs\<close>, the \<^verbatim>\<open>Notifier\<close> trait of \<^verbatim>\<open>src/store.rs\<close> and the notifier
  setup of \<^verbatim>\<open>Worker::run\<close>): the capacity-one channel between the task that drives the \<^verbatim>\<open>LISTEN\<close>
  connection and the worker, the reconnect after a drop, and the notifier that never fires. What
  the driver does (connecting, executing the \<^verbatim>\<open>LISTEN\<close>, the messages it yields) is a parameter of
  each call, and the channel of \<^verbatim>\<open>tokio\<close> a record of operations with its documented laws. The step relation at the end puts the notifier between a server that queues one
  message per committed notification on a listening connection, and a worker that re-queries the
  store whenever \<^verbatim>\<open>recv\<close> returns.
\<close>

section \<open>The bounded channel\<close>

text \<open>
  What \<^verbatim>\<open>tokio::sync::mpsc\<close> offers for unit values. A send is accepted, refused by a full buffer, or
  refused because the receiver is gone; a receive yields a value, yields nothing once the sender is
  gone, or keeps waiting. \<open>mp_len\<close>, \<open>mp_max_capacity\<close>, \<open>mp_tx_open\<close> and \<open>mp_rx_open\<close> are what its
  accessors report.
\<close>

datatype send_result = Sent | Full | Closed

datatype recv_result = Received | Disconnected | Blocked

record 'ch mpsc =
  mp_channel :: "nat \<Rightarrow> 'ch"
  mp_try_send :: "'ch \<Rightarrow> send_result \<times> 'ch"
  mp_recv :: "'ch \<Rightarrow> recv_result \<times> 'ch"
  mp_drop_tx :: "'ch \<Rightarrow> 'ch"
  mp_len :: "'ch \<Rightarrow> nat"
  mp_max_capacity :: "'ch \<Rightarrow> nat"
  mp_tx_open :: "'ch \<Rightarrow> bool"
  mp_rx_open :: "'ch \<Rightarrow> bool"

text \<open>Nothing but the number of buffered values differs.\<close>

definition same_ends :: "'ch mpsc \<Rightarrow> 'ch \<Rightarrow> 'ch \<Rightarrow> bool" where
  "same_ends M ch ch' \<longleftrightarrow>
     mp_max_capacity M ch' = mp_max_capacity M ch \<and> mp_tx_open M ch' = mp_tx_open M ch \<and>
     mp_rx_open M ch' = mp_rx_open M ch"

text \<open>What the crate documents of a bounded channel.\<close>

definition mpsc_ok :: "'ch mpsc \<Rightarrow> bool" where
  "mpsc_ok M \<longleftrightarrow>
     (\<forall>n > 0. mp_len M (mp_channel M n) = 0 \<and> mp_max_capacity M (mp_channel M n) = n \<and>
        mp_tx_open M (mp_channel M n) \<and> mp_rx_open M (mp_channel M n)) \<and>
     (\<forall>ch. case mp_try_send M ch of
        (Closed, ch') \<Rightarrow> \<not> mp_rx_open M ch \<and> ch' = ch
      | (Full, ch') \<Rightarrow> mp_rx_open M ch \<and> mp_max_capacity M ch \<le> mp_len M ch \<and> ch' = ch
      | (Sent, ch') \<Rightarrow> mp_rx_open M ch \<and> mp_len M ch < mp_max_capacity M ch \<and>
          mp_len M ch' = mp_len M ch + 1 \<and> same_ends M ch ch') \<and>
     (\<forall>ch. case mp_recv M ch of
        (Received, ch') \<Rightarrow> 0 < mp_len M ch \<and> mp_len M ch' = mp_len M ch - 1 \<and> same_ends M ch ch'
      | (Blocked, ch') \<Rightarrow> mp_len M ch = 0 \<and> mp_tx_open M ch \<and> ch' = ch
      | (Disconnected, ch') \<Rightarrow> mp_len M ch = 0 \<and> \<not> mp_tx_open M ch \<and> ch' = ch) \<and>
     (\<forall>ch. \<not> mp_tx_open M (mp_drop_tx M ch) \<and> mp_len M (mp_drop_tx M ch) = mp_len M ch \<and>
        mp_max_capacity M (mp_drop_tx M ch) = mp_max_capacity M ch \<and> mp_rx_open M (mp_drop_tx M ch) = mp_rx_open M ch)"

section \<open>The connection task\<close>

text \<open>What \<^verbatim>\<open>poll_message\<close> yields: a message, a driver error, or the end of the stream.\<close>

datatype async_message = Notification | Other_message

type_synonym polled = "(string + async_message) option"

text \<open>One round of the task's loop: whether it goes on, and the channel. Ending drops the sender.\<close>

fun forward_message :: "'ch mpsc \<Rightarrow> polled \<Rightarrow> 'ch \<Rightarrow> bool \<times> 'ch" where
  "forward_message M (Some (Inr Notification)) ch =
     (case mp_try_send M ch of
        (Sent, ch') \<Rightarrow> (True, ch')
      | (Full, ch') \<Rightarrow> (True, ch')
      | (Closed, ch') \<Rightarrow> (False, ch'))"
| "forward_message M (Some (Inr Other_message)) ch = (True, ch)"
| "forward_message M (Some (Inl _)) ch = (False, ch)"
| "forward_message M None ch = (False, ch)"

fun connection_task :: "'ch mpsc \<Rightarrow> polled list \<Rightarrow> 'ch \<Rightarrow> 'ch" where
  "connection_task M [] ch = ch"
| "connection_task M (m # ms) ch =
     (case forward_message M m ch of
        (True, ch') \<Rightarrow> connection_task M ms ch'
      | (False, ch') \<Rightarrow> mp_drop_tx M ch')"

section \<open>The notifier\<close>

type_synonym client = nat

text \<open>The driver during one connection attempt: the client it opens for a configuration and a TLS
  connector, the answer to a statement, and the messages the connection task polls before the
  attempt returns.\<close>

record ('f, 't) listen_env =
  le_connect :: "'f \<Rightarrow> 't \<Rightarrow> client res"
  le_execute :: "client \<Rightarrow> string \<Rightarrow> unit res"
  le_polled :: "polled list"

definition listen :: "'ch mpsc \<Rightarrow> ('f, 't) listen_env \<Rightarrow> 'f \<Rightarrow> 't \<Rightarrow> string \<Rightarrow> (client \<times> 'ch) res" where
  "listen M le config tls chan =
     bind_ok (le_connect le config tls) (\<lambda>client.
     let ch = connection_task M (le_polled le) (mp_channel M 1) in
     bind_ok (le_execute le client (''LISTEN '' @ chan)) (\<lambda>_. Inr (client, ch)))"

type_synonym ('f, 't, 'ch) listen_factory = "('f, 't) listen_env \<Rightarrow> string \<Rightarrow> (client \<times> 'ch) res"

definition make_listen_factory :: "'ch mpsc \<Rightarrow> 'f \<Rightarrow> 't \<Rightarrow> ('f, 't, 'ch) listen_factory" where
  "make_listen_factory M config tls = (\<lambda>le chan. listen M le config tls chan)"

record ('f, 't, 'ch) pg_notifier =
  nt_factory :: "('f, 't, 'ch) listen_factory"
  nt_channel :: string
  nt_client :: client
  nt_wakeups :: 'ch

definition notifier_connect ::
  "('f, 't, 'ch) listen_factory \<Rightarrow> string \<Rightarrow> ('f, 't) listen_env \<Rightarrow> ('f, 't, 'ch) pg_notifier res" where
  "notifier_connect factory chan le =
     bind_ok (factory le chan) (\<lambda>(client, wakeups).
       Inr \<lparr>nt_factory = factory, nt_channel = chan, nt_client = client, nt_wakeups = wakeups\<rparr>)"

text \<open>A failed attempt leaves the notifier as it is, after a pause of a second.\<close>

definition reconnect :: "('f, 't) listen_env \<Rightarrow> ('f, 't, 'ch) pg_notifier \<Rightarrow> ('f, 't, 'ch) pg_notifier" where
  "reconnect le n =
     (case nt_factory n le (nt_channel n) of
        Inr (client, wakeups) \<Rightarrow> n\<lparr>nt_client := client, nt_wakeups := wakeups\<rparr>
      | Inl _ \<Rightarrow> n)"

text \<open>\<open>None\<close>: the call is still waiting.\<close>

definition notifier_recv ::
  "'ch mpsc \<Rightarrow> ('f, 't) listen_env \<Rightarrow> ('f, 't, 'ch) pg_notifier \<Rightarrow> ('f, 't, 'ch) pg_notifier option" where
  "notifier_recv M le n =
     (case mp_recv M (nt_wakeups n) of
        (Received, ch) \<Rightarrow> Some (n\<lparr>nt_wakeups := ch\<rparr>)
      | (Disconnected, ch) \<Rightarrow> Some (reconnect le (n\<lparr>nt_wakeups := ch\<rparr>))
      | (Blocked, _) \<Rightarrow> None)"

definition never_recv :: "'n \<Rightarrow> 'n option" where
  "never_recv n = None"

text \<open>\<^verbatim>\<open>PostgresStore::notifier\<close>, and what the worker makes of it: polling only if it fails.\<close>

definition pg_notifier_open ::
  "('f, 't, 'ch) listen_factory \<Rightarrow> string \<Rightarrow> ('f, 't) listen_env \<Rightarrow> ('f, 't, 'ch) pg_notifier res" where
  "pg_notifier_open factory prefix le = notifier_connect factory (channel prefix) le"

datatype ('f, 't, 'ch) wakeup_source = Listening "('f, 't, 'ch) pg_notifier" | Never_notifier

definition setup_notifier ::
  "('f, 't, 'ch) listen_factory \<Rightarrow> string \<Rightarrow> ('f, 't) listen_env \<Rightarrow> ('f, 't, 'ch) wakeup_source" where
  "setup_notifier factory prefix le =
     (case pg_notifier_open factory prefix le of Inr n \<Rightarrow> Listening n | Inl _ \<Rightarrow> Never_notifier)"

fun source_recv ::
  "'ch mpsc \<Rightarrow> ('f, 't) listen_env \<Rightarrow> ('f, 't, 'ch) wakeup_source \<Rightarrow> ('f, 't, 'ch) wakeup_source option" where
  "source_recv M le (Listening n) = map_option Listening (notifier_recv M le n)"
| "source_recv M le Never_notifier = never_recv Never_notifier"

section \<open>Wakeups between server and worker\<close>

text \<open>
  The store with the number of notifications committed so far, the number the worker had been
  woken for when its last \<^verbatim>\<open>recv\<close> returned, and the messages on their way on the connection. A dropped
  connection loses its messages.
\<close>

record ('f, 't, 'ch) wake_state =
  ws_store :: pg_state
  ws_seen :: nat
  ws_queued :: nat
  ws_notifier :: "('f, 't, 'ch) pg_notifier"

definition live :: "'ch mpsc \<Rightarrow> ('f, 't, 'ch) pg_notifier \<Rightarrow> bool" where
  "live M n \<longleftrightarrow> mp_tx_open M (nt_wakeups n)"

definition poll :: "'ch mpsc \<Rightarrow> polled \<Rightarrow> ('f, 't, 'ch) pg_notifier \<Rightarrow> ('f, 't, 'ch) pg_notifier" where
  "poll M m n = n\<lparr>nt_wakeups := connection_task M [m] (nt_wakeups n)\<rparr>"

inductive wake_step ::
  "'ch mpsc \<Rightarrow> ('f, 't, 'ch) wake_state \<Rightarrow> ('f, 't, 'ch) wake_state \<Rightarrow> bool" for M where
  wake_commit:
    "notified (ws_store w) \<le> notified s' \<Longrightarrow>
      q = ws_queued w + (if live M (ws_notifier w) then notified s' - notified (ws_store w) else 0) \<Longrightarrow>
      wake_step M w (w\<lparr>ws_store := s', ws_queued := q\<rparr>)"
| wake_deliver:
    "live M (ws_notifier w) \<Longrightarrow> 0 < ws_queued w \<Longrightarrow>
      wake_step M w (w\<lparr>ws_queued := ws_queued w - 1,
                     ws_notifier := poll M (Some (Inr Notification)) (ws_notifier w)\<rparr>)"
| wake_other:
    "live M (ws_notifier w) \<Longrightarrow>
      wake_step M w (w\<lparr>ws_notifier := poll M (Some (Inr Other_message)) (ws_notifier w)\<rparr>)"
| wake_drop:
    "live M (ws_notifier w) \<Longrightarrow> m = None \<or> m = Some (Inl x) \<Longrightarrow>
      wake_step M w (w\<lparr>ws_queued := 0, ws_notifier := poll M m (ws_notifier w)\<rparr>)"
| wake_recv:
    "notifier_recv M le (ws_notifier w) = Some n \<Longrightarrow>
      (live M (ws_notifier w) \<longrightarrow> q = ws_queued w) \<Longrightarrow>
      wake_step M w (w\<lparr>ws_seen := notified (ws_store w), ws_queued := q, ws_notifier := n\<rparr>)"

inductive wake_reachable ::
  "'ch mpsc \<Rightarrow> 'f \<Rightarrow> 't \<Rightarrow> string \<Rightarrow> ('f, 't, 'ch) wake_state \<Rightarrow> bool" for M config tls prefix where
  wake_start:
    "pg_notifier_open (make_listen_factory M config tls) prefix le = Inr n \<Longrightarrow>
      wake_reachable M config tls prefix \<lparr>ws_store = s, ws_seen = notified s, ws_queued = q, ws_notifier = n\<rparr>"
| wake_next:
    "wake_reachable M config tls prefix w \<Longrightarrow> wake_step M w w' \<Longrightarrow> wake_reachable M config tls prefix w'"

section \<open>The invariant\<close>

lemma mpsc_laws:
  assumes "mpsc_ok M"
  shows "mp_len M (mp_channel M 1) = 0" "mp_max_capacity M (mp_channel M 1) = 1" "mp_tx_open M (mp_channel M 1)"
    "mp_rx_open M (mp_channel M 1)" "\<not> mp_tx_open M (mp_drop_tx M ch)" "mp_len M (mp_drop_tx M ch) = mp_len M ch"
    "mp_max_capacity M (mp_drop_tx M ch) = mp_max_capacity M ch" "mp_rx_open M (mp_drop_tx M ch) = mp_rx_open M ch"
  using assms by (simp_all add: mpsc_ok_def)

lemma try_send_cases:
  assumes "mpsc_ok M"
  obtains (Sent) ch' where "mp_try_send M ch = (Sent, ch')" "mp_rx_open M ch" "mp_len M ch < mp_max_capacity M ch"
      "mp_len M ch' = mp_len M ch + 1" "same_ends M ch ch'"
    | (Full) "mp_try_send M ch = (Full, ch)" "mp_rx_open M ch" "mp_max_capacity M ch \<le> mp_len M ch"
    | (Closed) "mp_try_send M ch = (Closed, ch)" "\<not> mp_rx_open M ch"
proof -
  obtain r ch' where r: "mp_try_send M ch = (r, ch')" by fastforce
  have "case mp_try_send M ch of
      (Closed, ch') \<Rightarrow> \<not> mp_rx_open M ch \<and> ch' = ch
    | (Full, ch') \<Rightarrow> mp_rx_open M ch \<and> mp_max_capacity M ch \<le> mp_len M ch \<and> ch' = ch
    | (Sent, ch') \<Rightarrow> mp_rx_open M ch \<and> mp_len M ch < mp_max_capacity M ch \<and>
        mp_len M ch' = mp_len M ch + 1 \<and> same_ends M ch ch'"
    using assms by (simp add: mpsc_ok_def)
  then show thesis using that r by (cases r) simp_all
qed

lemma mp_recv_cases:
  assumes "mpsc_ok M"
  obtains (Received) ch' where "mp_recv M ch = (Received, ch')" "0 < mp_len M ch" "mp_len M ch' = mp_len M ch - 1"
      "same_ends M ch ch'"
    | (Blocked) "mp_recv M ch = (Blocked, ch)" "mp_len M ch = 0" "mp_tx_open M ch"
    | (Disconnected) "mp_recv M ch = (Disconnected, ch)" "mp_len M ch = 0" "\<not> mp_tx_open M ch"
proof -
  obtain r ch' where r: "mp_recv M ch = (r, ch')" by fastforce
  have "case mp_recv M ch of
      (Received, ch') \<Rightarrow> 0 < mp_len M ch \<and> mp_len M ch' = mp_len M ch - 1 \<and> same_ends M ch ch'
    | (Blocked, ch') \<Rightarrow> mp_len M ch = 0 \<and> mp_tx_open M ch \<and> ch' = ch
    | (Disconnected, ch') \<Rightarrow> mp_len M ch = 0 \<and> \<not> mp_tx_open M ch \<and> ch' = ch"
    using assms by (simp add: mpsc_ok_def)
  then show thesis using that r by (cases r) simp_all
qed

text \<open>The worker holds the receiving end, and the channel never holds more than one wakeup.\<close>

definition chan_ok :: "'ch mpsc \<Rightarrow> 'ch \<Rightarrow> bool" where
  "chan_ok M ch \<longleftrightarrow> mp_max_capacity M ch = 1 \<and> mp_rx_open M ch \<and> mp_len M ch \<le> 1"

lemma forward_ok:
  assumes "mpsc_ok M" "chan_ok M ch"
  shows "chan_ok M (snd (forward_message M m ch))"
    and "fst (forward_message M m ch) \<longleftrightarrow> (\<exists>x. m = Some (Inr x))"
    and "mp_len M (snd (forward_message M m ch)) = (if m = Some (Inr Notification) then 1 else mp_len M ch)"
    and "mp_tx_open M (snd (forward_message M m ch)) = mp_tx_open M ch"
proof -
  have "chan_ok M (snd (forward_message M m ch)) \<and> (fst (forward_message M m ch) \<longleftrightarrow> (\<exists>x. m = Some (Inr x))) \<and>
      mp_len M (snd (forward_message M m ch)) = (if m = Some (Inr Notification) then 1 else mp_len M ch) \<and>
      mp_tx_open M (snd (forward_message M m ch)) = mp_tx_open M ch"
  proof (cases "m = Some (Inr Notification)")
    case True
    show ?thesis
      using assms(2) by (rule_tac ch = ch in try_send_cases [OF assms(1)]) (auto simp: True chan_ok_def same_ends_def)
  next
    case False
    with assms(2) show ?thesis by (induction M m ch rule: forward_message.induct) auto
  qed
  then show "chan_ok M (snd (forward_message M m ch))" "fst (forward_message M m ch) \<longleftrightarrow> (\<exists>x. m = Some (Inr x))"
    "mp_len M (snd (forward_message M m ch)) = (if m = Some (Inr Notification) then 1 else mp_len M ch)"
    "mp_tx_open M (snd (forward_message M m ch)) = mp_tx_open M ch" by blast+
qed

lemma task_ok:
  assumes "mpsc_ok M" "chan_ok M ch"
  shows "chan_ok M (connection_task M ms ch)"
  using assms(2)
proof (induction ms arbitrary: ch)
  case (Cons m ms)
  obtain go ch' where fw: "forward_message M m ch = (go, ch')" by fastforce
  with forward_ok(1) [OF assms(1) Cons(2), of m] have "chan_ok M ch'" by simp
  with Cons(1) fw show ?case by (cases go) (simp_all add: chan_ok_def mpsc_laws [OF assms(1)])
qed simp

lemma listen_ok:
  assumes "mpsc_ok M" "listen M le config tls chan = Inr (client, ch)"
  shows "chan_ok M ch"
proof -
  have "chan_ok M (mp_channel M 1)"
    using mpsc_laws(1,2,4) [OF assms(1)] by (simp add: chan_ok_def)
  from task_ok [OF assms(1) this] assms(2) show ?thesis by (auto simp: listen_def Let_def bind_ok_eq_Inr)
qed

definition notifier_ok :: "'ch mpsc \<Rightarrow> 'f \<Rightarrow> 't \<Rightarrow> string \<Rightarrow> ('f, 't, 'ch) pg_notifier \<Rightarrow> bool" where
  "notifier_ok M config tls prefix n \<longleftrightarrow>
     nt_factory n = make_listen_factory M config tls \<and> nt_channel n = channel prefix \<and> chan_ok M (nt_wakeups n)"

lemma reconnect_ok:
  "mpsc_ok M \<Longrightarrow> notifier_ok M config tls prefix n \<Longrightarrow> notifier_ok M config tls prefix (reconnect le n)"
  by (auto simp: notifier_ok_def reconnect_def make_listen_factory_def dest: listen_ok split: sum.split)

lemma recv_ok:
  assumes "mpsc_ok M" "notifier_ok M config tls prefix n" "notifier_recv M le n = Some n'"
  shows "notifier_ok M config tls prefix n'"
proof (rule mp_recv_cases [OF assms(1), of "nt_wakeups n"])
  assume "mp_recv M (nt_wakeups n) = (Disconnected, nt_wakeups n)"
  with assms show ?thesis by (auto simp: notifier_recv_def reconnect_ok)
qed (use assms(2,3) in \<open>auto simp: notifier_recv_def notifier_ok_def chan_ok_def same_ends_def\<close>)

lemma open_ok:
  "mpsc_ok M \<Longrightarrow> pg_notifier_open (make_listen_factory M config tls) prefix le = Inr n \<Longrightarrow>
    notifier_ok M config tls prefix n"
  by (auto simp: pg_notifier_open_def notifier_connect_def notifier_ok_def make_listen_factory_def bind_ok_def
      dest: listen_ok split: sum.splits)

lemma poll_sel:
  assumes "mpsc_ok M" "notifier_ok M config tls prefix n"
  shows "notifier_ok M config tls prefix (poll M m n)"
    and "live M (poll M m n) \<longleftrightarrow> live M n \<and> (\<exists>x. m = Some (Inr x))"
    and "mp_len M (nt_wakeups (poll M m n)) = (if m = Some (Inr Notification) then 1 else mp_len M (nt_wakeups n))"
proof -
  have ok: "chan_ok M (nt_wakeups n)" using assms(2) by (simp add: notifier_ok_def)
  obtain go ch where fw: "forward_message M m (nt_wakeups n) = (go, ch)" by fastforce
  have ch: "nt_wakeups (poll M m n) = (if go then ch else mp_drop_tx M ch)" by (simp add: poll_def fw)
  show "notifier_ok M config tls prefix (poll M m n)"
    using assms task_ok [OF assms(1) ok, of "[m]"] by (simp add: notifier_ok_def poll_def)
  show "live M (poll M m n) \<longleftrightarrow> live M n \<and> (\<exists>x. m = Some (Inr x))"
    using forward_ok(2,4) [OF assms(1) ok, of m] by (simp add: live_def ch fw mpsc_laws [OF assms(1)])
  show "mp_len M (nt_wakeups (poll M m n)) = (if m = Some (Inr Notification) then 1 else mp_len M (nt_wakeups n))"
    using forward_ok(3) [OF assms(1) ok, of m] by (simp add: ch fw mpsc_laws [OF assms(1)])
qed

lemma recv_blocks:
  assumes "mpsc_ok M"
  shows "notifier_recv M le n = None \<longleftrightarrow> mp_len M (nt_wakeups n) = 0 \<and> live M n"
  by (rule mp_recv_cases [OF assms, of "nt_wakeups n"]) (auto simp: notifier_recv_def live_def)

text \<open>
  An unseen notification is still on its way on a live connection, buffered for the worker, or was
  overtaken by a drop the worker will be told of.
\<close>

definition wake_inv :: "'ch mpsc \<Rightarrow> 'f \<Rightarrow> 't \<Rightarrow> string \<Rightarrow> ('f, 't, 'ch) wake_state \<Rightarrow> bool" where
  "wake_inv M config tls prefix w \<longleftrightarrow>
     notifier_ok M config tls prefix (ws_notifier w) \<and> ws_seen w \<le> notified (ws_store w) \<and>
     (live M (ws_notifier w) \<longrightarrow> mp_len M (nt_wakeups (ws_notifier w)) = 0 \<longrightarrow>
       notified (ws_store w) \<le> ws_seen w + ws_queued w)"

lemma wake_step_inv:
  assumes "wake_step M w w'" "mpsc_ok M" "wake_inv M config tls prefix w"
  shows "wake_inv M config tls prefix w'"
  using assms
proof (induction rule: wake_step.induct)
  case (wake_recv le w n q)
  then show ?case using recv_ok [of M config tls prefix "ws_notifier w" le n] by (simp add: wake_inv_def)
qed (auto simp: wake_inv_def poll_sel)

lemma wake_reachable_inv:
  assumes "wake_reachable M config tls prefix w" "mpsc_ok M"
  shows "wake_inv M config tls prefix w"
  using assms
proof (induction rule: wake_reachable.induct)
  case (wake_start le n s q)
  then show ?case by (simp add: wake_inv_def open_ok)
qed (auto intro: wake_step_inv)

section \<open>Properties\<close>

text \<open>
  C17: no wakeup is lost. In every reachable state the notifier holds at most one buffered wakeup, and
  whenever a worker would block in \<^verbatim>\<open>recv\<close>, its connection is alive and every notification committed
  since it was last woken is still on its way to it; with none on its way, it has seen them all. A
  burst is coalesced and a dropped connection wakes the worker instead of swallowing messages.
\<close>

theorem no_wakeup_is_lost:
  assumes "mpsc_ok M" "wake_reachable M config tls prefix w"
  shows "mp_len M (nt_wakeups (ws_notifier w)) \<le> 1 \<and>
    (notifier_recv M le (ws_notifier w) = None \<longrightarrow>
      live M (ws_notifier w) \<and> notified (ws_store w) - ws_seen w \<le> ws_queued w)"
  using wake_reachable_inv [OF assms(2,1)]
  by (auto simp: wake_inv_def notifier_ok_def chan_ok_def recv_blocks [OF assms(1)])

text \<open>A channel of units as a counter and two flags.\<close>

record unit_channel =
  uc_len :: nat
  uc_cap :: nat
  uc_tx :: bool
  uc_rx :: bool

definition unit_mpsc :: "unit_channel mpsc" where
  "unit_mpsc =
     \<lparr>mp_channel = (\<lambda>n. \<lparr>uc_len = 0, uc_cap = n, uc_tx = True, uc_rx = True\<rparr>),
      mp_try_send = (\<lambda>ch. if \<not> uc_rx ch then (Closed, ch) else if uc_cap ch \<le> uc_len ch then (Full, ch)
        else (Sent, ch\<lparr>uc_len := uc_len ch + 1\<rparr>)),
      mp_recv = (\<lambda>ch. if 0 < uc_len ch then (Received, ch\<lparr>uc_len := uc_len ch - 1\<rparr>)
        else if uc_tx ch then (Blocked, ch) else (Disconnected, ch)),
      mp_drop_tx = (\<lambda>ch. ch\<lparr>uc_tx := False\<rparr>), mp_len = uc_len, mp_max_capacity = uc_cap,
      mp_tx_open = uc_tx, mp_rx_open = uc_rx\<rparr>"

lemma unit_mpsc_ok: "mpsc_ok unit_mpsc"
  by (auto simp: mpsc_ok_def unit_mpsc_def same_ends_def)

definition quiet_listen :: "(unit, unit) listen_env" where
  "quiet_listen = \<lparr>le_connect = (\<lambda>_ _. Inr 7), le_execute = (\<lambda>_ _. Inr ()), le_polled = []\<rparr>"

definition sample_notifier :: "(unit, unit, unit_channel) pg_notifier" where
  "sample_notifier =
     \<lparr>nt_factory = make_listen_factory unit_mpsc () (), nt_channel = ''q_jobs'', nt_client = 7,
      nt_wakeups = mp_channel unit_mpsc 1\<rparr>"

lemma sample_open: "pg_notifier_open (make_listen_factory unit_mpsc () ()) ''q'' quiet_listen = Inr sample_notifier"
  by (simp add: pg_notifier_open_def notifier_connect_def make_listen_factory_def listen_def quiet_listen_def channel_def
      sample_notifier_def)

lemma sample_blocks: "notifier_recv unit_mpsc le sample_notifier = None" "live unit_mpsc sample_notifier"
  by (simp_all add: notifier_recv_def live_def sample_notifier_def unit_mpsc_def)

theorem no_wakeup_is_lost_witness:
  "let w = \<lparr>ws_store = notify pg_empty, ws_seen = 0, ws_queued = 1, ws_notifier = sample_notifier\<rparr>
   in wake_reachable unit_mpsc () () ''q'' w \<and> notified (ws_store w) - ws_seen w \<le> ws_queued w"
proof -
  let ?init = "\<lparr>ws_store = pg_empty, ws_seen = notified pg_empty, ws_queued = 0, ws_notifier = sample_notifier\<rparr>"
  let ?w = "\<lparr>ws_store = notify pg_empty, ws_seen = 0, ws_queued = 1, ws_notifier = sample_notifier\<rparr>"
  have "wake_step unit_mpsc ?init ?w"
    using wake_commit [of ?init "notify pg_empty" 1 unit_mpsc] by (simp add: notify_def pg_empty_def sample_blocks)
  with wake_start [OF sample_open, of pg_empty 0] have "wake_reachable unit_mpsc () () ''q'' ?w" by (rule wake_next)
  with no_wakeup_is_lost [OF unit_mpsc_ok this, of quiet_listen] show ?thesis by (simp add: sample_blocks)
qed

text \<open>
  C34: a lost connection never silences a worker: once the connection has dropped, \<^verbatim>\<open>recv\<close> returns every
  time it is called until a connection attempt succeeds, and after one that succeeds, and polled
  nothing yet, it listens on the same channel over the new client and blocks again.
\<close>

theorem dropped_listener_recovers:
  assumes "mpsc_ok M" "notifier_ok M config tls prefix n" "\<not> live M n" "mp_len M (nt_wakeups n) = 0"
  shows "notifier_recv M le n = Some (reconnect le n) \<and>
    (case listen M le config tls (channel prefix) of
       Inl _ \<Rightarrow> reconnect le n = n
     | Inr (client, ch) \<Rightarrow> nt_client (reconnect le n) = client \<and> nt_channel (reconnect le n) = channel prefix \<and>
         (le_polled le = [] \<longrightarrow> notifier_recv M le' (reconnect le n) = None))"
proof -
  have same: "nt_factory n = make_listen_factory M config tls" "nt_channel n = channel prefix"
    using assms(2) by (simp_all add: notifier_ok_def)
  have "notifier_recv M le n = Some (reconnect le n)"
    by (rule mp_recv_cases [OF assms(1), of "nt_wakeups n"]) (use assms(3,4) in \<open>auto simp: notifier_recv_def live_def\<close>)
  moreover have "notifier_recv M le' (reconnect le n) = None"
    if "listen M le config tls (channel prefix) = Inr (client, ch)" "le_polled le = []" for client ch
    using that by (auto simp: reconnect_def same make_listen_factory_def recv_blocks [OF assms(1)] live_def listen_def Let_def
        mpsc_laws [OF assms(1)] bind_ok_def simp del: One_nat_def split: sum.splits)
  ultimately show ?thesis
    by (auto simp: reconnect_def same make_listen_factory_def split: sum.split)
qed

theorem dropped_listener_recovers_witness:
  "let n = poll unit_mpsc None sample_notifier
   in notifier_recv unit_mpsc quiet_listen n = Some (reconnect quiet_listen n) \<and>
      notifier_recv unit_mpsc quiet_listen (reconnect quiet_listen n) = None"
proof -
  note sel = poll_sel [OF unit_mpsc_ok open_ok [OF unit_mpsc_ok sample_open]]
  have "mp_len unit_mpsc (nt_wakeups (poll unit_mpsc None sample_notifier)) = 0"
    by (simp add: sel) (simp add: sample_notifier_def unit_mpsc_def)
  with dropped_listener_recovers [OF unit_mpsc_ok sel(1), of None quiet_listen quiet_listen] show ?thesis
    by (simp add: sel listen_def quiet_listen_def split: sum.splits)
qed

end
