(* ===== verification/Postgres_Contract.thy ===== *)
theory Postgres_Contract
  imports Postgres_Store
begin

text \<open>
  The PostgreSQL adapter implements the abstract store. The representation invariant \<open>pg_inv\<close> says
  that every row decodes, identifiers are unique, run counters are non-negative and the journal
  references existing jobs in identity order; \<open>pg_view\<close> decodes the tables. The interpretation
  \<open>pg\<close> of \<open>store_contract\<close> discharges the contract for every lawful ULID codec.
\<close>

section \<open>Representation\<close>

type_synonym entry = "i64 \<times> ulid \<times> journal_append"

definition job_list_ok :: "job_record list \<Rightarrow> bool" where
  "job_list_ok js \<longleftrightarrow>
     distinct (map job_id js) \<and> (\<forall>j \<in> set js. job_wf j \<and> 0 \<le> sint (job_run_count j))"

definition entry_list_ok :: "ulid set \<Rightarrow> i64 \<Rightarrow> entry list \<Rightarrow> bool" where
  "entry_list_ok ids bound es \<longleftrightarrow>
     sorted_wrt (<) (map fst es) \<and> (\<forall>x \<in> set es. fst x < bound \<and> fst (snd x) \<in> ids)"

definition pg_rep :: "ulid_codec \<Rightarrow> pg_state \<Rightarrow> job_record list \<Rightarrow> entry list \<Rightarrow> bool" where
  "pg_rep c st js es \<longleftrightarrow>
     jobs_tbl st = map (row_of_job c) js \<and>
     journal_tbl st = map (\<lambda>x. row_of_entry c (fst x) (fst (snd x)) (snd (snd x))) es \<and>
     job_list_ok js \<and> entry_list_ok (job_id ` set js) (journal_seq st) es"

definition pg_inv :: "ulid_codec \<Rightarrow> pg_state \<Rightarrow> bool" where
  "pg_inv c st \<longleftrightarrow> ulid_codec_ok c \<and> (\<exists>js es. pg_rep c st js es)"

definition row_job :: "ulid_codec \<Rightarrow> job_row \<Rightarrow> job_record option" where
  "row_job c r = (case job_from_row c r of Inl _ \<Rightarrow> None | Inr j \<Rightarrow> Some j)"

definition row_entry :: "ulid_codec \<Rightarrow> journal_row \<Rightarrow> journal_append option" where
  "row_entry c x = (case journal_from_row c x of Inl _ \<Rightarrow> None | Inr y \<Rightarrow> Some (entry_of y))"

definition pg_view :: "ulid_codec \<Rightarrow> pg_state \<Rightarrow> astore" where
  "pg_view c st =
     \<lparr>a_job = (\<lambda>i. Option.bind (find (\<lambda>r. r_id r = to_string c i) (jobs_tbl st)) (row_job c)),
      a_journal = (\<lambda>i. List.map_filter (row_entry c)
                    (filter (\<lambda>x. jr_job_id x = to_string c i) (journal_tbl st)))\<rparr>"

text \<open>The same view over the typed lists that represent the tables.\<close>

definition list_view :: "job_record list \<Rightarrow> entry list \<Rightarrow> astore" where
  "list_view js es =
     \<lparr>a_job = (\<lambda>i. find (\<lambda>j. job_id j = i) js),
      a_journal = (\<lambda>i. map (\<lambda>x. snd (snd x)) (filter (\<lambda>x. fst (snd x) = i) es))\<rparr>"

lemma find_map: "find p (map f xs) = map_option f (find (\<lambda>x. p (f x)) xs)"
  by (induction xs) auto

lemma find_cong_pred: "(\<And>x. x \<in> set xs \<Longrightarrow> p x = q x) \<Longrightarrow> find p xs = find q xs"
  by (induction xs) auto

lemma find_SomeD: "find p xs = Some x \<Longrightarrow> x \<in> set xs \<and> p x"
  by (auto simp: find_Some_iff)

lemma row_job_of_job [simp]: "ulid_codec_ok c \<Longrightarrow> row_job c (row_of_job c j) = Some j"
  by (simp add: row_job_def)

lemma row_entry_of_entry [simp]:
  "ulid_codec_ok c \<Longrightarrow> row_entry c (row_of_entry c n i ja) = Some ja"
  by (simp add: row_entry_def entry_of_def)

lemma pg_view_rep:
  assumes "ulid_codec_ok c" "pg_rep c st js es"
  shows "pg_view c st = list_view js es"
proof -
  have jobs: "Option.bind (find (\<lambda>r. r_id r = to_string c i) (jobs_tbl st)) (row_job c) =
      find (\<lambda>j. job_id j = i) js" for i
    using assms
    by (cases "find (\<lambda>j. job_id j = i) js") (simp_all add: pg_rep_def find_map row_simps)
  have journal: "List.map_filter (row_entry c) (filter (\<lambda>x. jr_job_id x = to_string c i) (journal_tbl st)) =
      map (\<lambda>x. snd (snd x)) (filter (\<lambda>x. fst (snd x) = i) es)" for i
  proof -
    have "List.map_filter (row_entry c) (filter (\<lambda>x. jr_job_id x = to_string c i)
        (map (\<lambda>x. row_of_entry c (fst x) (fst (snd x)) (snd (snd x))) xs)) =
        map (\<lambda>x. snd (snd x)) (filter (\<lambda>x. fst (snd x) = i) xs)" for xs
      using assms(1) by (induction xs) (simp_all add: List.map_filter_simps row_of_entry_def
          row_entry_of_entry [unfolded row_of_entry_def])
    then show ?thesis using assms(2) by (simp add: pg_rep_def)
  qed
  show ?thesis by (simp add: pg_view_def list_view_def jobs journal)
qed

section \<open>Guarded updates of the tables\<close>

definition update_jobs ::
  "(job_record \<Rightarrow> bool) \<Rightarrow> (job_record \<Rightarrow> job_record) \<Rightarrow> ulid \<Rightarrow> job_record list \<Rightarrow> job_record list" where
  "update_jobs g f i js = map (\<lambda>j. if job_id j = i \<and> g j then f j else j) js"

lemma find_update_jobs:
  assumes "\<And>j. job_id (f j) = job_id j"
  shows "find (\<lambda>j. job_id j = k) (update_jobs g f i js) =
    map_option (\<lambda>j. if k = i \<and> g j then f j else j) (find (\<lambda>j. job_id j = k) js)"
  using assms by (induction js) (auto simp: update_jobs_def)

lemma update_jobs_ids:
  assumes "\<And>j. job_id (f j) = job_id j"
  shows "map job_id (update_jobs g f i js) = map job_id js"
  using assms by (simp add: update_jobs_def)

lemma find_by_id:
  "distinct (map job_id js) \<Longrightarrow> find (\<lambda>j. job_id j = i) js = Some j \<longleftrightarrow> j \<in> set js \<and> job_id j = i"
  by (induction js) auto

lemma affected_iff:
  assumes "job_list_ok js"
  shows "0 < length (filter (\<lambda>j. job_id j = i \<and> g j) js) \<longleftrightarrow>
    (\<exists>j. find (\<lambda>j. job_id j = i) js = Some j \<and> g j)"
proof -
  have "distinct (map job_id js)" using assms by (simp add: job_list_ok_def)
  then show ?thesis by (auto simp: filter_empty_conv find_by_id)
qed

lemma list_view_guarded:
  assumes "job_list_ok js" "\<And>j. job_id (f j) = job_id j" "\<forall>x \<in> set new. fst (snd x) = i"
  shows "guarded g f (map (\<lambda>x. snd (snd x)) new) i (list_view js es) =
    (if 0 < length (filter (\<lambda>j. job_id j = i \<and> g j) js)
     then (True, list_view (update_jobs g f i js) (es @ new))
     else (False, list_view (update_jobs g f i js) es))"
proof (cases "find (\<lambda>j. job_id j = i) js")
  case None
  then have "update_jobs g f i js = js"
    by (auto simp: update_jobs_def find_None_iff intro: map_idI)
  with None affected_iff [OF assms(1)] show ?thesis by (simp add: guarded_def list_view_def)
next
  case (Some j)
  have new: "filter (\<lambda>x. fst (snd x) = k) new = (if k = i then new else [])" for k
    using assms(3) by (auto simp: filter_empty_conv filter_id_conv)
  have jobs: "find (\<lambda>j. job_id j = k) (update_jobs g f i js) =
      (if k = i \<and> g j then Some (f j) else find (\<lambda>j. job_id j = k) js)" for k
    using Some by (cases "find (\<lambda>j. job_id j = k) js") (auto simp: find_update_jobs [OF assms(2)])
  from Some affected_iff [OF assms(1), of i g] show ?thesis
    by (auto simp: guarded_def list_view_def jobs new fun_eq_iff)
qed

lemma job_list_ok_update:
  assumes "job_list_ok js" "\<And>j. job_id (f j) = job_id j"
    and "\<And>j. j \<in> set js \<Longrightarrow> g j \<Longrightarrow> job_wf j \<Longrightarrow> job_wf (f j)"
    and "\<And>j. j \<in> set js \<Longrightarrow> g j \<Longrightarrow> 0 \<le> sint (job_run_count j) \<Longrightarrow> 0 \<le> sint (job_run_count (f j))"
  shows "job_list_ok (update_jobs g f i js)"
  using assms update_jobs_ids [of f g i js, OF assms(2)]
  by (auto simp: job_list_ok_def) (auto simp: update_jobs_def)

lemma entry_list_ok_snoc:
  "entry_list_ok ids n es \<Longrightarrow> i \<in> ids \<Longrightarrow> entry_list_ok ids (n + 1) (es @ [(n, i, ja)])"
  by (auto simp: entry_list_ok_def sorted_wrt_append less_imp_le intro: order.strict_trans)

lemma sql_update_rows:
  assumes "\<And>j. j \<in> set js \<Longrightarrow> p (row_of_job c j) \<longleftrightarrow> job_id j = i \<and> g j"
    and "\<And>j. j \<in> set js \<Longrightarrow> g j \<Longrightarrow> f (row_of_job c j) = row_of_job c (f' j)"
  shows "sql_update p f (map (row_of_job c) js) =
    (length (filter (\<lambda>j. job_id j = i \<and> g j) js), map (row_of_job c) (update_jobs g f' i js))"
  using assms by (auto simp: sql_update_def update_jobs_def filter_map comp_def cong: filter_cong)

lemma pg_repI:
  "pg_rep c st js es \<Longrightarrow> jobs_tbl st' = map (row_of_job c) js' \<Longrightarrow> job_list_ok js' \<Longrightarrow>
    map job_id js' = map job_id js \<Longrightarrow> journal_tbl st' = journal_tbl st \<Longrightarrow>
    journal_seq st' = journal_seq st \<Longrightarrow> pg_rep c st' js' es"
  unfolding pg_rep_def by (metis list.set_map)

lemma pg_rep_insert_journal:
  assumes "pg_rep c st js es" "i \<in> job_id ` set js"
  shows "pg_rep c (insert_journal (to_string c i) (app_run_no ja) ja st) js
    (es @ [(journal_seq st, i, ja)])"
  using assms by (simp add: pg_rep_def insert_journal_def row_of_entry_def entry_list_ok_snoc)

lemma pg_inv_notify [simp]: "pg_inv c (notify st) \<longleftrightarrow> pg_inv c st"
  by (simp add: pg_inv_def pg_rep_def notify_def)

lemma pg_view_notify [simp]: "pg_view c (notify st) = pg_view c st"
  by (simp add: pg_view_def notify_def)

lemma pg_invE:
  assumes "pg_inv c st"
  obtains js es where "ulid_codec_ok c" "pg_rep c st js es" "jobs_tbl st = map (row_of_job c) js"
    "job_list_ok js" "pg_view c st = list_view js es"
  using assms pg_view_rep [of c st] by (auto simp: pg_inv_def pg_rep_def)

text \<open>Whatever rows a query selects, they decode.\<close>

lemma pg_rows_decode:
  assumes "pg_inv c st" "set rs \<subseteq> set (jobs_tbl st)"
  shows "collect_results (job_from_row c) rs = Inr (map (\<lambda>r. projr (job_from_row c r)) rs)"
proof -
  obtain js where rep: "ulid_codec_ok c" "jobs_tbl st = map (row_of_job c) js" using pg_invE [OF assms(1)] by metis
  then show ?thesis using assms(2) by (intro collect_results_all_ok) auto
qed

lemma pg_entries_decode:
  assumes "pg_inv c st" "set xs \<subseteq> set (journal_tbl st)"
  shows "collect_results (journal_from_row c) xs = Inr (map (\<lambda>x. projr (journal_from_row c x)) xs)"
proof -
  obtain js es where rep: "ulid_codec_ok c" "pg_rep c st js es" using pg_invE [OF assms(1)] by metis
  then have "journal_tbl st = map (\<lambda>x. row_of_entry c (fst x) (fst (snd x)) (snd (snd x))) es" by (simp add: pg_rep_def)
  then show ?thesis using assms(2) rep(1) by (intro collect_results_all_ok) auto
qed

text \<open>One guarded statement followed by the journal entry of an affected row.\<close>

lemma pg_guarded_write:
  assumes "pg_inv c st"
    and p: "\<And>j. ulid_codec_ok c \<Longrightarrow> p (row_of_job c j) \<longleftrightarrow> job_id j = i \<and> g j"
    and f: "\<And>j. g j \<Longrightarrow> f (row_of_job c j) = row_of_job c (f' j)"
    and keep: "\<And>j. job_id (f' j) = job_id j" "\<And>j. job_run_count (f' j) = job_run_count j"
    and wf: "\<And>j. g j \<Longrightarrow> job_wf j \<Longrightarrow> job_wf (f' j)"
    and upd: "sql_update p f (jobs_tbl st) = (affected, jobs')"
    and jas: "jas = [] \<or> jas = [ja]"
  defines "st1 \<equiv> st\<lparr>jobs_tbl := jobs'\<rparr>"
  defines "st2 \<equiv> if 0 < affected \<and> jas \<noteq> []
    then insert_journal (to_string c i) (app_run_no ja) ja st1 else st1"
  shows "pg_inv c st2" "guarded g f' jas i (pg_view c st) = (0 < affected, pg_view c st2)"
proof -
  obtain js es where rep: "ulid_codec_ok c" "pg_rep c st js es" "jobs_tbl st = map (row_of_job c) js"
    "job_list_ok js" "pg_view c st = list_view js es"
    using pg_invE [OF assms(1)] by blast
  let ?js = "update_jobs g f' i js"
  have upd': "affected = length (filter (\<lambda>j. job_id j = i \<and> g j) js)" "jobs' = map (row_of_job c) ?js"
    using upd sql_update_rows [of js p c i g f f'] p [OF rep(1)] f by (simp_all add: rep(3))
  have ok: "job_list_ok ?js"
    using rep(4) keep wf by (intro job_list_ok_update) simp_all
  have rep1: "pg_rep c st1 ?js es"
    by (rule pg_repI [OF rep(2)]) (simp_all add: st1_def upd'(2) ok update_jobs_ids keep(1))
  define new where "new = (if 0 < affected then map (Pair (journal_seq st) \<circ> Pair i) jas else [])"
  have ids: "job_id ` set ?js = job_id ` set js"
    using update_jobs_ids [of f' g i js, OF keep(1)] by (metis list.set_map)
  have "i \<in> job_id ` set ?js" if "0 < affected"
    using that by (auto simp: ids upd'(1) filter_empty_conv)
  then have rep2: "pg_rep c st2 ?js (es @ new)"
    using rep1 pg_rep_insert_journal [OF rep1, of i ja] jas by (auto simp: st2_def new_def st1_def)
  then show "pg_inv c st2" using rep(1) by (auto simp: pg_inv_def)
  have "guarded g f' (map (\<lambda>x. snd (snd x)) (map (Pair (journal_seq st) \<circ> Pair i) jas)) i (list_view js es)
      = (0 < affected, list_view ?js (es @ new))"
    using list_view_guarded [OF rep(4) keep(1), where new = "map (Pair (journal_seq st) \<circ> Pair i) jas" and i = i]
    by (auto simp: new_def upd'(1))
  then show "guarded g f' jas i (pg_view c st) = (0 < affected, pg_view c st2)"
    by (simp add: rep(5) pg_view_rep [OF rep(1) rep2] comp_def)
qed

lemma transact_conforms:
  "v = fst spec \<Longrightarrow> view s1 = snd spec \<Longrightarrow> conforms view s (transact e s (Inr v, s1)) spec"
  by (auto simp: conforms_def transact_def split: option.split fault.split)

lemma transact_inv:
  "pg_inv c s \<Longrightarrow> pg_inv c s1 \<Longrightarrow> pg_inv c (snd (transact e s (r, s1)))"
  by (auto simp: transact_def split: sum.split option.split fault.split)

lemma conforms_error: "conforms view s (Inl x, s) spec"
  by (simp add: conforms_def)

lemma run_no_to_db_Inr: "run_no_to_db n = Inr m \<longleftrightarrow> m = n \<and> 0 \<le> sint n"
  by (auto simp: run_no_to_db_def)

section \<open>Each writing operation conforms\<close>

lemma owned_row_of_job:
  "ulid_codec_ok c \<Longrightarrow> owned_row (to_string c i) by rn (row_of_job c j) \<longleftrightarrow> job_id j = i \<and> owned by rn j"
  by (auto simp: owned_row_def owned_def row_simps)

lemma expired_row_of_job:
  "expired_row now (row_of_job c j) \<and> r_run_count (row_of_job c j) = rn \<longleftrightarrow> expired now rn j"
  by (auto simp: expired_row_def expired_def row_simps split: option.split)

lemma settle_row_of_job: "settle_row stl (row_of_job c j) = row_of_job c (settle_job stl j)"
  by (cases stl) (simp_all add: row_of_job_def unclaim_def)

lemma recover_row_of_job: "recover_row vis fc (row_of_job c j) = row_of_job c (recover_job vis fc j)"
  by (simp add: row_of_job_def recover_row_def recover_job_def unclaim_def)

lemma merge_row_of_job: "merge_row u (row_of_job c j) = row_of_job c (merge_job u j)"
  by (simp add: row_of_job_def merge_row_def merge_job_def split: option.split)

lemma claim_row_of_job: "claim_row expiry by (row_of_job c j) = row_of_job c (claim_job expiry by j)"
  by (simp add: row_of_job_def claim_row_def claim_job_def)

lemmas row_of_job_transitions = settle_row_of_job recover_row_of_job merge_row_of_job claim_row_of_job

lemma job_wf_guarded:
  "owned by rn j \<Longrightarrow> job_wf j \<Longrightarrow> job_wf (settle_job stl j)"
  "owned by rn j \<Longrightarrow> job_wf j \<Longrightarrow> job_wf (extend_job t j)"
  "expired now rn j \<Longrightarrow> job_wf j \<Longrightarrow> job_wf (recover_job vis fc j)"
  by (simp_all add: guard_defs job_wf_intros)

lemma pg_settle_conforms:
  assumes "pg_inv c st"
  shows "pg_inv c (snd (pg_settle c e i by rn stl ja st))"
    and "conforms (pg_view c) st (pg_settle c e i by rn stl ja st) (spec_settle by rn stl ja i (pg_view c st))"
proof -
  obtain n jobs' where upd:
    "sql_update (owned_row (to_string c i) by rn) (settle_row stl) (jobs_tbl st) = (n, jobs')"
    by fastforce
  note guarded_step = pg_guarded_write [where g = "owned by rn" and f' = "settle_job stl"
      and jas = "[ja]" and ja = ja, OF assms owned_row_of_job settle_row_of_job job_id_transitions(2)
      job_run_count_transitions(1) job_wf_guarded(1) upd, simplified]
  show "pg_inv c (snd (pg_settle c e i by rn stl ja st))"
    using assms guarded_step(1)
    by (auto simp: pg_settle_def Let_def run_no_to_db_def upd intro!: transact_inv)
  show "conforms (pg_view c) st (pg_settle c e i by rn stl ja st) (spec_settle by rn stl ja i (pg_view c st))"
    using guarded_step(2)
    by (auto simp: pg_settle_def Let_def run_no_to_db_def upd spec_settle_def conforms_error
        intro!: transact_conforms)
qed

lemma pg_recover_conforms:
  assumes "pg_inv c st"
  shows "pg_inv c (snd (pg_recover c e i vis fc rn ja st))"
    and "conforms (pg_view c) st (pg_recover c e i vis fc rn ja st)
      (spec_recover (env_now e) vis fc rn ja i (pg_view c st))"
proof -
  let ?p = "\<lambda>r. r_id r = to_string c i \<and> expired_row (env_now e) r \<and> r_run_count r = rn"
  obtain n jobs' where upd: "sql_update ?p (recover_row vis fc) (jobs_tbl st) = (n, jobs')"
    by fastforce
  have p: "?p (row_of_job c j) \<longleftrightarrow> job_id j = i \<and> expired (env_now e) rn j" if "ulid_codec_ok c" for j
    using that expired_row_of_job [of "env_now e" c j rn] by (auto simp: row_simps)
  note guarded_step = pg_guarded_write [where g = "expired (env_now e) rn" and f' = "recover_job vis fc"
      and jas = "[ja]" and ja = ja, OF assms p recover_row_of_job job_id_transitions(3)
      job_run_count_transitions(2) job_wf_guarded(3) upd, simplified]
  show "pg_inv c (snd (pg_recover c e i vis fc rn ja st))"
    using assms guarded_step(1)
    by (auto simp: pg_recover_def Let_def run_no_to_db_def upd intro!: transact_inv)
  show "conforms (pg_view c) st (pg_recover c e i vis fc rn ja st)
      (spec_recover (env_now e) vis fc rn ja i (pg_view c st))"
    using guarded_step(2)
    by (auto simp: pg_recover_def Let_def run_no_to_db_def upd spec_recover_def conforms_error
        intro!: transact_conforms)
qed

lemma pg_extend_conforms:
  assumes "pg_inv c st"
  shows "pg_inv c (snd (pg_extend_lease c e i by rn ls st))"
    and "conforms (pg_view c) st (pg_extend_lease c e i by rn ls st)
      (spec_extend (env_now e + int ls) by rn i (pg_view c st))"
proof -
  let ?f = "\<lambda>r. r\<lparr>r_claim_expires_at := Some (env_now e + int ls)\<rparr>"
  obtain n jobs' where upd: "sql_update (owned_row (to_string c i) by rn) ?f (jobs_tbl st) = (n, jobs')"
    by fastforce
  have f: "?f (row_of_job c j) = row_of_job c (extend_job (env_now e + int ls) j)" for j
    by (simp add: row_of_job_def extend_job_def)
  note guarded_step = pg_guarded_write [where g = "owned by rn" and f' = "extend_job (env_now e + int ls)"
      and jas = "[]", OF assms owned_row_of_job f job_id_transitions(4)
      job_run_count_transitions(3) job_wf_guarded(2) upd, simplified]
  show "pg_inv c (snd (pg_extend_lease c e i by rn ls st))"
    using assms guarded_step(1)
    by (auto simp: pg_extend_lease_def Let_def run_no_to_db_def upd intro!: transact_inv)
  show "conforms (pg_view c) st (pg_extend_lease c e i by rn ls st)
      (spec_extend (env_now e + int ls) by rn i (pg_view c st))"
    using guarded_step(2)
    by (auto simp: pg_extend_lease_def Let_def run_no_to_db_def upd spec_extend_def conforms_error
        intro!: transact_conforms)
qed

lemma pg_merge_conforms:
  assumes "pg_inv c st" "merge_valid u"
  shows "pg_inv c (snd (pg_merge_into c e i u ja st))"
    and "conforms (pg_view c) st (pg_merge_into c e i u ja st) (spec_merge u ja i (pg_view c st))"
proof -
  let ?p = "\<lambda>r. r_id r = to_string c i \<and> r_status r = ''pending''"
  obtain n jobs' where upd: "sql_update ?p (merge_row u) (jobs_tbl st) = (n, jobs')" by fastforce
  have p: "?p (row_of_job c j) \<longleftrightarrow> job_id j = i \<and> job_status j = Pending" if "ulid_codec_ok c" for j
    using that by (simp add: row_simps)
  have wf: "job_wf (merge_job u j)" if "job_status j = Pending" "job_wf j" for j
    using that(2) assms(2) by (rule job_wf_merge)
  note guarded_step = pg_guarded_write [where g = "\<lambda>j. job_status j = Pending" and f' = "merge_job u"
      and jas = "[ja]" and ja = ja, OF assms(1) p merge_row_of_job job_id_transitions(5)
      job_run_count_transitions(4) wf upd, simplified]
  have checked: "priority_check u"
    using assms(2) by (auto simp: priority_check_def merge_valid_def split: option.split)
  show "pg_inv c (snd (pg_merge_into c e i u ja st))"
    using assms guarded_step(1)
    by (auto simp: pg_merge_into_def Let_def run_no_to_db_def upd checked intro!: transact_inv)
  show "conforms (pg_view c) st (pg_merge_into c e i u ja st) (spec_merge u ja i (pg_view c st))"
    using guarded_step(2)
    by (auto simp: pg_merge_into_def Let_def run_no_to_db_def upd checked spec_merge_def conforms_error
        intro!: transact_conforms)
qed

lemma find_snoc:
  "find p (xs @ [y]) = (case find p xs of None \<Rightarrow> if p y then Some y else None | Some x \<Rightarrow> Some x)"
  by (induction xs) auto

lemma pg_enqueue_row:
  "row_of_job c (fresh_job nj) =
    \<lparr>r_id = to_string c (new_id nj), r_kind = new_kind nj, r_payload = new_payload nj,
     r_priority = new_priority nj, r_status = ''pending'', r_created_at = new_created_at nj,
     r_visible_at = new_visible_at nj, r_claim_expires_at = None, r_claimed_by = None,
     r_finished_at = None, r_run_count = 0, r_failure_count = 0, r_carry = new_carry nj,
     r_dedup_key = new_dedup_key nj\<rparr>"
  by (simp add: row_of_job_def fresh_job_def)

lemma pg_enqueue_eq:
  "pg_enqueue c e nj st =
    (case validate nj of
       Inl x \<Rightarrow> (Inl x, st)
     | Inr _ \<Rightarrow> transact e st
         (if to_string c (new_id nj) \<in> r_id ` set (jobs_tbl st) then (Inl unique_violation, st)
          else (Inr (), notify (st\<lparr>jobs_tbl := jobs_tbl st @ [row_of_job c (fresh_job nj)]\<rparr>))))"
  by (simp add: pg_enqueue_def pg_enqueue_row Let_def split: sum.split)

lemma pg_insert_job:
  assumes "pg_inv c st" "new_priority nj \<in> {0, 1, 2}"
    and "to_string c (new_id nj) \<notin> r_id ` set (jobs_tbl st)"
  defines "st' \<equiv> st\<lparr>jobs_tbl := jobs_tbl st @ [row_of_job c (fresh_job nj)]\<rparr>"
  shows "pg_inv c st'" "pg_view c st' = spec_enqueue nj (pg_view c st)"
proof -
  obtain js es where rep: "ulid_codec_ok c" "pg_rep c st js es" "jobs_tbl st = map (row_of_job c) js"
    "job_list_ok js" "pg_view c st = list_view js es"
    using pg_invE [OF assms(1)] by blast
  have fresh: "new_id nj \<notin> job_id ` set js" using assms(3) by (auto simp: rep(3) image_image row_simps)
  then have ok: "job_list_ok (js @ [fresh_job nj])"
    using rep(4) job_wf_fresh [OF assms(2)] by (auto simp: job_list_ok_def) (simp add: fresh_job_def)
  have rep': "pg_rep c st' (js @ [fresh_job nj]) es"
    using rep(2) ok by (auto simp: pg_rep_def st'_def entry_list_ok_def)
  then show "pg_inv c st'" using rep(1) by (auto simp: pg_inv_def)
  have "find (\<lambda>j. job_id j = new_id nj) js = None" using fresh by (force simp: find_None_iff)
  then show "pg_view c st' = spec_enqueue nj (pg_view c st)"
    by (auto simp: pg_view_rep [OF rep(1) rep'] rep(5) spec_enqueue_def list_view_def find_snoc fun_eq_iff
        split: option.split)
qed

lemma pg_enqueue_inv: "pg_inv c st \<Longrightarrow> pg_inv c (snd (pg_enqueue c e nj st))"
  using pg_insert_job(1) [of c st nj] validate_iff [of nj]
  by (auto simp: pg_enqueue_eq split: sum.split intro!: transact_inv)

lemma pg_enqueue_conforms:
  assumes "pg_inv c st" "new_priority nj \<in> {0, 1, 2}" "a_job (pg_view c st) (new_id nj) = None"
  shows "conforms (pg_view c) st (pg_enqueue c e nj st) ((), spec_enqueue nj (pg_view c st))"
proof -
  have "to_string c (new_id nj) \<notin> r_id ` set (jobs_tbl st)"
    using assms(3) by (rule_tac pg_invE [OF assms(1)]) (auto simp: list_view_def find_None_iff row_simps)
  with assms pg_insert_job(2) [OF assms(1,2)] show ?thesis
    by (auto simp: pg_enqueue_eq validate_iff [THEN iffD2] intro!: transact_conforms)
qed

text \<open>A claim: the head of the ordered candidates is updated in place.\<close>

lemma pg_claim_candidate:
  assumes "pg_inv c st" "pg_claim_candidates e ks fl st = r # rs"
  obtains i j where "r = row_of_job c j" "a_job (pg_view c st) i = Some j" "job_id j = i"
    "claimable (env_now e) ks fl j" "\<not> env_locked e (to_string c i)"
    "\<And>k l. a_job (pg_view c st) k = Some l \<Longrightarrow> claimable (env_now e) ks fl l \<Longrightarrow>
      \<not> env_locked e (to_string c k) \<Longrightarrow> claim_key j \<le> claim_key l"
    "0 \<le> sint (job_run_count j)"
proof -
  obtain js es where rep: "ulid_codec_ok c" "pg_rep c st js es" "jobs_tbl st = map (row_of_job c) js"
    "job_list_ok js" "pg_view c st = list_view js es"
    using pg_invE [OF assms(1)] by blast
  have distinct: "distinct (map job_id js)" using rep(4) by (simp add: job_list_ok_def)
  note hd = sort_key_hd [OF assms(2) [unfolded pg_claim_candidates_def]]
  from hd(1) obtain j where j: "j \<in> set js" "r = row_of_job c j" by (auto simp: rep(3))
  from hd(1) have cl: "claimable (env_now e) ks fl j" "\<not> env_locked e (to_string c (job_id j))"
    by (auto simp: j(2) row_simps claimable_def)
  have least: "claim_key j \<le> claim_key l"
    if "a_job (pg_view c st) k = Some l" "claimable (env_now e) ks fl l" "\<not> env_locked e (to_string c k)" for k l
  proof -
    have "l \<in> set js" "job_id l = k" using that(1) find_SomeD [of _ js l] by (auto simp: rep(5) list_view_def)
    then have "(r_priority r, r_created_at r, env_plan e (r_id r)) \<le>
        (job_priority l, job_created_at l, env_plan e (to_string c k))"
      using hd(2) [of "row_of_job c l"] that(2,3) by (auto simp: rep(3) row_simps claimable_def)
    then show ?thesis unfolding claim_key_def j(2) row_simps by (rule lex_prefix_le)
  qed
  show thesis
    by (rule that [OF j(2) _ refl cl least])
      (use j(1) rep(4) distinct in \<open>auto simp: rep(5) list_view_def find_by_id job_list_ok_def\<close>)
qed

lemma pg_claim_update:
  fixes expiry :: datetime and who :: string
  assumes "pg_inv c st" "a_job (pg_view c st) i = Some j" "job_status j = Pending"
    and "sint (job_run_count j) \<noteq> i32_max"
  defines "st' \<equiv> st\<lparr>jobs_tbl :=
    snd (sql_update (\<lambda>x. r_id x = to_string c i) (claim_row expiry who) (jobs_tbl st))\<rparr>"
  shows "pg_inv c st'"
    "pg_view c st' = (pg_view c st)\<lparr>a_job := (a_job (pg_view c st))(i \<mapsto> claim_job expiry who j)\<rparr>"
proof -
  obtain js es where rep: "ulid_codec_ok c" "pg_rep c st js es" "jobs_tbl st = map (row_of_job c) js"
    "job_list_ok js" "pg_view c st = list_view js es"
    using pg_invE [OF assms(1)] by blast
  have distinct: "distinct (map job_id js)" using rep(4) by (simp add: job_list_ok_def)
  have found: "find (\<lambda>j. job_id j = i) js = Some j" using assms(2) by (simp add: rep(5) list_view_def)
  have j: "j \<in> set js" "job_id j = i" using find_SomeD [OF found] by simp_all
  have unique: "x = j" if "x \<in> set js" "job_id x = i" for x
    using find_by_id [OF distinct, of i x] found that by simp
  have selects: "r_id (row_of_job c x) = to_string c i \<longleftrightarrow> job_id x = i \<and> x = j" if "x \<in> set js" for x
    using unique [OF that] by (auto simp: row_of_job_sel(1) rep(1))
  let ?js = "update_jobs (\<lambda>x. x = j) (claim_job expiry who) i js"
  have "snd (sql_update (\<lambda>x. r_id x = to_string c i) (claim_row expiry who) (map (row_of_job c) js)) =
      map (row_of_job c) ?js"
    using sql_update_rows [where p = "\<lambda>x. r_id x = to_string c i" and g = "\<lambda>x. x = j"
        and f = "claim_row expiry who" and f' = "claim_job expiry who", OF selects claim_row_of_job] by simp
  moreover have "0 \<le> sint (job_run_count j)" "job_wf j" using j(1) rep(4) by (simp_all add: job_list_ok_def)
  then have ok: "job_list_ok ?js"
    using assms(3,4) by (intro job_list_ok_update [OF rep(4)])
      (auto simp: job_wf_claim sint_i32_succ job_run_count_claim)
  ultimately have rep': "pg_rep c st' ?js es"
    by (intro pg_repI [OF rep(2)]) (simp_all add: st'_def rep(3) update_jobs_ids)
  then show "pg_inv c st'" using rep(1) by (auto simp: pg_inv_def)
  have "filter (\<lambda>x. job_id x = i \<and> x = j) js \<noteq> []" using j by (auto simp: filter_empty_conv)
  then have "guarded (\<lambda>x. x = j) (claim_job expiry who) [] i (list_view js es) = (True, list_view ?js es)"
    using list_view_guarded [OF rep(4), of "claim_job expiry who" "[]" i "\<lambda>x. x = j" es] by simp
  then show "pg_view c st' = (pg_view c st)\<lparr>a_job := (a_job (pg_view c st))(i \<mapsto> claim_job expiry who j)\<rparr>"
    using assms(2) by (simp add: pg_view_rep [OF rep(1) rep'] rep(5) guarded_def)
qed

lemma pg_claim_none:
  assumes "pg_inv c st" "pg_claim_candidates e ks fl st = []"
    and "a_job (pg_view c st) i = Some j" "claimable (env_now e) ks fl j"
  shows "env_locked e (to_string c i)"
proof -
  obtain js es where rep: "jobs_tbl st = map (row_of_job c) js" "pg_view c st = list_view js es"
    using pg_invE [OF assms(1)] by metis
  have "j \<in> set js" "job_id j = i" using assms(3) by (auto simp: rep(2) list_view_def dest: find_SomeD)
  with assms(2,4) show ?thesis
    by (fastforce simp: pg_claim_candidates_def sort_key_Nil_iff rep(1) filter_empty_conv row_simps claimable_def)
qed

text \<open>
  Every outcome of a claim: it leaves the store as it was, or it is a claim of the specification
  whose record it returns unless the acknowledgement is lost.
\<close>

lemma pg_claim_cases:
  assumes "pg_inv c st"
  obtains (unchanged) x where "pg_claim_next c e ks fl ls by st = (Inl x, st)"
    | (nothing) "pg_claim_next c e ks fl ls by st = (Inr None, st)"
        "spec_claim (\<lambda>i. env_locked e (to_string c i)) (env_now e) ks fl ls by (pg_view c st) None (pg_view c st)"
    | (claimed) r j st' where "pg_claim_next c e ks fl ls by st = (r, st')" "pg_inv c st'"
        "r = Inr (Some j) \<or> (\<exists>x. r = Inl x)"
        "spec_claim (\<lambda>i. env_locked e (to_string c i)) (env_now e) ks fl ls by (pg_view c st) (Some j) (pg_view c st')"
proof (cases "pg_claim_candidates e ks fl st")
  case Nil
  then have "pg_claim_next c e ks fl ls by st = transact e st (Inr None, st)"
    by (simp add: pg_claim_next_def)
  with pg_claim_none [OF assms Nil] that(1,2) show thesis
    by (cases "env_fault e") (auto simp: transact_def spec_claim_def split: fault.splits)
next
  case (Cons r rs)
  obtain i j where ij: "r = row_of_job c j" "a_job (pg_view c st) i = Some j" "job_id j = i"
    "claimable (env_now e) ks fl j" "\<not> env_locked e (to_string c i)"
    "\<And>k l. a_job (pg_view c st) k = Some l \<Longrightarrow> claimable (env_now e) ks fl l \<Longrightarrow>
      \<not> env_locked e (to_string c k) \<Longrightarrow> claim_key j \<le> claim_key l" "0 \<le> sint (job_run_count j)"
    using pg_claim_candidate [OF assms Cons] by metis
  have codec: "ulid_codec_ok c" using assms by (simp add: pg_inv_def)
  let ?exp = "env_now e + int ls"
  let ?st = "st\<lparr>jobs_tbl := snd (sql_update (\<lambda>x. r_id x = to_string c i) (claim_row ?exp by) (jobs_tbl st))\<rparr>"
  let ?out = "transact e st (if sint (job_run_count j) = i32_max then (Inl integer_out_of_range, st)
    else (Inr (row_of_job c (claim_job ?exp by j)), ?st))"
  have eq: "pg_claim_next c e ks fl ls by st =
      (bind_ok (fst ?out) (\<lambda>row. bind_ok (job_from_row c row) (\<lambda>j. Inr (Some j))), snd ?out)"
    using ij(1,3) by (simp add: pg_claim_next_def Cons Let_def claim_row_of_job row_simps)
  show thesis
  proof (cases "sint (job_run_count j) = i32_max")
    case True
    with eq that(1) show thesis by (auto simp: transact_def split: option.splits fault.splits)
  next
    case False
    have "unat (job_run_count j) < u32_max"
      using ij(7) by (rule unat_nonneg_i32)
    note upd = pg_claim_update [OF assms ij(2) _ False, where who = "by" and expiry = ?exp]
    have spec: "spec_claim (\<lambda>i. env_locked e (to_string c i)) (env_now e) ks fl ls by (pg_view c st)
        (Some (claim_job ?exp by j)) (pg_view c ?st)"
      unfolding spec_claim_def option.case
      by (intro exI [of _ i] exI [of _ j] exI [of _ ?exp])
        (use ij upd(2) \<open>unat _ < _\<close> in \<open>auto simp: claimable_def\<close>)
    have "pg_inv c ?st" using upd(1) ij(4) by (simp add: claimable_def)
    with spec eq False codec that(1,3) show thesis
      by (cases "env_fault e") (auto simp: transact_def split: fault.splits)
  qed
qed

text \<open>
  Without a fault, a claim takes a job whenever an eligible one is free, unless the most urgent one
  has used up its run numbers.
\<close>

lemma pg_claim_takes:
  assumes "pg_inv c st" "env_fault e = None" "a_job (pg_view c st) i = Some j" "claimable (env_now e) ks fl j"
    and "\<not> env_locked e (to_string c i)"
  obtains (taken) j' st' where "pg_claim_next c e ks fl ls by st = (Inr (Some j'), st')"
    | (exhausted) k l where "a_job (pg_view c st) k = Some l" "claimable (env_now e) ks fl l"
        "claim_key l \<le> claim_key j" "sint (job_run_count l) = i32_max"
proof (cases "pg_claim_candidates e ks fl st")
  case Nil
  with pg_claim_none [OF assms(1) Nil assms(3,4)] assms(5) show thesis by simp
next
  case (Cons r rs)
  obtain k l where kl: "r = row_of_job c l" "a_job (pg_view c st) k = Some l" "claimable (env_now e) ks fl l"
    "\<And>k' l'. a_job (pg_view c st) k' = Some l' \<Longrightarrow> claimable (env_now e) ks fl l' \<Longrightarrow>
      \<not> env_locked e (to_string c k') \<Longrightarrow> claim_key l \<le> claim_key l'"
    using pg_claim_candidate [OF assms(1) Cons] by metis
  have codec: "ulid_codec_ok c" using assms(1) by (simp add: pg_inv_def)
  show thesis
  proof (cases "sint (job_run_count l) = i32_max")
    case True
    with exhausted [OF kl(2,3) kl(4) [OF assms(3-5)]] show thesis by simp
  next
    case False
    with kl(1) codec have "\<exists>j' st'. pg_claim_next c e ks fl ls by st = (Inr (Some j'), st')"
      by (simp add: pg_claim_next_def Cons Let_def claim_row_of_job row_simps transact_def assms(2))
    with taken show thesis by blast
  qed
qed

text \<open>A sweep deletes the jobs that satisfy every clause, and their journal with them.\<close>

lemma cleanup_clauses_of_job:
  "(\<forall>p \<in> set (cleanup_clauses cc). p (row_of_job c j)) \<longleftrightarrow> sweepable cc j"
  by (auto simp: cleanup_clauses_def sweepable_def row_simps split: option.split)

lemma find_filter_id:
  "distinct (map job_id js) \<Longrightarrow> find (\<lambda>j. job_id j = i) (filter p js) =
    (case find (\<lambda>j. job_id j = i) js of None \<Rightarrow> None | Some j \<Rightarrow> if p j then Some j else None)"
  by (induction js) (auto split: option.split dest!: find_SomeD)

lemma list_view_cleanup:
  fixes cc :: cleanup_criteria
  assumes "job_list_ok js" "entry_list_ok (job_id ` set js) n es"
  defines "gone \<equiv> job_id ` set (filter (sweepable cc) js)"
  shows "list_view (filter (\<lambda>j. \<not> sweepable cc j) js) (filter (\<lambda>x. fst (snd x) \<notin> gone) es) =
    spec_cleanup cc (list_view js es)"
proof -
  have distinct: "distinct (map job_id js)" using assms(1) by (simp add: job_list_ok_def)
  have gone: "i \<in> gone \<longleftrightarrow> (\<exists>j. find (\<lambda>j. job_id j = i) js = Some j \<and> sweepable cc j)" for i
    by (auto simp: gone_def find_by_id [OF distinct])
  have journal: "filter (\<lambda>x. fst (snd x) = i) (filter (\<lambda>x. fst (snd x) \<notin> gone) es) =
      (if i \<in> gone then [] else filter (\<lambda>x. fst (snd x) = i) es)" for i
    by (auto simp: filter_empty_conv intro: filter_cong)
  have jobs: "find (\<lambda>j. job_id j = i) (filter (\<lambda>j. \<not> sweepable cc j) js) =
      (if i \<in> gone then None else find (\<lambda>j. job_id j = i) js)" for i
    by (auto simp: find_filter_id [OF distinct] gone split: option.split)
  show ?thesis
    unfolding list_view_def spec_cleanup_def Let_def astore.simps gone [symmetric] journal jobs
    by (simp add: fun_eq_iff)
qed

lemma pg_cleanup_effect:
  assumes "pg_inv c st"
  shows "pg_inv c (snd (pg_cleanup e cc st))"
    and "pg_view c (snd (pg_cleanup e cc st)) = pg_view c st \<or>
      pg_view c (snd (pg_cleanup e cc st)) = spec_cleanup cc (pg_view c st)"
    and "pg_cleanup e cc st = (Inr n, st'') \<Longrightarrow> pg_view c st'' = spec_cleanup cc (pg_view c st)"
proof -
  obtain js es where rep: "ulid_codec_ok c" "pg_rep c st js es" "jobs_tbl st = map (row_of_job c) js"
    "job_list_ok js" "pg_view c st = list_view js es"
    using pg_invE [OF assms] by blast
  define gone where "gone = job_id ` set (filter (sweepable cc) js)"
  have rows: "filter (\<lambda>r. \<forall>p \<in> set (cleanup_clauses cc). p r) (jobs_tbl st) =
      map (row_of_job c) (filter (sweepable cc) js)"
    "filter (\<lambda>r. \<not> (\<forall>p \<in> set (cleanup_clauses cc). p r)) (jobs_tbl st) =
      map (row_of_job c) (filter (\<lambda>j. \<not> sweepable cc j) js)"
    by (simp_all only: rep(3) filter_map comp_def cleanup_clauses_of_job)
  have ids: "r_id ` set (map (row_of_job c) (filter (sweepable cc) js)) = to_string c ` gone"
    by (auto simp: gone_def row_of_job_sel(1) image_image)
  have entry: "jr_job_id (row_of_entry c n i ja) \<in> to_string c ` gone \<longleftrightarrow> i \<in> gone" for n i ja
    by (auto simp: row_of_entry_def rep(1))
  have journal: "journal_tbl st = map (\<lambda>x. row_of_entry c (fst x) (fst (snd x)) (snd (snd x))) es"
    using rep(2) by (simp add: pg_rep_def)
  define js' es' where "js' = filter (\<lambda>j. \<not> sweepable cc j) js"
    and "es' = filter (\<lambda>x. fst (snd x) \<notin> gone) es"
  obtain m st' where out: "pg_cleanup e cc st = transact e st (Inr m, st')" and rep': "pg_rep c st' js' es'"
  proof (rule that [OF _ _])
    show "pg_cleanup e cc st = transact e st
        (Inr (length (filter (sweepable cc) js)),
         st\<lparr>jobs_tbl := map (row_of_job c) js',
            journal_tbl := map (\<lambda>x. row_of_entry c (fst x) (fst (snd x)) (snd (snd x))) es'\<rparr>)"
      by (simp only: pg_cleanup_def Let_def rows ids journal filter_map comp_def entry length_map js'_def es'_def)
    show "pg_rep c (st\<lparr>jobs_tbl := map (row_of_job c) js',
            journal_tbl := map (\<lambda>x. row_of_entry c (fst x) (fst (snd x)) (snd (snd x))) es'\<rparr>) js' es'"
      using rep(2) by (fastforce simp: pg_rep_def job_list_ok_def entry_list_ok_def js'_def es'_def gone_def
          distinct_map_filter sorted_wrt_filter sorted_wrt_map)
  qed
  have inv': "pg_inv c st'" using rep(1) rep' by (auto simp: pg_inv_def)
  show "pg_inv c (snd (pg_cleanup e cc st))" using assms inv' by (simp add: out transact_inv)
  have "pg_view c st' = spec_cleanup cc (pg_view c st)"
    using list_view_cleanup [OF rep(4), of "journal_seq st" es cc] rep(2)
    by (simp add: pg_view_rep [OF rep(1) rep'] rep(5) js'_def es'_def gone_def pg_rep_def)
  then show "pg_view c (snd (pg_cleanup e cc st)) = pg_view c st \<or>
      pg_view c (snd (pg_cleanup e cc st)) = spec_cleanup cc (pg_view c st)"
    "pg_cleanup e cc st = (Inr n, st'') \<Longrightarrow> pg_view c st'' = spec_cleanup cc (pg_view c st)"
    by (auto simp: out transact_def split: option.splits fault.splits)
qed

section \<open>Each reading operation returns what the view holds\<close>

lemma fetch_Inr: "fetch e r = Inr v \<longleftrightarrow> env_fault e = None \<and> r = Inr v"
  by (auto simp: fetch_def split: option.split fault.split)

lemma collect_job_rows:
  "ulid_codec_ok c \<Longrightarrow> collect_results (job_from_row c) (map (row_of_job c) js) = Inr js"
  by (induction js) simp_all

lemma rows_of_jobs:
  assumes "set rows \<subseteq> set (map (row_of_job c) js)"
  obtains js' where "rows = map (row_of_job c) js'" "set js' \<subseteq> set js"
proof -
  have "rows \<in> lists (row_of_job c ` set js)" using assms by auto
  then obtain js' where "rows = map (row_of_job c) js'" "js' \<in> lists (set js)"
    by (auto simp: lists_image)
  then show thesis using that by auto
qed

lemma pg_journal_ok:
  assumes "pg_inv c st" "pg_journal c e i st = Inr rs"
  shows "map entry_of rs = a_journal (pg_view c st) i"
proof -
  obtain js es where rep: "ulid_codec_ok c" "pg_rep c st js es" "pg_view c st = list_view js es"
    using pg_invE [OF assms(1)] by metis
  let ?row = "\<lambda>x. row_of_entry c (fst x) (fst (snd x)) (snd (snd x))"
  let ?es = "filter (\<lambda>x. fst (snd x) = i) es"
  have "journal_tbl st = map ?row es" using rep(2) by (simp add: pg_rep_def)
  then have rows: "filter (\<lambda>x. jr_job_id x = to_string c i) (journal_tbl st) = map ?row ?es"
    by (simp add: filter_map comp_def row_of_entry_def rep(1))
  have "sorted_wrt (\<lambda>x y. fst x < fst y) es" using rep(2) by (simp add: pg_rep_def entry_list_ok_def sorted_wrt_map)
  then have "sorted_wrt (\<lambda>x y. fst x < fst y) ?es" by (rule sorted_wrt_filter)
  then have "sorted_wrt (\<lambda>x y. fst x \<le> fst y) ?es"
    by (rule sorted_wrt_mono_rel [rotated]) simp
  then have "sorted (map jr_id (map ?row ?es))" by (simp add: sorted_map row_of_entry_def comp_def)
  then have "collect_results (journal_from_row c) (map ?row ?es) = Inr rs"
    using assms(2) by (simp add: pg_journal_def bind_ok_eq_Inr fetch_Inr rows sort_key_id_if_sorted)
  moreover have "collect_results (journal_from_row c) (map ?row xs) = Inr ys \<Longrightarrow>
      map entry_of ys = map (\<lambda>x. snd (snd x)) xs" for xs ys
    by (induction xs arbitrary: ys)
      (auto simp: rep(1) bind_ok_eq_Inr entry_of_def split: sum.splits)
  ultimately show ?thesis by (simp add: rep(3) list_view_def)
qed

lemma pg_job_ok: "pg_inv c st \<Longrightarrow> pg_job c e i st = Inr r \<Longrightarrow> r = a_job (pg_view c st) i"
  by (erule pg_invE) (auto simp: pg_job_def bind_ok_eq_Inr fetch_Inr find_map list_view_def transpose_row_def
      row_of_job_sel(1) split: option.splits)

lemma pg_find_stale_ok:
  assumes "pg_inv c st" "pg_find_stale c e st = Inr stale" "j \<in> set stale"
  shows "a_job (pg_view c st) (job_id j) = Some j" "expired (env_now e) (job_run_count j) j"
proof -
  obtain js es where rep: "ulid_codec_ok c" "jobs_tbl st = map (row_of_job c) js" "job_list_ok js"
    "pg_view c st = list_view js es"
    using pg_invE [OF assms(1)] by metis
  let ?rows = "take 100 (sort_key (\<lambda>r. (the (r_claim_expires_at r), env_plan e (r_id r)))
    (filter (expired_row (env_now e)) (jobs_tbl st)))"
  have sub: "set ?rows \<subseteq> set (map (row_of_job c) js)"
    by (auto dest!: in_set_takeD simp: rep(2))
  obtain js' where js': "?rows = map (row_of_job c) js'" "set js' \<subseteq> set js"
    using rows_of_jobs [OF sub] by metis
  have "stale = js'"
    using assms(2) by (simp add: pg_find_stale_def bind_ok_eq_Inr fetch_Inr js'(1) collect_job_rows rep(1))
  with js' assms(3) have j: "j \<in> set js" "row_of_job c j \<in> set ?rows" by auto
  then have "expired_row (env_now e) (row_of_job c j)" by (auto dest!: in_set_takeD)
  then show "expired (env_now e) (job_run_count j) j"
    using expired_row_of_job [of "env_now e" c j "job_run_count j"] by (simp add: row_of_job_sel)
  show "a_job (pg_view c st) (job_id j) = Some j"
    using j(1) rep(3) by (simp add: rep(4) list_view_def find_by_id job_list_ok_def)
qed

lemma pg_dedup_cases:
  assumes "pg_inv c st" "pg_dedup_candidate c e k key st = Inr r"
  defines "dup \<equiv> \<lambda>j. job_kind j = k \<and> job_dedup_key j = Some key \<and> job_status j = Pending"
  shows "r = None \<Longrightarrow> a_job (pg_view c st) i = Some j \<Longrightarrow> \<not> dup j"
    and "r = Some j \<Longrightarrow> a_job (pg_view c st) (job_id j) = Some j \<and> dup j"
    and "r = Some j \<Longrightarrow> a_job (pg_view c st) i = Some l \<Longrightarrow> dup l \<Longrightarrow> job_created_at j \<le> job_created_at l"
proof -
  obtain js es where rep: "ulid_codec_ok c" "jobs_tbl st = map (row_of_job c) js" "job_list_ok js"
    "pg_view c st = list_view js es"
    using pg_invE [OF assms(1)] by metis
  let ?sorted = "sort_key (\<lambda>r. (r_created_at r, env_plan e (r_id r)))
    (map (row_of_job c) (filter dup js))"
  have "filter (\<lambda>r. r_kind r = k \<and> r_dedup_key r = Some key \<and> r_status r = ''pending'') (jobs_tbl st) =
      map (row_of_job c) (filter dup js)"
    by (simp add: rep(2) filter_map comp_def row_simps dup_def)
  then have r: "transpose_row c (first_row ?sorted) = Inr r"
    using assms(2) by (simp add: pg_dedup_candidate_def bind_ok_eq_Inr fetch_Inr)
  have member: "l \<in> set js" if "a_job (pg_view c st) i = Some l" for i l
    using that by (auto simp: rep(4) list_view_def dest: find_SomeD)
  show "\<not> dup j" if "r = None" "a_job (pg_view c st) i = Some j"
  proof -
    have "?sorted = []" using r that(1) by (cases ?sorted) (auto simp: first_row_def transpose_row_def bind_ok_eq_Inr)
    then show ?thesis using member [OF that(2)] by (auto simp: sort_key_Nil_iff filter_empty_conv)
  qed
  assume "r = Some j"
  then obtain row rows where hd: "?sorted = row # rows" "job_from_row c row = Inr j"
    using r by (cases ?sorted) (auto simp: first_row_def transpose_row_def bind_ok_eq_Inr)
  note least = sort_key_hd [OF hd(1)]
  from least(1) hd(2) have j: "j \<in> set js" "dup j" "row = row_of_job c j" by (auto simp: rep(1))
  then show "a_job (pg_view c st) (job_id j) = Some j \<and> dup j"
    using rep(3) by (simp add: rep(4) list_view_def find_by_id job_list_ok_def)
  show "job_created_at j \<le> job_created_at l" if "a_job (pg_view c st) i = Some l" "dup l"
    using least(2) [of "row_of_job c l"] member [OF that(1)] that(2) by (auto simp: j(3) row_of_job_sel)
qed

lemma pg_next_visible_ok:
  assumes "pg_inv c st" "pg_next_visible_at e ks st = Inr upcoming"
  shows "case upcoming of
      None \<Rightarrow> \<forall>i j. a_job (pg_view c st) i = Some j \<and> job_status j = Pending \<and> job_kind j \<in> set ks \<longrightarrow>
        job_visible_at j \<le> env_now e
    | Some t \<Rightarrow> env_now e < t \<and>
        (\<forall>i j. a_job (pg_view c st) i = Some j \<and> job_status j = Pending \<and> job_kind j \<in> set ks \<longrightarrow>
          job_visible_at j \<le> env_now e \<or> t \<le> job_visible_at j)"
proof -
  obtain js es where rep: "jobs_tbl st = map (row_of_job c) js" "pg_view c st = list_view js es"
    using pg_invE [OF assms(1)] by metis
  define ts where "ts = map job_visible_at
    (filter (\<lambda>j. job_status j = Pending \<and> job_kind j \<in> set ks \<and> env_now e < job_visible_at j) js)"
  have up: "upcoming = (if ts = [] then None else Some (Min (set ts)))"
    using assms(2) by (auto simp: pg_next_visible_at_def Let_def fetch_Inr rep(1) filter_map comp_def row_simps ts_def)
  have member: "job_visible_at j \<in> set ts"
    if "a_job (pg_view c st) i = Some j" "job_status j = Pending" "job_kind j \<in> set ks"
      "env_now e < job_visible_at j" for i j
    using that by (auto simp: rep(2) list_view_def ts_def dest!: find_SomeD)
  have "env_now e < Min (set ts)" if "ts \<noteq> []"
    using that by (simp add: Min_gr_iff) (auto simp: ts_def)
  moreover have "Min (set ts) \<le> t" if "t \<in> set ts" for t
    using that by simp
  ultimately show ?thesis
    using member unfolding up by (cases "ts = []") (fastforce simp del: Min_le_iff Min_gr_iff simp: not_le [symmetric])+
qed

lemma pg_view_wf: "pg_inv c st \<Longrightarrow> astore_wf (pg_view c st)"
proof (erule pg_invE)
  fix js es
  assume "pg_rep c st js es" "job_list_ok js" "pg_view c st = list_view js es"
  then show "astore_wf (pg_view c st)"
    by (fastforce simp: astore_wf_def list_view_def job_list_ok_def find_None_iff filter_empty_conv pg_rep_def
        entry_list_ok_def dest: find_SomeD)
qed

lemma jobs_in_rep:
  assumes "job_list_ok js"
  shows "jobs_in (list_view js es) s k = set (filter (\<lambda>j. job_status j = s \<and> job_kind j = k) js)"
    and "{j. \<exists>i. a_job (list_view js es) i = Some j \<and> P j} = set (filter P js)"
    and "card (set (filter P js)) = length (filter P js)"
proof -
  have ids: "distinct (map job_id js)" using assms by (simp add: job_list_ok_def)
  then show "jobs_in (list_view js es) s k = set (filter (\<lambda>j. job_status j = s \<and> job_kind j = k) js)"
    "{j. \<exists>i. a_job (list_view js es) i = Some j \<and> P j} = set (filter P js)"
    by (auto simp: jobs_in_def list_view_def find_by_id)
  show "card (set (filter P js)) = length (filter P js)"
    using ids by (intro distinct_card distinct_filter) (simp add: distinct_map)
qed

lemma pg_cleanup_ok:
  assumes "pg_inv c st" "pg_cleanup e cc st = (Inr n, st')"
  shows "n = card {j. \<exists>i. a_job (pg_view c st) i = Some j \<and> sweepable cc j} \<and> pg_view c st' = spec_cleanup cc (pg_view c st)"
proof
  obtain js es where rep: "jobs_tbl st = map (row_of_job c) js" "job_list_ok js" "pg_view c st = list_view js es"
    using pg_invE [OF assms(1)] by metis
  have "filter (\<lambda>r. \<forall>p \<in> set (cleanup_clauses cc). p r) (jobs_tbl st) = map (row_of_job c) (filter (sweepable cc) js)"
    by (simp only: rep(1) filter_map comp_def cleanup_clauses_of_job)
  with assms(2) have "n = length (filter (sweepable cc) js)"
    by (simp add: pg_cleanup_def Let_def transact_def split: option.splits fault.splits)
  then show "n = card {j. \<exists>i. a_job (pg_view c st) i = Some j \<and> sweepable cc j}"
    unfolding rep(3) jobs_in_rep(2) [OF rep(2)] jobs_in_rep(3) [OF rep(2)] .
qed (rule pg_cleanup_effect(3) [OF assms])

lemma pg_stats_ok:
  assumes "pg_inv c st" "pg_stats e now st st st = Inr sn"
  shows "sn = spec_stats now (pg_view c st)"
proof -
  obtain js es where rep: "jobs_tbl st = map (row_of_job c) js" "job_list_ok js" "pg_view c st = list_view js es"
    using pg_invE [OF assms(1)] by metis
  note js = jobs_in_rep [OF rep(2)]
  define F where "F = (\<lambda>s k. filter (\<lambda>j. job_status j = s \<and> job_kind j = k) js)"
  have F: "jobs_in (pg_view c st) s k = set (F s k)" "card (set (F s k)) = length (F s k)" for s k
    unfolding F_def rep(3) by (rule js(1), rule js(3))
  have rows: "rows_in (status_as_str s) k st = map (row_of_job c) (F s k)" for s k
    by (simp add: rows_in_def rep(1) filter_map comp_def row_simps F_def)
  have count: "count_by_kind (status_as_str s) st =
      (\<lambda>k. if jobs_in (pg_view c st) s k = {} then None else Some (card (jobs_in (pg_view c st) s k)))" for s
    by (simp add: fun_eq_iff count_by_kind_def Let_def rows F)
  have pending: "r_created_at ` set (rows_in ''pending'' k st) = job_created_at ` jobs_in (pg_view c st) Pending k"
    "rows_in ''pending'' k st = [] \<longleftrightarrow> jobs_in (pg_view c st) Pending k = {}" for k
    using rows [of Pending k] by (simp_all add: F image_image row_simps)
  have "card {j. \<exists>i. a_job (pg_view c st) i = Some j \<and> job_status j = Claimed} =
      length (filter (\<lambda>r. r_status r = status_as_str Claimed) (jobs_tbl st))"
    unfolding rep(3) js(2) js(3) by (simp only: rep(1) filter_map comp_def row_simps length_map status_column.encode_inject)
  with assms(2) count [of Pending] count [of Dead] show ?thesis
    by (simp add: pg_stats_def fetch_Inr spec_stats_def Let_def pending cong: if_cong)
qed

section \<open>The adapter is a store\<close>

lemma pg_ops_sel:
  "so_enqueue (pg_ops c) = pg_enqueue c" "so_settle (pg_ops c) = pg_settle c"
  "so_journal (pg_ops c) = pg_journal c" "so_next_visible_at (pg_ops c) = pg_next_visible_at"
  "so_dedup_candidate (pg_ops c) = pg_dedup_candidate c" "so_find_stale (pg_ops c) = pg_find_stale c"
  "so_recover (pg_ops c) = pg_recover c" "so_extend_lease (pg_ops c) = pg_extend_lease c"
  "so_job (pg_ops c) = pg_job c" "so_cleanup (pg_ops c) = pg_cleanup"
  "so_merge_into (pg_ops c) = pg_merge_into c" "so_stats (pg_ops c) = pg_stats"
  by (simp_all add: pg_ops_def)

lemma pg_enqueue_invalid:
  "new_priority nj \<notin> {0, 1, 2} \<Longrightarrow> pg_enqueue c e nj st = (Inl (InvalidPriority (new_priority nj)), st)"
  by (simp add: pg_enqueue_def validate_def from_smallint_None)

lemma pg_extend_lease_law:
  "pg_inv c st \<Longrightarrow> \<exists>expiry. env_now e \<le> expiry \<and> expiry \<le> env_now e + int ls \<and>
    conforms (pg_view c) st (pg_extend_lease c e i by rn ls st) (spec_extend expiry by rn i (pg_view c st))"
  using pg_extend_conforms(2) [of c st e i "by" rn ls] by (intro exI [of _ "env_now e + int ls"]) simp

lemma pg_find_stale_law:
  "pg_inv c st \<Longrightarrow> pg_find_stale c e st = Inr js \<Longrightarrow> j \<in> set js \<Longrightarrow>
    a_job (pg_view c st) (job_id j) = Some j \<and> expired (env_now e) (job_run_count j) j"
  using pg_find_stale_ok by blast

lemma pg_dedup_laws:
  "pg_inv c st \<Longrightarrow> pg_dedup_candidate c e k key st = Inr None \<Longrightarrow> a_job (pg_view c st) i = Some j \<Longrightarrow>
    \<not> (job_kind j = k \<and> job_dedup_key j = Some key \<and> job_status j = Pending)"
  "pg_inv c st \<Longrightarrow> pg_dedup_candidate c e k key st = Inr (Some j) \<Longrightarrow>
    a_job (pg_view c st) (job_id j) = Some j \<and> job_kind j = k \<and> job_dedup_key j = Some key \<and>
    job_status j = Pending \<and>
    (\<forall>i l. a_job (pg_view c st) i = Some l \<and> job_kind l = k \<and> job_dedup_key l = Some key \<and>
      job_status l = Pending \<longrightarrow> job_created_at j \<le> job_created_at l)"
  using pg_dedup_cases(1) [of c st e k key None] pg_dedup_cases(2,3) [of c st e k key "Some j" j] by blast+

lemma pg_run_count_nonneg:
  "pg_inv c st \<Longrightarrow> a_job (pg_view c st) i = Some j \<Longrightarrow> 0 \<le> sint (job_run_count j)"
  by (erule pg_invE) (auto simp: list_view_def job_list_ok_def dest: find_SomeD)

lemma transact_responds: "env_fault e = None \<Longrightarrow> fst (transact e s (Inr v, s1)) = Inr v"
  by (simp add: transact_def)

lemma pg_responds:
  assumes "pg_inv c st" "env_fault e = None" "a_job (pg_view c st) i = Some j" "rn = job_run_count j"
    and "app_run_no ja = job_run_count j"
  shows "(\<exists>v. fst (pg_settle c e i by rn stl ja st) = Inr v) \<and>
    (\<exists>v. fst (pg_recover c e i vis fc rn ja st) = Inr v) \<and>
    (merge_valid u \<longrightarrow> (\<exists>v. fst (pg_merge_into c e i u ja st) = Inr v))"
proof -
  have rn: "run_no_to_db rn = Inr rn" "run_no_to_db (app_run_no ja) = Inr (app_run_no ja)"
    using pg_run_count_nonneg [OF assms(1,3)] assms(4,5) by (simp_all add: run_no_to_db_def)
  have "merge_valid u \<Longrightarrow> priority_check u"
    by (auto simp: priority_check_def merge_valid_def split: option.split)
  then show ?thesis
    by (auto simp: pg_settle_def pg_recover_def pg_merge_into_def Let_def rn
        transact_responds [OF assms(2)] split: prod.split)
qed

lemma pg_extend_responds:
  assumes "pg_inv c st" "env_fault e = None" "a_job (pg_view c st) i = Some j" "rn = job_run_count j"
  shows "\<exists>v. fst (pg_extend_lease c e i by rn ls st) = Inr v"
proof -
  have "run_no_to_db rn = Inr rn" using pg_run_count_nonneg [OF assms(1,3)] assms(4) by (simp add: run_no_to_db_def)
  then show ?thesis by (simp add: pg_extend_lease_def Let_def transact_responds [OF assms(2)] split: prod.split)
qed

lemma pg_enqueue_responds:
  assumes "pg_inv c st" "env_fault e = None" "new_priority nj \<in> {0, 1, 2}"
    and "a_job (pg_view c st) (new_id nj) = None"
  shows "fst (pg_enqueue c e nj st) = Inr ()"
proof -
  have "to_string c (new_id nj) \<notin> r_id ` set (jobs_tbl st)"
    using assms(4) by (rule_tac pg_invE [OF assms(1)]) (auto simp: list_view_def find_None_iff row_simps)
  then show ?thesis
    using validate_iff [THEN iffD2, OF assms(3)] by (simp add: pg_enqueue_eq transact_responds [OF assms(2)])
qed

lemmas pg_read_laws = pg_view_wf pg_journal_ok pg_job_ok pg_find_stale_law pg_dedup_laws pg_next_visible_ok pg_stats_ok

interpretation pg_reads: store_reads "pg_ops c" "pg_inv c" "pg_view c"
  for c
  by unfold_locales (unfold pg_ops_sel, (assumption | rule pg_read_laws)+)

lemmas pg_laws = pg_enqueue_invalid pg_enqueue_inv pg_enqueue_conforms pg_settle_conforms
  pg_recover_conforms pg_extend_conforms(1) pg_extend_lease_law pg_merge_conforms pg_responds pg_extend_responds pg_enqueue_responds
  pg_cleanup_effect(1,2) pg_cleanup_ok

interpretation pg: store_contract "pg_ops c" "pg_inv c" "pg_view c" "\<lambda>e i. env_locked e (to_string c i)"
  for c
proof unfold_locales
  fix s e ks fl ls "by" r s' x
  assume inv: "pg_inv c s"
  show "pg_inv c (snd (so_claim_next (pg_ops c) e ks fl ls by s))"
    by (rule pg_claim_cases [OF inv, of e ks fl ls "by"]) (simp_all add: pg_ops_def inv)
  show "spec_claim (\<lambda>i. env_locked e (to_string c i)) (env_now e) ks fl ls by (pg_view c s) r (pg_view c s')"
    if "so_claim_next (pg_ops c) e ks fl ls by s = (Inr r, s')"
    by (rule pg_claim_cases [OF inv, of e ks fl ls "by"]) (use that in \<open>auto simp: pg_ops_def\<close>)
  show "pg_view c s' = pg_view c s \<or>
      (\<exists>r. spec_claim (\<lambda>i. env_locked e (to_string c i)) (env_now e) ks fl ls by (pg_view c s) r (pg_view c s'))"
    if "so_claim_next (pg_ops c) e ks fl ls by s = (Inl x, s')"
    by (rule pg_claim_cases [OF inv, of e ks fl ls "by"]) (use that in \<open>auto simp: pg_ops_def\<close>)
qed (unfold pg_ops_sel, (assumption | rule pg_laws)+)

end
