(* ===== verification/Backoff.thy ===== *)
theory Backoff
  imports Venturi_Prelude
begin

text \<open>
  The retry backoff of \<^verbatim>\<open>src/backoff.rs\<close>: the clamped configuration, the saturating Fibonacci
  curve in 64-bit and 128-bit arithmetic, the SplitMix64 jitter sample, and the realised delay in
  64-bit floating point. Floating-point values are reals together with the special values; the
  rounding of an operation's exact result is a parameter \<open>rnd\<close>, about which the theorems assume
  what IEEE 754 guarantees of binary64 (\<open>f64_rounding\<close>).
\<close>

section \<open>Definitions\<close>

definition MIN_BASE :: duration where
  "MIN_BASE = 1000000"

record backoff =
  base :: duration
  cap :: duration

definition backoff_new :: "duration \<Rightarrow> duration \<Rightarrow> backoff" where
  "backoff_new b c =
     (let b' = max b MIN_BASE; c' = max c b' in \<lparr>base = b', cap = c'\<rparr>)"

definition backoff_default :: backoff where
  "backoff_default = \<lparr>base = 500 * 1000000, cap = 120 * 1000000000\<rparr>"

text \<open>The loop body of \<^verbatim>\<open>fib_minus_one\<close>, run \<open>k\<close> times.\<close>

fun fib_loop :: "nat \<Rightarrow> u64 \<Rightarrow> u64 \<Rightarrow> u64" where
  "fib_loop 0 prev cur = cur"
| "fib_loop (Suc k) prev cur = fib_loop k cur (u64_saturating_add prev cur)"

definition fib_minus_one :: "u32 \<Rightarrow> u64" where
  "fib_minus_one n =
     (if n \<le> 2 then 0 else u64_saturating_sub (fib_loop (unat n - 2) 1 1) 1)"

definition base_delay :: "backoff \<Rightarrow> u32 \<Rightarrow> duration" where
  "base_delay bo attempt =
     (let multiplier = unat (fib_minus_one attempt);
          delay = min (u128_saturating_mul (base bo) multiplier) (cap bo)
      in min delay u64_max)"

definition splitmix64 :: "u64 \<Rightarrow> u64" where
  "splitmix64 seed =
     (let z = seed + 0x9E3779B97F4A7C15;
          z = (z XOR drop_bit 30 z) * 0xBF58476D1CE4E5B9;
          z = (z XOR drop_bit 27 z) * 0x94D049BB133111EB
      in z XOR drop_bit 31 z)"

text \<open>The two big-endian halves of the ULID's bytes and the mixed 64-bit sample.\<close>

definition jitter_mix :: "ulid \<Rightarrow> u32 \<Rightarrow> u64" where
  "jitter_mix uid attempt =
     (let hi = ucast (drop_bit 64 uid); lo = ucast uid
      in splitmix64 (hi XOR splitmix64 (lo XOR ucast attempt)))"

subsection \<open>Floating point\<close>

datatype f64 = NaN | PInf | NInf | Fin real

text \<open>\<open>f64_signed_inf x\<close> is the infinity with the sign of \<open>x\<close>, and NaN for zero.\<close>

definition f64_signed_inf :: "real \<Rightarrow> f64" where
  "f64_signed_inf x = (if x = 0 then NaN else if 0 < x then PInf else NInf)"

fun f64_clamp :: "real \<Rightarrow> real \<Rightarrow> f64 \<Rightarrow> f64" where
  "f64_clamp lo hi NaN = NaN"
| "f64_clamp lo hi PInf = Fin hi"
| "f64_clamp lo hi NInf = Fin lo"
| "f64_clamp lo hi (Fin x) = Fin (max lo (min hi x))"

fun f64_sub :: "(real \<Rightarrow> real) \<Rightarrow> f64 \<Rightarrow> f64 \<Rightarrow> f64" where
  "f64_sub rnd (Fin x) (Fin y) = Fin (rnd (x - y))"
| "f64_sub rnd (Fin x) PInf = NInf"
| "f64_sub rnd (Fin x) NInf = PInf"
| "f64_sub rnd PInf (Fin y) = PInf"
| "f64_sub rnd NInf (Fin y) = NInf"
| "f64_sub rnd PInf NInf = PInf"
| "f64_sub rnd NInf PInf = NInf"
| "f64_sub rnd _ _ = NaN"

fun f64_mul :: "(real \<Rightarrow> real) \<Rightarrow> f64 \<Rightarrow> f64 \<Rightarrow> f64" where
  "f64_mul rnd (Fin x) (Fin y) = Fin (rnd (x * y))"
| "f64_mul rnd (Fin x) PInf = f64_signed_inf x"
| "f64_mul rnd PInf (Fin x) = f64_signed_inf x"
| "f64_mul rnd (Fin x) NInf = f64_signed_inf (- x)"
| "f64_mul rnd NInf (Fin x) = f64_signed_inf (- x)"
| "f64_mul rnd PInf PInf = PInf"
| "f64_mul rnd NInf NInf = PInf"
| "f64_mul rnd PInf NInf = NInf"
| "f64_mul rnd NInf PInf = NInf"
| "f64_mul rnd _ _ = NaN"

text \<open>\<^verbatim>\<open>x as u64\<close>: truncation, saturating, with NaN going to zero.\<close>

fun f64_as_u64 :: "f64 \<Rightarrow> nat" where
  "f64_as_u64 NaN = 0"
| "f64_as_u64 PInf = u64_max"
| "f64_as_u64 NInf = 0"
| "f64_as_u64 (Fin x) = min (nat \<lfloor>x\<rfloor>) u64_max"

definition jitter_unit :: "(real \<Rightarrow> real) \<Rightarrow> ulid \<Rightarrow> u32 \<Rightarrow> f64" where
  "jitter_unit rnd uid attempt =
     (let mixed = jitter_mix uid attempt
      in Fin (rnd (rnd (real (unat (drop_bit 11 mixed))) / rnd (2 ^ 53))))"

definition retry_delay :: "(real \<Rightarrow> real) \<Rightarrow> backoff \<Rightarrow> f64 \<Rightarrow> u32 \<Rightarrow> ulid \<Rightarrow> duration" where
  "retry_delay rnd bo fraction attempt uid =
     (let delay = base_delay bo attempt
      in if delay = 0 then 0
         else
           let fraction = f64_clamp 0 1 fraction;
               unit = jitter_unit rnd uid attempt;
               factor = f64_sub rnd (Fin 1) (f64_mul rnd fraction (f64_sub rnd (Fin 1) unit));
               nanos = f64_mul rnd (Fin (rnd (real delay))) factor
           in f64_as_u64 nanos)"

text \<open>
  What the theorems assume of binary64 rounding: it is monotone and fixes every integer up to
  \<open>2 ^ 53\<close>, which binary64 represents exactly.
\<close>

definition f64_rounding :: "(real \<Rightarrow> real) \<Rightarrow> bool" where
  "f64_rounding rnd \<longleftrightarrow> mono rnd \<and> (\<forall>n::nat. n \<le> 2 ^ 53 \<longrightarrow> rnd (real n) = real n)"

text \<open>A configuration built by \<^verbatim>\<open>Backoff::new\<close> or the default.\<close>

definition backoff_wf :: "backoff \<Rightarrow> bool" where
  "backoff_wf bo \<longleftrightarrow> MIN_BASE \<le> base bo \<and> base bo \<le> cap bo"

text \<open>The Fibonacci numbers, for reference.\<close>

fun fib :: "nat \<Rightarrow> nat" where
  "fib 0 = 0"
| "fib (Suc 0) = 1"
| "fib (Suc (Suc n)) = fib n + fib (Suc n)"

section \<open>The curve\<close>

lemma backoff_new_wf: "backoff_wf (backoff_new b c)"
  by (simp add: backoff_wf_def backoff_new_def Let_def)

lemma backoff_default_wf: "backoff_wf backoff_default"
  by (simp add: backoff_wf_def backoff_default_def MIN_BASE_def)

lemma fib_mono: "m \<le> n \<Longrightarrow> fib m \<le> fib n"
proof (induction n rule: fib.induct)
  case (3 n)
  then show ?case by (cases "m = Suc (Suc n)") (auto simp: le_Suc_eq)
qed (auto simp: le_Suc_eq)

lemma fib_pos: "0 < n \<Longrightarrow> 0 < fib n"
  using fib_mono [of 1 n] by simp

lemma unat_fib_loop:
  assumes "unat prev = min (fib m) u64_max" "unat cur = min (fib (Suc m)) u64_max"
  shows "unat (fib_loop k prev cur) = min (fib (Suc m + k)) u64_max"
  using assms
proof (induction k arbitrary: prev cur m)
  case (Suc k)
  have "unat (u64_saturating_add prev cur) = min (fib (Suc (Suc m))) u64_max"
    using Suc.prems by (simp add: unat_u64_saturating_add)
  from Suc.IH [OF Suc.prems(2) this] show ?case by simp
qed simp

lemma unat_fib_minus_one:
  "unat (fib_minus_one n) = min (fib (unat n)) u64_max - 1"
proof (cases "n \<le> 2")
  case True
  then have "unat n \<le> 2" by (simp add: word_le_nat_alt)
  then have "fib (unat n) \<le> 1" using fib_mono [of "unat n" 2] by (simp add: numeral_2_eq_2)
  with True show ?thesis by (simp add: fib_minus_one_def)
next
  case False
  then have "2 < unat n" by (simp add: word_le_nat_alt)
  then have "Suc 1 + (unat n - 2) = unat n" by simp
  moreover have "unat (fib_loop (unat n - 2) 1 1) = min (fib (Suc 1 + (unat n - 2))) u64_max"
    by (rule unat_fib_loop) (simp_all add: u64_max_def)
  ultimately show ?thesis using False by (simp add: fib_minus_one_def unat_u64_saturating_sub)
qed

lemma base_delay_first_two: "attempt \<le> 2 \<Longrightarrow> base_delay bo attempt = 0"
  by (simp add: base_delay_def fib_minus_one_def Let_def u128_saturating_mul_def)

text \<open>
  None of the three saturations is visible: where one takes effect, the 64-bit clip of the result
  is reached anyway.
\<close>

lemma base_delay_closed_form:
  assumes "2 \<le> base bo"
  shows "base_delay bo attempt =
    min (base bo * (fib (unat attempt) - 1)) (min (cap bo) u64_max)"
proof (cases "fib (unat attempt) \<le> u64_max")
  case True
  have "u64_max \<le> u128_max" by (simp add: int_limits)
  with True show ?thesis
    by (simp add: base_delay_def unat_fib_minus_one u128_saturating_mul_def Let_def min_def)
next
  case False
  have "u64_max \<le> 2 * (u64_max - 1)" by (simp add: u64_max_def)
  also have "\<dots> \<le> base bo * (u64_max - 1)" using assms by (rule mult_le_mono1)
  finally have lo: "u64_max \<le> base bo * (u64_max - 1)" .
  also have "\<dots> \<le> base bo * (fib (unat attempt) - 1)" using False by (intro mult_le_mono2) simp
  finally have hi: "u64_max \<le> base bo * (fib (unat attempt) - 1)" .
  have "u64_max \<le> u128_max" by (simp add: int_limits)
  with False lo hi show ?thesis
    by (simp add: base_delay_def unat_fib_minus_one u128_saturating_mul_def Let_def min_def)
qed

lemma base_delay_le_cap: "base_delay bo attempt \<le> cap bo"
  by (simp add: base_delay_def Let_def)

lemma base_delay_le_u64: "base_delay bo attempt \<le> u64_max"
  by (simp add: base_delay_def Let_def)

lemma backoff_wf_base: "backoff_wf bo \<Longrightarrow> 2 \<le> base bo"
  by (simp add: backoff_wf_def MIN_BASE_def)

section \<open>The mixer is injective\<close>

lemma xorshift_inj:
  fixes x y :: "'a::len word"
  assumes "0 < k" "x XOR drop_bit k x = y XOR drop_bit k y"
  shows "x = y"
proof -
  let ?d = "x XOR y"
  have "?d = drop_bit k ?d"
    using assms(2) by (metis (no_types) drop_bit_xor xor.assoc xor.commute xor_self_eq xor.left_neutral)
  then have "unat ?d = unat ?d div 2 ^ k" by (metis unat_drop_bit_eq drop_bit_eq_div)
  then have "unat ?d = 0"
    using assms(1) by (metis div_eq_dividend_iff not_gr0 one_less_numeral_iff one_less_power
        semiring_norm(76) nat_neq_iff)
  then have "?d = 0" by (simp add: unsigned_eq_0_iff)
  then show ?thesis by (metis xor.assoc xor_self_eq xor.left_neutral xor.right_neutral)
qed

lemma odd_mult_inj:
  fixes x y :: "'a::len word"
  assumes "m * m' = 1" "x * m = y * m"
  shows "x = y"
proof -
  have "x * m * m' = y * m * m'" using assms(2) by simp
  then show ?thesis using assms(1) by (simp add: mult.assoc)
qed

lemma splitmix64_inj: "splitmix64 x = splitmix64 y \<Longrightarrow> x = y"
proof -
  have inv1: "(0xBF58476D1CE4E5B9 :: u64) * 0x96DE1B173F119089 = 1" by simp
  have inv2: "(0x94D049BB133111EB :: u64) * 0x319642B2D24D8EC3 = 1" by simp
  assume "splitmix64 x = splitmix64 y"
  then show ?thesis
    unfolding splitmix64_def Let_def
    by (auto dest!: xorshift_inj [rotated] odd_mult_inj [OF inv2] odd_mult_inj [OF inv1])
qed

lemma xor_left_cancel:
  fixes a x y :: "'a::len word"
  assumes "a XOR x = a XOR y"
  shows "x = y"
proof -
  have "a XOR (a XOR x) = a XOR (a XOR y)" using assms by simp
  then show ?thesis by (simp flip: xor.assoc)
qed

lemma ucast_u32_u64_inj:
  fixes a b :: u32
  assumes "(ucast a :: u64) = ucast b"
  shows "a = b"
proof -
  have "unat (ucast w :: u64) = unat w" for w :: u32
    using unsigned_less [where 'a = nat, of w] by (simp add: unsigned_ucast_eq take_bit_nat_eq_self)
  with assms have "unat a = unat b" by metis
  then show ?thesis by (rule unsigned_word_eqI)
qed

lemma jitter_mix_attempt_inj:
  assumes "jitter_mix uid a = jitter_mix uid b"
  shows "a = b"
proof -
  let ?hi = "ucast (drop_bit 64 uid) :: u64" and ?lo = "ucast uid :: u64"
  have "splitmix64 (?hi XOR splitmix64 (?lo XOR ucast a)) =
        splitmix64 (?hi XOR splitmix64 (?lo XOR ucast b))"
    using assms by (simp only: jitter_mix_def Let_def)
  then have "?hi XOR splitmix64 (?lo XOR ucast a) = ?hi XOR splitmix64 (?lo XOR ucast b)"
    by (rule splitmix64_inj)
  then have "splitmix64 (?lo XOR ucast a) = splitmix64 (?lo XOR ucast b)" by (rule xor_left_cancel)
  then have "?lo XOR ucast a = ?lo XOR ucast b" by (rule splitmix64_inj)
  then have "(ucast a :: u64) = ucast b" by (rule xor_left_cancel)
  then show ?thesis by (rule ucast_u32_u64_inj)
qed

section \<open>The realised delay\<close>

lemma f64_rounding_facts:
  assumes "f64_rounding rnd"
  shows "rnd 0 = 0" "rnd 1 = 1" "x \<le> y \<Longrightarrow> rnd x \<le> rnd y"
    "n \<le> 2 ^ 53 \<Longrightarrow> rnd (real n) = real n"
proof -
  have exact: "rnd (real n) = real n" if "n \<le> 2 ^ 53" for n
    using assms that by (simp add: f64_rounding_def)
  show "rnd 0 = 0" using exact [of 0] by simp
  show "rnd 1 = 1" using exact [of 1] by simp
  show "x \<le> y \<Longrightarrow> rnd x \<le> rnd y" using assms by (simp add: f64_rounding_def monoD)
  show "n \<le> 2 ^ 53 \<Longrightarrow> rnd (real n) = real n" by (rule exact)
qed

lemma rnd_unit_interval:
  assumes "f64_rounding rnd" "0 \<le> x" "x \<le> 1"
  shows "0 \<le> rnd x" "rnd x \<le> 1"
  using f64_rounding_facts(3) [OF assms(1) assms(2)] f64_rounding_facts(3) [OF assms(1) assms(3)]
  by (simp_all add: f64_rounding_facts [OF assms(1)])

lemma jitter_unit_range:
  assumes "f64_rounding rnd"
  obtains u where "jitter_unit rnd uid attempt = Fin u" "0 \<le> u" "u \<le> 1"
proof -
  define m where "m = unat (drop_bit 11 (jitter_mix uid attempt))"
  have "m = unat (jitter_mix uid attempt) div 2 ^ 11"
    unfolding m_def by (metis unat_drop_bit_eq drop_bit_eq_div)
  moreover have "unat (jitter_mix uid attempt) < 2 ^ 53 * 2 ^ 11"
    using unsigned_less [where 'a = nat, of "jitter_mix uid attempt"] by simp
  ultimately have "m < 2 ^ 53" by (simp only: less_mult_imp_div_less)
  then have "real m \<le> 2 ^ 53" by (metis less_imp_le of_nat_le_iff of_nat_numeral of_nat_power)
  then have "0 \<le> real m / 2 ^ 53" "real m / 2 ^ 53 \<le> 1" by simp_all
  note range = rnd_unit_interval [OF assms this]
  have "rnd (real m) = real m" "rnd (2 ^ 53) = 2 ^ 53"
    using \<open>m < 2 ^ 53\<close> f64_rounding_facts(4) [OF assms, of m]
      f64_rounding_facts(4) [OF assms, of "2 ^ 53"] by simp_all
  then have "jitter_unit rnd uid attempt = Fin (rnd (real m / 2 ^ 53))"
    unfolding jitter_unit_def Let_def by (simp only: flip: m_def)
  then show thesis using that range by blast
qed

text \<open>The factor \<open>1 - fraction * (1 - unit)\<close> after rounding every step.\<close>

lemma jitter_factor_range:
  assumes rnd: "f64_rounding rnd" and "0 \<le> f" "f \<le> 1" "0 \<le> u" "u \<le> 1"
  defines "factor \<equiv> rnd (1 - rnd (f * rnd (1 - u)))"
  shows "0 \<le> factor" "factor \<le> 1" "rnd f = f \<Longrightarrow> rnd (1 - f) \<le> factor"
proof -
  have u': "0 \<le> rnd (1 - u)" "rnd (1 - u) \<le> 1"
    using rnd_unit_interval [OF rnd, of "1 - u"] assms(4,5) by simp_all
  then have p: "0 \<le> f * rnd (1 - u)" "f * rnd (1 - u) \<le> f"
    using assms(2) by (simp_all add: mult_left_le)
  then have p': "0 \<le> rnd (f * rnd (1 - u))" "rnd (f * rnd (1 - u)) \<le> 1"
    using rnd_unit_interval [OF rnd, of "f * rnd (1 - u)"] assms(3) by simp_all
  then show "0 \<le> factor" "factor \<le> 1"
    unfolding factor_def using rnd_unit_interval [OF rnd, of "1 - rnd (f * rnd (1 - u))"] by simp_all
  assume "rnd f = f"
  then have "rnd (f * rnd (1 - u)) \<le> f" using f64_rounding_facts(3) [OF rnd p(2)] by simp
  then show "rnd (1 - f) \<le> factor"
    unfolding factor_def by (intro f64_rounding_facts(3) [OF rnd]) simp
qed

lemma retry_delay_finite:
  assumes rnd: "f64_rounding rnd" and "0 \<le> f" "f \<le> 1" and le: "base_delay bo n \<le> 2 ^ 53"
    and nz: "base_delay bo n \<noteq> 0"
  obtains factor where "0 \<le> factor" "factor \<le> 1" "rnd f = f \<Longrightarrow> rnd (1 - f) \<le> factor"
    "retry_delay rnd bo (Fin f) n uid = min (nat \<lfloor>rnd (real (base_delay bo n) * factor)\<rfloor>) u64_max"
proof -
  obtain u where u: "jitter_unit rnd uid n = Fin u" "0 \<le> u" "u \<le> 1"
    using jitter_unit_range [OF rnd] .
  have f: "max 0 (min 1 f) = f" using assms by simp
  show thesis
    by (rule that [OF jitter_factor_range [OF rnd assms(2,3) u(2,3)]])
      (simp_all add: retry_delay_def Let_def nz u(1) f f64_rounding_facts(4) [OF rnd le])
qed

lemma retry_delay_le_finite:
  assumes rnd: "f64_rounding rnd" and f: "0 \<le> f" "f \<le> 1" and le: "base_delay bo n \<le> 2 ^ 53"
  shows "retry_delay rnd bo (Fin f) n uid \<le> base_delay bo n"
proof (cases "base_delay bo n = 0")
  case False
  obtain factor where factor: "0 \<le> factor" "factor \<le> 1"
    "retry_delay rnd bo (Fin f) n uid = min (nat \<lfloor>rnd (real (base_delay bo n) * factor)\<rfloor>) u64_max"
    using retry_delay_finite [OF rnd f le False] by metis
  have "rnd (real (base_delay bo n) * factor) \<le> rnd (real (base_delay bo n))"
    using factor(1,2) by (intro f64_rounding_facts(3) [OF rnd]) (simp add: mult_left_le)
  then have "\<lfloor>rnd (real (base_delay bo n) * factor)\<rfloor> \<le> int (base_delay bo n)"
    using f64_rounding_facts(4) [OF rnd le] by linarith
  with factor(3) show ?thesis by (simp add: nat_le_iff min.coboundedI1)
qed (simp add: retry_delay_def)

lemma retry_delay_ge_finite:
  assumes rnd: "f64_rounding rnd" and f: "0 \<le> f" "f \<le> 1" "rnd f = f"
    and le: "base_delay bo n \<le> 2 ^ 53"
  shows "nat \<lfloor>rnd (real (base_delay bo n) * rnd (1 - f))\<rfloor> \<le> retry_delay rnd bo (Fin f) n uid"
proof (cases "base_delay bo n = 0")
  case True
  then show ?thesis by (simp add: f64_rounding_facts [OF rnd])
next
  case False
  let ?d = "real (base_delay bo n)"
  obtain factor where factor: "factor \<le> 1" "rnd (1 - f) \<le> factor"
    "retry_delay rnd bo (Fin f) n uid = min (nat \<lfloor>rnd (?d * factor)\<rfloor>) u64_max"
    using retry_delay_finite [OF rnd f(1,2) le False] f(3) by metis
  have "rnd (?d * rnd (1 - f)) \<le> rnd (?d * factor)"
    using factor(2) by (intro f64_rounding_facts(3) [OF rnd] mult_left_mono) auto
  moreover have "?d * factor \<le> ?d" using factor(1) by (simp add: mult_left_le)
  then have "rnd (?d * factor) \<le> ?d"
    using f64_rounding_facts(3) [OF rnd] f64_rounding_facts(4) [OF rnd le] by metis
  then have "nat \<lfloor>rnd (?d * factor)\<rfloor> \<le> base_delay bo n" by linarith
  then have "nat \<lfloor>rnd (?d * factor)\<rfloor> \<le> u64_max" using base_delay_le_u64 order_trans by blast
  ultimately show ?thesis using factor(3) by (simp add: nat_mono floor_mono)
qed

lemma retry_delay_clamp:
  "retry_delay rnd bo fr n uid =
    (case f64_clamp 0 1 fr of Fin f \<Rightarrow> retry_delay rnd bo (Fin f) n uid | _ \<Rightarrow> 0)"
  by (cases fr) (auto simp: retry_delay_def Let_def jitter_unit_def)

lemma f64_clamp_unit:
  "f64_clamp 0 1 fr = Fin f \<Longrightarrow> 0 \<le> f \<and> f \<le> 1"
  by (cases fr) auto

section \<open>Properties\<close>

text \<open>
  C37: the delay computed in saturating 64-bit and 128-bit arithmetic is the documented curve
  \<^verbatim>\<open>min(base * (fib(attempt) - 1), cap)\<close> over the true Fibonacci numbers, clipped to the 64-bit
  nanoseconds a \<^verbatim>\<open>Duration::from_nanos\<close> takes, for every configuration the constructors build;
  no intermediate saturation is observable.
\<close>

theorem base_delay_is_documented_curve:
  assumes "backoff_wf bo"
  shows "base_delay bo attempt = min (base bo * (fib (unat attempt) - 1)) (min (cap bo) u64_max)"
  using assms by (intro base_delay_closed_form backoff_wf_base)

theorem base_delay_is_documented_curve_witness:
  "backoff_wf backoff_default \<and> base_delay backoff_default 6 = 3500000000"
proof -
  have "unat (6 :: u32) = 6" by simp
  moreover have "fib 6 = 8" by code_simp
  ultimately show ?thesis
    using base_delay_is_documented_curve [OF backoff_default_wf, of 6] backoff_default_wf
    by (simp add: backoff_default_def u64_max_def)
qed

lemma retry_delay_le:
  assumes "f64_rounding rnd" "base_delay bo n \<le> 2 ^ 53"
  shows "retry_delay rnd bo fr n uid \<le> base_delay bo n"
  using retry_delay_le_finite [OF assms(1) _ _ assms(2)] f64_clamp_unit
  by (subst retry_delay_clamp) (auto split: f64.split)


text \<open>The identity rounding satisfies the assumption on rounding.\<close>

lemma f64_rounding_id: "f64_rounding id"
  by (simp add: f64_rounding_def mono_def)


text \<open>
  Two different attempts of one job always get different 64-bit jitter samples: SplitMix64 and
  the folding of the attempt into the identifier lose no information.
\<close>

theorem jitter_samples_of_attempts_differ:
  "jitter_mix uid a = jitter_mix uid b \<longleftrightarrow> a = b"
  using jitter_mix_attempt_inj by blast

end
