(* ===== verification/Task_Model.thy ===== *)
theory Task_Model
  imports Store_Types Backoff
begin

text \<open>
  The task-authoring surface: \<^verbatim>\<open>src/task.rs\<close> (deduplication keys, the view of a pending job, the
  merge decision, the \<^verbatim>\<open>Task\<close> trait), \<^verbatim>\<open>src/outcome.rs\<close> (what a run concludes) and
  \<^verbatim>\<open>src/context.rs\<close> (the execution context and the journal view). A type implementing \<^verbatim>\<open>Task\<close> is
  a record of its constant, codecs and policy functions; its implementation belongs to the
  consuming project and is a parameter everywhere.
\<close>

section \<open>Deduplication keys\<close>

datatype dedup_key = DedupKey (as_str: string)

text \<open>Decimal printing, as \<^verbatim>\<open>u64::to_string\<close> and \<^verbatim>\<open>i64::to_string\<close> print.\<close>

definition digit_char :: "nat \<Rightarrow> char" where
  "digit_char d = char_of (48 + d)"

fun decimal :: "nat \<Rightarrow> string" where
  "decimal n = (if n < 10 then [digit_char n] else decimal (n div 10) @ [digit_char (n mod 10)])"

declare decimal.simps [simp del]

definition signed_decimal :: "int \<Rightarrow> string" where
  "signed_decimal k = (if k < 0 then CHR ''-'' # decimal (nat (- k)) else decimal (nat k))"

definition dedup_from_u64 :: "u64 \<Rightarrow> dedup_key" where
  "dedup_from_u64 v = DedupKey (decimal (unat v))"

definition dedup_from_i64 :: "u64 \<Rightarrow> dedup_key" where
  "dedup_from_i64 v = DedupKey (signed_decimal (sint v))"

text \<open>The other constructions keep the text; \<open>ulid_text\<close> is how the \<^verbatim>\<open>ulid\<close> crate prints an identifier.\<close>

definition dedup_new :: "string \<Rightarrow> dedup_key" where
  "dedup_new key = DedupKey key"

definition dedup_from_string :: "string \<Rightarrow> dedup_key" where
  "dedup_from_string value = DedupKey value"

definition dedup_from_ulid :: "(ulid \<Rightarrow> string) \<Rightarrow> ulid \<Rightarrow> dedup_key" where
  "dedup_from_ulid ulid_text value = DedupKey (ulid_text value)"

definition into_string :: "dedup_key \<Rightarrow> string" where
  "into_string key = as_str key"

lemma dedup_from_ulid_eq: "inj ulid_text \<Longrightarrow> dedup_from_ulid ulid_text u = dedup_from_ulid ulid_text v \<longleftrightarrow> u = v"
  by (simp add: dedup_from_ulid_def inj_eq)

lemma dedup_key_text [simp]: "into_string (dedup_new key) = key" "into_string (dedup_from_string key) = key"
  by (simp_all add: into_string_def dedup_new_def dedup_from_string_def)

section \<open>What a run concludes\<close>

datatype outcome =
    Outcome_Completed "string option"
  | Outcome_Pause duration "string option"

definition completed :: outcome where
  "completed = Outcome_Completed None"

definition completed_with :: "string \<Rightarrow> outcome" where
  "completed_with note = Outcome_Completed (Some note)"

definition pause_in :: "duration \<Rightarrow> outcome" where
  "pause_in resume_in = Outcome_Pause resume_in None"

definition pause_in_with :: "duration \<Rightarrow> string \<Rightarrow> outcome" where
  "pause_in_with resume_in note = Outcome_Pause resume_in (Some note)"

text \<open>A wrapped foreign error is represented by the text it displays.\<close>

record task_error =
  te_permanent :: bool
  te_message :: string
  te_source :: "string option"

definition build_error :: "bool \<Rightarrow> string \<Rightarrow> task_error" where
  "build_error p err = \<lparr>te_permanent = p, te_message = err, te_source = Some err\<rparr>"

definition retryable :: "string \<Rightarrow> task_error" where
  "retryable err = build_error False err"

definition permanent :: "string \<Rightarrow> task_error" where
  "permanent err = build_error True err"

definition is_permanent :: "task_error \<Rightarrow> bool" where
  "is_permanent te = te_permanent te"

definition task_error_display :: "task_error \<Rightarrow> string" where
  "task_error_display te = te_message te"

definition task_error_cause :: "task_error \<Rightarrow> string option" where
  "task_error_cause te = te_source te"

text \<open>The conversion of the \<^verbatim>\<open>?\<close> operator in a handler.\<close>

definition task_error_from :: "string \<Rightarrow> task_error" where
  "task_error_from err = retryable err"

lemma propagated_error: "\<not> is_permanent (task_error_from err)" "task_error_display (task_error_from err) = err"
  "task_error_cause (task_error_from err) = Some err"
  by (simp_all add: task_error_from_def task_error_display_def task_error_cause_def retryable_def build_error_def is_permanent_def)

section \<open>Journal view and execution context\<close>

record journal_entry =
  je_run_no :: u32
  je_recorded_at :: datetime
  je_outcome :: journal_outcome
  je_note :: "string option"
  je_attachment :: "json option"

definition from_record :: "journal_record \<Rightarrow> journal_entry" where
  "from_record r =
     \<lparr>je_run_no = entry_run_no r, je_recorded_at = entry_recorded_at r, je_outcome = entry_outcome r,
      je_note = entry_note r, je_attachment = entry_attachment r\<rparr>"

definition je_is_failure :: "journal_entry \<Rightarrow> bool" where
  "je_is_failure x = is_failure (je_outcome x)"

text \<open>The cancellation token is what \<^verbatim>\<open>is_cancelled\<close> reads at the time of the run.\<close>

record 'c run_context =
  ctx_id :: ulid
  ctx_run_count :: u32
  ctx_history :: "journal_entry list"
  ctx_carry :: 'c
  ctx_attachment :: "json option"
  ctx_cancelled :: bool

definition context_new ::
  "ulid \<Rightarrow> u32 \<Rightarrow> journal_entry list \<Rightarrow> 'c \<Rightarrow> bool \<Rightarrow> 'c run_context" where
  "context_new i run_count hist carry cancel =
     \<lparr>ctx_id = i, ctx_run_count = run_count, ctx_history = hist, ctx_carry = carry,
      ctx_attachment = None, ctx_cancelled = cancel\<rparr>"

definition carry_mut :: "('c \<Rightarrow> 'c) \<Rightarrow> 'c run_context \<Rightarrow> 'c run_context" where
  "carry_mut f ctx = ctx\<lparr>ctx_carry := f (ctx_carry ctx)\<rparr>"

definition set_attachment :: "json \<Rightarrow> 'c run_context \<Rightarrow> 'c run_context" where
  "set_attachment v ctx = ctx\<lparr>ctx_attachment := Some v\<rparr>"

definition into_parts :: "'c run_context \<Rightarrow> 'c \<times> json option" where
  "into_parts ctx = (ctx_carry ctx, ctx_attachment ctx)"

section \<open>Tasks\<close>

record ('t, 'c) pending =
  pend_payload :: 't
  pend_carry :: 'c
  pend_run_count :: u32
  pend_journal :: "journal_entry list"

definition pending_new :: "'t \<Rightarrow> 'c \<Rightarrow> u32 \<Rightarrow> journal_entry list \<Rightarrow> ('t, 'c) pending" where
  "pending_new payload carry run_count journal =
     \<lparr>pend_payload = payload, pend_carry = carry, pend_run_count = run_count,
      pend_journal = journal\<rparr>"

datatype ('t, 'c) merge_decision =
    Keep
  | Replace
  | With 't 'c
  | Independent

text \<open>
  \<^verbatim>\<open>serde_json\<close> fails with an error of its own, represented by its text; the \<^verbatim>\<open>?\<close> operator wraps it.
\<close>

type_synonym 'a serde = "string + 'a"

definition from_serde :: "'a serde \<Rightarrow> 'a res" where
  "from_serde r = (case r of Inl text \<Rightarrow> Inl (Serialization text) | Inr v \<Rightarrow> Inr v)"

lemma from_serde_simps [simp]:
  "from_serde (Inl text) = Inl (Serialization text)" "from_serde (Inr v) = Inr v"
  by (simp_all add: from_serde_def)

text \<open>
  The \<^verbatim>\<open>Task\<close> trait: its constant, the \<^verbatim>\<open>serde\<close> codecs of the payload and of the associated carry
  type, the default carry, and the policy methods.
\<close>

record ('t, 'c) task_def =
  KIND :: string
  to_value :: "'t \<Rightarrow> json serde"
  from_value :: "json \<Rightarrow> 't serde"
  carry_to_value :: "'c \<Rightarrow> json serde"
  carry_from_value :: "json \<Rightarrow> 'c serde"
  carry_default :: 'c
  task_priority :: "'t \<Rightarrow> priority"
  task_dedup_key :: "'t \<Rightarrow> dedup_key option"
  task_merge :: "'t \<Rightarrow> ('t, 'c) pending \<Rightarrow> ('t, 'c) merge_decision"
  task_backoff :: "'t \<Rightarrow> backoff option"
  task_lease :: "'t \<Rightarrow> duration option"

text \<open>A task that overrides none of the provided methods of the trait.\<close>

definition with_default_methods :: "('t, 'c) task_def \<Rightarrow> ('t, 'c) task_def" where
  "with_default_methods T =
     T\<lparr>task_priority := (\<lambda>_. Normal), task_dedup_key := (\<lambda>_. None),
       task_merge := (\<lambda>_ _. Replace), task_backoff := (\<lambda>_. None), task_lease := (\<lambda>_. None)\<rparr>"

text \<open>
  The payload and the carry of a stored job: a \<^verbatim>\<open>null\<close> carry is the state of a job that never ran.
\<close>

definition decode_carry :: "('t, 'c) task_def \<Rightarrow> json \<Rightarrow> 'c serde" where
  "decode_carry T v = (if is_null v then Inr (carry_default T) else carry_from_value T v)"

text \<open>What the documentation of \<^verbatim>\<open>serde\<close> promises of a derived pair of implementations.\<close>

definition task_codec_ok :: "('t, 'c) task_def \<Rightarrow> bool" where
  "task_codec_ok T \<longleftrightarrow>
     (\<forall>t v. to_value T t = Inr v \<longrightarrow> from_value T v = Inr t) \<and>
     (\<forall>c v. carry_to_value T c = Inr v \<longrightarrow> decode_carry T v = Inr c)"

section \<open>Printed keys\<close>

lemma digit_char_inj: "d < 10 \<Longrightarrow> e < 10 \<Longrightarrow> digit_char d = digit_char e \<longleftrightarrow> d = e"
  by (simp add: digit_char_def char_of_eq_iff [of "48 + d"] take_bit_nat_eq_self)

lemma decimal_nonempty: "decimal n \<noteq> []"
  by (subst decimal.simps) simp

lemma decimal_digits: "ch \<in> set (decimal n) \<Longrightarrow> \<exists>d < 10. ch = digit_char d"
proof (induction n rule: decimal.induct)
  case (1 n)
  have "\<exists>d < 10. digit_char (n mod 10) = digit_char d" by (rule exI [of _ "n mod 10"]) simp
  with 1 show ?case by (cases "n < 10") (auto simp: decimal.simps [of n])
qed

lemma decimal_inj: "decimal m = decimal n \<longleftrightarrow> m = n"
proof (induction m arbitrary: n rule: decimal.induct)
  case (1 m)
  have rec: "decimal (m div 10) = decimal k \<longleftrightarrow> m div 10 = k" if "\<not> m < 10" for k
    using 1 that by blast
  have split: "m div 10 = n div 10 \<and> m mod 10 = n mod 10 \<longleftrightarrow> m = n"
    by (metis div_mult_mod_eq)
  show ?case
    by (cases "m < 10"; cases "n < 10")
      (use split rec in \<open>simp_all add: decimal.simps [of m] decimal.simps [of n] digit_char_inj decimal_nonempty
        append_eq_Cons_conv Cons_eq_append_conv\<close>)
qed

lemma decimal_one: "decimal 1 = ''1''"
  by code_simp

lemma minus_not_digit: "d < 10 \<Longrightarrow> digit_char d \<noteq> CHR ''-''"
  by (simp add: digit_char_def char_of_eq_iff take_bit_nat_eq_self)

lemma signed_decimal_inj: "signed_decimal j = signed_decimal k \<longleftrightarrow> j = k"
proof -
  have "CHR ''-'' \<notin> set (decimal n)" for n
    using decimal_digits [of "CHR ''-''" n] minus_not_digit by metis
  then have "decimal n \<noteq> CHR ''-'' # xs" for n xs by (metis list.set_intros(1))
  then show ?thesis by (auto simp: signed_decimal_def decimal_inj eq_commute [of "CHR ''-'' # _"])
qed

text \<open>
  Keys built from numbers collide exactly when the numbers are equal, also between a \<^verbatim>\<open>u64\<close> and
  an \<^verbatim>\<open>i64\<close>: two tasks coalesce only when they mean the same identifier.
\<close>

theorem numeric_dedup_keys_collide_only_when_equal:
  "(dedup_from_u64 a = dedup_from_u64 b \<longleftrightarrow> a = b) \<and>
   (dedup_from_i64 a = dedup_from_i64 b \<longleftrightarrow> a = b) \<and>
   (dedup_from_u64 a = dedup_from_i64 b \<longleftrightarrow> uint a = sint b)"
proof -
  have "decimal (unat a) = signed_decimal (int (unat a))" by (simp add: signed_decimal_def)
  then have "dedup_from_u64 a = dedup_from_i64 b \<longleftrightarrow> uint a = sint b"
    by (simp add: dedup_from_u64_def dedup_from_i64_def signed_decimal_inj)
  moreover have "dedup_from_u64 a = dedup_from_u64 b \<longleftrightarrow> a = b"
    by (simp add: dedup_from_u64_def decimal_inj word_unat_eq_iff)
  moreover have "dedup_from_i64 a = dedup_from_i64 b \<longleftrightarrow> a = b"
    by (simp add: dedup_from_i64_def signed_decimal_inj) (metis signed_word_eqI)
  ultimately show ?thesis by blast
qed

end
