(* ===== verification/Postgres_Sample.thy ===== *)
theory Postgres_Sample
  imports Postgres_Contract Task_Model
begin

text \<open>
  A lawful ULID codec (the binary digits of the identifier) and a small queue on the PostgreSQL
  adapter: one enqueued job, then the same job claimed. They show that the assumptions of the
  theorems about the adapter can hold together.
\<close>

definition binary_codec :: ulid_codec where
  "binary_codec =
     \<lparr>to_string = (\<lambda>u. map (\<lambda>k. if bit u k then CHR ''1'' else CHR ''0'') [0..<128]),
      from_string = (\<lambda>s. if length s = 128 \<and> set s \<subseteq> {CHR ''0'', CHR ''1''}
        then Some (horner_sum of_bool 2 (map (\<lambda>ch. ch = CHR ''1'') s)) else None)\<rparr>"

lemma binary_codec_ok: "ulid_codec_ok binary_codec"
proof -
  have "horner_sum of_bool 2 (map (bit u) [0..<128]) = u" for u :: ulid
    by (simp add: horner_sum_bit_eq_take_bit take_bit_word_eq_self)
  moreover have "(\<lambda>ch. ch = CHR ''1'') \<circ> (\<lambda>k. if bit u k then CHR ''1'' else CHR ''0'') = bit u" for u :: ulid
    by (auto simp: fun_eq_iff)
  ultimately show ?thesis by (auto simp: ulid_codec_ok_def binary_codec_def)
qed

definition env_at :: "datetime \<Rightarrow> call_env" where
  "env_at t = \<lparr>env_now = t, env_plan = (\<lambda>_. 0), env_locked = (\<lambda>_. False), env_fault = None\<rparr>"

lemma env_at_sel [simp]:
  "env_now (env_at t) = t" "env_fault (env_at t) = None" "\<not> env_locked (env_at t) x"
  by (simp_all add: env_at_def)

definition sample_new :: new_job where
  "sample_new =
     \<lparr>new_id = 1, new_kind = ''mail'', new_payload = JString ''hello'', new_priority = 1,
      new_created_at = 100, new_visible_at = 100, new_carry = JNull, new_dedup_key = Some ''k''\<rparr>"

definition sample_store :: pg_state where
  "sample_store = snd (pg_enqueue binary_codec (env_at 100) sample_new pg_empty)"

lemma pg_empty_inv: "ulid_codec_ok c \<Longrightarrow> pg_inv c pg_empty"
  by (auto simp: pg_inv_def pg_rep_def pg_empty_def job_list_ok_def entry_list_ok_def intro!: exI [of _ "[]"])

lemma pg_empty_view: "pg_view c pg_empty = \<lparr>a_job = (\<lambda>_. None), a_journal = (\<lambda>_. [])\<rparr>"
  by (simp add: pg_view_def pg_empty_def List.map_filter_def)

lemma sample_inv: "pg_inv binary_codec sample_store"
  unfolding sample_store_def by (intro pg_enqueue_inv pg_empty_inv binary_codec_ok)

lemma sample_tbl: "jobs_tbl sample_store = [row_of_job binary_codec (fresh_job sample_new)]"
  by (simp add: sample_store_def pg_enqueue_eq validate_def from_smallint_def sample_new_def pg_empty_def
      transact_def notify_def)

lemma sample_view: "pg_view binary_codec sample_store = spec_enqueue sample_new (pg_view binary_codec pg_empty)"
proof -
  have "conforms (pg_view binary_codec) pg_empty (pg_enqueue binary_codec (env_at 100) sample_new pg_empty)
      ((), spec_enqueue sample_new (pg_view binary_codec pg_empty))"
    by (rule pg_enqueue_conforms) (simp_all add: pg_empty_inv binary_codec_ok pg_empty_view sample_new_def)
  moreover have "fst (pg_enqueue binary_codec (env_at 100) sample_new pg_empty) = Inr ()"
    by (rule pg_enqueue_responds) (simp_all add: pg_empty_inv binary_codec_ok pg_empty_view sample_new_def)
  ultimately show ?thesis by (simp add: conforms_def sample_store_def)
qed

lemma sample_view_sel [simp]:
  "a_job (pg_view binary_codec sample_store) = [1 \<mapsto> fresh_job sample_new]"
  "a_journal (pg_view binary_codec sample_store) = (\<lambda>_. [])"
  by (simp_all add: sample_view spec_enqueue_def pg_empty_view sample_new_def)

definition sample_claim :: "job_record option res \<times> pg_state" where
  "sample_claim =
     pg_claim_next binary_codec (env_at 200) [''mail''] 0 (10 ^ 9) ''host:1'' sample_store"

definition sample_job :: job_record where
  "sample_job = claim_job (200 + 10 ^ 9) ''host:1'' (fresh_job sample_new)"

lemma sample_claim_fst: "fst sample_claim = Inr (Some sample_job)"
proof -
  let ?row = "row_of_job binary_codec (fresh_job sample_new)"
  have "pg_claim_candidates (env_at 200) [''mail''] 0 sample_store = [?row]"
    by (simp add: pg_claim_candidates_def sample_tbl row_simps fresh_job_def sample_new_def)
  moreover have "sint (r_run_count ?row) \<noteq> i32_max"
    by (simp add: row_simps fresh_job_def int_limits)
  ultimately show ?thesis
    by (simp add: sample_claim_def pg_claim_next_def Let_def transact_def claim_row_of_job binary_codec_ok sample_job_def)
qed

lemma sample_claim_inv: "pg_inv binary_codec (snd sample_claim)"
  using pg.claim_inv [OF sample_inv] by (simp add: sample_claim_def pg_ops_def)

lemma sample_claim_view [simp]:
  "a_job (pg_view binary_codec (snd sample_claim)) = [1 \<mapsto> sample_job]"
  "a_journal (pg_view binary_codec (snd sample_claim)) = (\<lambda>_. [])"
proof -
  have "so_claim_next (pg_ops binary_codec) (env_at 200) [''mail''] 0 (10 ^ 9) ''host:1'' sample_store =
      (Inr (Some sample_job), snd sample_claim)"
    using sample_claim_fst by (simp add: sample_claim_def pg_ops_def prod_eq_iff)
  from pg.claim_ok [OF sample_inv this] have
    "pg_view binary_codec (snd sample_claim) = (pg_view binary_codec sample_store)
       \<lparr>a_job := (a_job (pg_view binary_codec sample_store))(1 \<mapsto> sample_job)\<rparr>"
    by (auto simp: spec_claim_def split: if_splits)
  then show "a_job (pg_view binary_codec (snd sample_claim)) = [1 \<mapsto> sample_job]"
    "a_journal (pg_view binary_codec (snd sample_claim)) = (\<lambda>_. [])" by simp_all
qed

text \<open>A task type whose payload is its text, deduplicated by that text, that keeps the existing job.\<close>

definition text_task :: "(string, unit) task_def" where
  "text_task =
     \<lparr>KIND = ''mail'', to_value = (\<lambda>t. Inr (JString t)),
      from_value = (\<lambda>v. case v of JString t \<Rightarrow> Inr t | _ \<Rightarrow> Inl ''expected a string''),
      carry_to_value = (\<lambda>_. Inr JNull), carry_from_value = (\<lambda>_. Inr ()), carry_default = (),
      task_priority = (\<lambda>_. Normal), task_dedup_key = (\<lambda>_. Some (DedupKey ''k'')),
      task_merge = (\<lambda>_ _. Keep), task_backoff = (\<lambda>_. None), task_lease = (\<lambda>_. None)\<rparr>"

text \<open>Every call sees the store as the previous one left it.\<close>

definition quiet_calls :: "datetime \<Rightarrow> 's calls" where
  "quiet_calls t = (\<lambda>_. (id, env_at t))"

lemma quiet_calls_sel [simp]: "before_call (quiet_calls t) n s = s" "call_at (quiet_calls t) n = env_at t"
  by (simp_all add: quiet_calls_def before_call_def call_at_def)

end
