(* ===== verification/Postgres_Props.thy ===== *)
theory Postgres_Props
  imports Postgres_Sample
begin

text \<open>
  What the PostgreSQL adapter guarantees its callers: it implements the abstract store, claims in
  priority-then-age order, fences stale runs, notifies exactly on work becoming available, pages
  through history without gaps or repeats, deletes only terminal jobs, and derives only valid
  identifiers from an accepted prefix.
\<close>

section \<open>Refinement\<close>

text \<open>
  C5: the PostgreSQL adapter refines the abstract store for every lawful ULID codec: each operation keeps
  the representation invariant, returns and writes what the specification says, and on a failing
  connection had no effect or the whole effect; the empty schema represents the empty store.
\<close>

theorem postgres_implements_store:
  "store_contract (pg_ops c) (pg_inv c) (pg_view c) (\<lambda>e i. env_locked e (to_string c i)) \<and>
   (ulid_codec_ok c \<longrightarrow> pg_inv c pg_empty \<and> pg_view c pg_empty = \<lparr>a_job = Map.empty, a_journal = (\<lambda>_. [])\<rparr>)"
  using pg.store_contract_axioms pg_empty_inv pg_empty_view by blast

theorem postgres_implements_store_witness:
  "pg_inv binary_codec pg_empty"
  using postgres_implements_store [of binary_codec] binary_codec_ok by blast

section \<open>Claiming and settling\<close>

lemma job_from_row_expiry: "job_from_row c r = Inr j \<Longrightarrow> job_claim_expires_at j = r_claim_expires_at r"
  by (auto simp: job_from_row_def bind_ok_eq_Inr)

lemma pg_claim_expiry:
  assumes "pg_claim_next c e ks fl ls by st = (Inr (Some j'), st')"
  shows "job_claim_expires_at j' = Some (env_now e + int ls)"
proof (cases "pg_claim_candidates e ks fl st")
  case Nil
  with assms show ?thesis by (auto simp: pg_claim_next_def transact_def split: option.splits fault.splits)
next
  case (Cons r rs)
  let ?f = "claim_row (env_now e + int ls) by"
  have "job_from_row c (?f r) = Inr j'"
    using assms by (auto simp: pg_claim_next_def Cons Let_def transact_def bind_ok_eq_Inr
        split: option.splits fault.splits if_splits)
  from job_from_row_expiry [OF this] show ?thesis by (simp add: claim_row_def)
qed

lemma pg_claim_spec:
  "pg_inv c st \<Longrightarrow> pg_claim_next c e ks fl ls by st = (Inr r, st') \<Longrightarrow>
    spec_claim (\<lambda>i. env_locked e (to_string c i)) (env_now e) ks fl ls by (pg_view c st) r (pg_view c st')"
  using pg.claim_ok [of c st e ks fl ls "by" r st'] by (simp add: pg_ops_def)

lemma unat_run_count_claim:
  assumes "unat (job_run_count j) < u32_max"
  shows "unat (job_run_count (claim_job t by j)) = unat (job_run_count j) + 1"
  using assms by (simp add: job_run_count_claim u32_max_def unat_word_ariths)

text \<open>
  C6: a successful claim hands out a pending, visible job of a requested kind at or above the floor
  that no eligible unlocked job precedes by priority and then age, marks exactly that job as
  claimed by the caller under the lease with the next run number, and leaves the rest alone; it
  returns nothing only when every eligible job is locked by another transaction.
\<close>

theorem claim_takes_most_urgent_job:
  assumes "pg_inv c st" "pg_claim_next c e ks fl ls by st = (Inr r, st')"
  shows "case r of
      None \<Rightarrow> pg_view c st' = pg_view c st \<and>
        (\<forall>i j. a_job (pg_view c st) i = Some j \<and> claimable (env_now e) ks fl j \<longrightarrow> env_locked e (to_string c i))
    | Some j' \<Rightarrow> \<exists>j. a_job (pg_view c st) (job_id j') = Some j \<and> claimable (env_now e) ks fl j \<and>
        j' = claim_job (env_now e + int ls) by j \<and>
        unat (job_run_count j') = unat (job_run_count j) + 1 \<and>
        (\<forall>k l. a_job (pg_view c st) k = Some l \<and> claimable (env_now e) ks fl l \<and>
          \<not> env_locked e (to_string c k) \<longrightarrow> claim_key j \<le> claim_key l) \<and>
        a_job (pg_view c st') = (a_job (pg_view c st))(job_id j' \<mapsto> j') \<and>
        a_journal (pg_view c st') = a_journal (pg_view c st)"
proof (cases r)
  case None
  with pg_claim_spec [OF assms] show ?thesis by (simp add: spec_claim_def)
next
  case (Some j')
  with pg_claim_spec [OF assms] obtain i j t where j: "a_job (pg_view c st) i = Some j"
    "claimable (env_now e) ks fl j" "unat (job_run_count j) < u32_max" "j' = claim_job t by j"
    "\<forall>k l. a_job (pg_view c st) k = Some l \<and> claimable (env_now e) ks fl l \<and>
       \<not> env_locked e (to_string c k) \<longrightarrow> claim_key j \<le> claim_key l"
    "pg_view c st' = (pg_view c st)\<lparr>a_job := (a_job (pg_view c st))(i \<mapsto> j')\<rparr>"
    by (auto simp: spec_claim_def)
  have "job_id j = i" using pg_view_wf [OF assms(1)] j(1) by (simp add: astore_wf_def)
  moreover have "t = env_now e + int ls"
    using pg_claim_expiry [OF assms(2) [unfolded Some]] j(4) by (simp add: claim_job_def)
  ultimately show ?thesis using j by (auto simp: Some unat_run_count_claim)
qed

theorem claim_takes_most_urgent_job_witness:
  "pg_inv binary_codec sample_store \<and>
   pg_claim_next binary_codec (env_at 200) [''mail''] 0 (10 ^ 9) ''host:1'' sample_store =
     (Inr (Some sample_job), snd sample_claim) \<and>
   a_job (pg_view binary_codec (snd sample_claim)) (job_id sample_job) = Some sample_job"
proof -
  have eq: "pg_claim_next binary_codec (env_at 200) [''mail''] 0 (10 ^ 9) ''host:1'' sample_store =
      (Inr (Some sample_job), snd sample_claim)"
    using sample_claim_fst by (simp add: sample_claim_def prod_eq_iff)
  have "job_id sample_job = 1" by (simp add: sample_job_def sample_new_def)
  with claim_takes_most_urgent_job [OF sample_inv eq] eq sample_inv show ?thesis by simp
qed

text \<open>
  C4: fencing. A settlement from a run that no longer owns the claim (another identity, a superseded
  run number, a job already settled, recovered or deleted) never reports success and changes
  nothing, whatever the connection does; a settlement from the owner is applied once, with its
  journal entry, in one transaction.
\<close>

theorem settlement_is_fenced_by_claim_epoch:
  assumes "pg_inv c st"
  defines "out \<equiv> \<lambda>e i by rn stl ja. pg_settle c e i by rn stl ja st"
  shows "(\<not> (\<exists>j. a_job (pg_view c st) i = Some j \<and> owned by rn j) \<longrightarrow>
      pg_view c (snd (out e i by rn stl ja)) = pg_view c st \<and> fst (out e i by rn stl ja) \<noteq> Inr True) \<and>
    (a_job (pg_view c st) i = Some j \<and> owned by rn j \<and> app_run_no ja = rn \<and> env_fault e = None \<longrightarrow>
      fst (out e i by rn stl ja) = Inr True \<and>
      a_job (pg_view c (snd (out e i by rn stl ja))) = (a_job (pg_view c st))(i \<mapsto> settle_job stl j) \<and>
      a_journal (pg_view c (snd (out e i by rn stl ja))) =
        (a_journal (pg_view c st))(i := a_journal (pg_view c st) i @ [ja]))"
  unfolding out_def
proof (intro conjI impI)
  let ?out = "pg_settle c e i by rn stl ja st"
  have conf: "conforms (pg_view c) st ?out (spec_settle by rn stl ja i (pg_view c st))"
    using assms(1) by (rule pg_settle_conforms)
  show "pg_view c (snd ?out) = pg_view c st" "fst ?out \<noteq> Inr True"
    if "\<not> (\<exists>j. a_job (pg_view c st) i = Some j \<and> owned by rn j)"
  proof -
    have "spec_settle by rn stl ja i (pg_view c st) = (False, pg_view c st)"
      using that by (auto simp: spec_settle_def guarded_def split: option.split)
    with conf show "pg_view c (snd ?out) = pg_view c st" "fst ?out \<noteq> Inr True"
      by (auto simp: conforms_def split: sum.splits)
  qed
  assume job: "a_job (pg_view c st) i = Some j \<and> owned by rn j \<and> app_run_no ja = rn \<and> env_fault e = None"
  then obtain v where "fst ?out = Inr v" 
    using pg_responds [OF assms(1), of e i j rn ja "by" stl, THEN conjunct1] by (auto simp: owned_def)
  with conf job show "fst ?out = Inr True"
      "a_job (pg_view c (snd ?out)) = (a_job (pg_view c st))(i \<mapsto> settle_job stl j)"
      "a_journal (pg_view c (snd ?out)) = (a_journal (pg_view c st))(i := a_journal (pg_view c st) i @ [ja])"
    by (simp_all add: conforms_def spec_settle_def guarded_def)
qed

definition sample_entry :: "u32 \<Rightarrow> journal_append" where
  "sample_entry n =
     \<lparr>app_kind = ''mail'', app_run_no = n, app_recorded_at = 300, app_outcome = JCompleted, app_note = None,
      app_attachment = None\<rparr>"

theorem settlement_is_fenced_by_claim_epoch_witness:
  "fst (pg_settle binary_codec (env_at 300) 1 ''host:1'' 2 (Complete 300) (sample_entry 2) (snd sample_claim)) \<noteq> Inr True \<and>
   fst (pg_settle binary_codec (env_at 300) 1 ''host:1'' 1 (Complete 300) (sample_entry 1) (snd sample_claim)) = Inr True"
proof -
  have job: "a_job (pg_view binary_codec (snd sample_claim)) 1 = Some sample_job"
    "\<not> owned ''host:1'' 2 sample_job" "owned ''host:1'' 1 sample_job"
    by (simp_all add: sample_job_def claim_job_def fresh_job_def owned_def)
  note fenced = settlement_is_fenced_by_claim_epoch [OF sample_claim_inv]
  show ?thesis
    using fenced [THEN conjunct1, of 1 "''host:1''" 2 "env_at 300" "Complete 300" "sample_entry 2"]
      fenced [THEN conjunct2, of 1 sample_job "''host:1''" 1 "sample_entry 1" "env_at 300" "Complete 300"] job
    by (simp add: sample_entry_def)
qed

section \<open>Notifications\<close>

text \<open>
  C29: listeners are woken exactly by committed work: a settlement that the store acknowledges raises one
  notification when it puts the job back to pending and none when the job ends or the caller no
  longer owned it; an acknowledged enqueue and an applied recovery raise one each.
\<close>

theorem notification_iff_work_available:
  "(pg_settle c e i by rn stl ja st = (Inr applied, st') \<longrightarrow>
      notified st' = notified st + (if applied \<and> notifies_on_repend stl then 1 else 0)) \<and>
   (job_status (settle_job stl j) = Pending \<longleftrightarrow> notifies_on_repend stl) \<and>
   (pg_enqueue c e nj st = (Inr (), st') \<longrightarrow> notified st' = notified st + 1) \<and>
   (pg_recover c e i vis fc rn ja st = (Inr applied, st') \<longrightarrow>
      notified st' = notified st + (if applied then 1 else 0))"
proof (intro conjI impI)
  show "notified st' = notified st + (if applied \<and> notifies_on_repend stl then 1 else 0)"
    if "pg_settle c e i by rn stl ja st = (Inr applied, st')"
    using that by (auto simp: pg_settle_def Let_def run_no_to_db_def transact_def insert_journal_def notify_def
        split: prod.splits option.splits fault.splits if_splits)
  show "job_status (settle_job stl j) = Pending \<longleftrightarrow> notifies_on_repend stl"
    by (cases stl) (simp_all add: unclaim_def)
  show "notified st' = notified st + 1" if "pg_enqueue c e nj st = (Inr (), st')"
    using that by (auto simp: pg_enqueue_def Let_def transact_def notify_def
        split: sum.splits option.splits fault.splits if_splits)
  show "notified st' = notified st + (if applied then 1 else 0)"
    if "pg_recover c e i vis fc rn ja st = (Inr applied, st')"
    using that by (auto simp: pg_recover_def Let_def run_no_to_db_def transact_def insert_journal_def notify_def
        split: prod.splits option.splits fault.splits if_splits)
qed

theorem notification_iff_work_available_witness:
  "notified sample_store = notified pg_empty + 1"
proof -
  have "pg_enqueue binary_codec (env_at 100) sample_new pg_empty = (Inr (), sample_store)"
    using pg_enqueue_responds [OF pg_empty_inv [OF binary_codec_ok], of "env_at 100" sample_new]
    by (simp add: sample_store_def prod_eq_iff pg_empty_view sample_new_def)
  then show ?thesis using notification_iff_work_available [THEN conjunct2, THEN conjunct2, THEN conjunct1] by blast
qed

section \<open>Retention\<close>

text \<open>
  C30: a sweep never deletes a job that could still run: every job whose state is pending or claimed
  survives with its journal, whatever the criteria and however the call ends.
\<close>

theorem cleanup_spares_live_jobs:
  assumes "pg_inv c st" "a_job (pg_view c st) i = Some j" "job_status j \<in> {Pending, Claimed}"
  shows "a_job (pg_view c (snd (pg_cleanup e cc st))) i = Some j \<and>
    a_journal (pg_view c (snd (pg_cleanup e cc st))) i = a_journal (pg_view c st) i"
proof -
  have "job_wf j" using pg_view_wf [OF assms(1)] assms(2) by (simp add: astore_wf_def)
  then have "job_finished_at j = None" using assms(3) by (auto simp: job_wf_def)
  then have "\<not> sweepable cc j" by (simp add: sweepable_def)
  with pg_cleanup_effect(2) [OF assms(1), of e cc] assms(2) show ?thesis
    by (auto simp: spec_cleanup_def Let_def)
qed

theorem cleanup_spares_live_jobs_witness:
  "a_job (pg_view binary_codec (snd (pg_cleanup (env_at 900)
     \<lparr>cc_finished_before = 900, cc_kind = None, cc_status = None\<rparr> (snd sample_claim)))) 1 = Some sample_job"
  using cleanup_spares_live_jobs [OF sample_claim_inv, of 1 sample_job]
  by (simp add: sample_job_def claim_job_def)

section \<open>History pages\<close>

lemma filter_below_last:
  fixes key :: "'a \<Rightarrow> 'k :: linorder"
  assumes "sorted_wrt (\<lambda>x y. key y < key x) xs" "take n xs \<noteq> []"
  shows "filter (\<lambda>x. key x < key (last (take n xs))) xs = drop n xs"
  using assms
proof (induction xs arbitrary: n)
  case (Cons x xs)
  then obtain m where n: "n = Suc m" by (cases n) auto
  show ?case
  proof (cases "take m xs = []")
    case True
    then show ?thesis using Cons.prems(1) by (auto simp: n filter_id_conv)
  next
    case False
    then have "last (take m xs) \<in> set xs" using in_set_takeD last_in_set by metis
    then have "key (last (take m xs)) < key x" using Cons.prems(1) by simp
    with Cons.IH [of m] Cons.prems(1) False show ?thesis by (simp add: n)
  qed
qed simp

definition row_key :: "job_row \<Rightarrow> datetime \<times> string" where
  "row_key r = (r_created_at r, r_id r)"

lemma history_page_rows:
  "hf_limit hf = None \<Longrightarrow> history_page c hf st =
    rev (sort_key row_key (filter (\<lambda>r. \<forall>p \<in> set (history_clauses c hf). p r) (jobs_tbl st)))"
  by (simp add: history_page_def Let_def row_key_def [abs_def])

lemma history_page_limit:
  "hf_limit hf = None \<Longrightarrow> history_page c (hf\<lparr>hf_limit := Some (int n)\<rparr>) st = take n (history_page c hf st)"
  by (simp add: history_page_def Let_def history_clauses_def)

lemma sort_key_strict:
  fixes key :: "'a \<Rightarrow> 'k :: linorder"
  assumes "inj_on key (set xs)" "distinct xs"
  shows "sorted_wrt (\<lambda>x y. key x < key y) (sort_key key xs)"
proof -
  have "distinct (map key (sort_key key xs))" using assms by (simp add: distinct_map)
  moreover have "sorted (map key (sort_key key xs))" by simp
  ultimately have "sorted_wrt (<) (map key (sort_key key xs))" by (simp add: strict_sorted_iff)
  then show ?thesis by (simp add: sorted_wrt_map)
qed

lemma pg_rows_distinct:
  assumes "pg_inv c st"
  shows "distinct (jobs_tbl st)" "inj_on row_key (set (jobs_tbl st))"
proof -
  obtain js where js: "ulid_codec_ok c" "jobs_tbl st = map (row_of_job c) js" "distinct (map job_id js)"
    using pg_invE [OF assms] by (metis job_list_ok_def)
  have "distinct (map r_id (jobs_tbl st))"
    using js(3) by (simp add: js(2) comp_def row_of_job_sel(1) distinct_map inj_on_def js(1))
  then show "distinct (jobs_tbl st)" "inj_on row_key (set (jobs_tbl st))"
    by (auto simp: distinct_map inj_on_def row_key_def)
qed

text \<open>Moving the cursor to a row of the result keeps exactly the rows after it.\<close>

lemma history_clauses_cursor:
  assumes "\<forall>p \<in> set (history_clauses c hf). p r" "r_id r = to_string c u"
  shows "(\<forall>p \<in> set (history_clauses c (hf\<lparr>hf_created_before := Some (r_created_at r, u)\<rparr>)). p x) \<longleftrightarrow>
    (\<forall>p \<in> set (history_clauses c hf). p x) \<and> row_key x < row_key r"
proof (cases "hf_created_before hf")
  case None
  then show ?thesis using assms(2) by (auto simp: history_clauses_def row_key_def)
next
  case (Some cur)
  obtain ts v where cur: "cur = (ts, v)" by (cases cur)
  have "row_key r < (ts, to_string c v)" using assms(1) by (simp add: history_clauses_def row_key_def Some cur)
  then have "row_key x < row_key r \<Longrightarrow> row_key x < (ts, to_string c v)" by (rule order.strict_trans [rotated])
  then show ?thesis using assms(2) Some cur by (auto simp: history_clauses_def row_key_def)
qed

text \<open>
  Keyset pagination is exact: a page of \<open>n\<close> rows is the first \<open>n\<close> of the whole filtered history, and
  asking again with the last row's creation time and id as the cursor yields exactly the rest,
  in order, with no job repeated or skipped even when creation times tie.
\<close>

theorem history_cursor_resumes_exactly:
  assumes "pg_inv c st" "hf_limit hf = None"
    and "page = history_page c (hf\<lparr>hf_limit := Some (int n)\<rparr>) st" "page \<noteq> []"
    and "r_id (last page) = to_string c u"
  shows "page @ history_page c (hf\<lparr>hf_created_before := Some (r_created_at (last page), u)\<rparr>) st = history_page c hf st"
proof -
  let ?P = "\<lambda>r. \<forall>p \<in> set (history_clauses c hf). p r"
  define rows where "rows = history_page c hf st"
  have page: "page = take n rows" by (simp add: assms(3) history_page_limit [OF assms(2)] rows_def)
  have rows: "rows = rev (sort_key row_key (filter ?P (jobs_tbl st)))"
    by (simp add: rows_def history_page_rows [OF assms(2)])
  have "sorted_wrt (\<lambda>x y. row_key y < row_key x) rows"
    unfolding rows sorted_wrt_rev
    by (intro sort_key_strict) (use pg_rows_distinct [OF assms(1)] in \<open>auto simp: inj_on_def\<close>)
  then have rest: "filter (\<lambda>x. row_key x < row_key (last page)) rows = drop n rows"
    using assms(4) unfolding page by (rule filter_below_last)
  have "last page \<in> set rows" using assms(4) page in_set_takeD last_in_set by metis
  then have "?P (last page)" by (auto simp: rows)
  note clauses = history_clauses_cursor [OF this assms(5)]
  have "history_page c (hf\<lparr>hf_created_before := Some (r_created_at (last page), u)\<rparr>) st =
      rev (sort_key row_key (filter (\<lambda>x. row_key x < row_key (last page)) (filter ?P (jobs_tbl st))))"
    using assms(2) by (simp add: history_page_rows clauses conj_commute)
  also have "\<dots> = filter (\<lambda>x. row_key x < row_key (last page)) rows"
    by (simp only: rows filter_sort rev_filter [symmetric])
  finally show ?thesis using rest by (simp add: page rows_def [symmetric])
qed

theorem history_cursor_resumes_exactly_witness:
  "let hf = \<lparr>hf_kind = None, hf_status = None, hf_finished_since = None, hf_finished_until = None,
             hf_created_before = None, hf_limit = None\<rparr>;
       row = row_of_job binary_codec (fresh_job sample_new)
   in history_page binary_codec (hf\<lparr>hf_limit := Some 1\<rparr>) sample_store = [row] \<and>
      [row] @ history_page binary_codec (hf\<lparr>hf_created_before := Some (100, 1)\<rparr>) sample_store =
        history_page binary_codec hf sample_store"
proof -
  let ?hf = "\<lparr>hf_kind = None, hf_status = None, hf_finished_since = None, hf_finished_until = None,
    hf_created_before = None, hf_limit = None\<rparr>"
  let ?row = "row_of_job binary_codec (fresh_job sample_new)"
  have page: "history_page binary_codec (?hf\<lparr>hf_limit := Some (int 1)\<rparr>) sample_store = [?row]"
    by (simp add: history_page_def Let_def history_clauses_def sample_tbl)
  have row: "r_id ?row = to_string binary_codec 1" "r_created_at ?row = 100"
    by (simp_all add: row_of_job_sel fresh_job_def sample_new_def)
  have "[?row] @ history_page binary_codec (?hf\<lparr>hf_created_before := Some (100, 1)\<rparr>) sample_store =
      history_page binary_codec ?hf sample_store"
    using history_cursor_resumes_exactly [OF sample_inv _ page [symmetric], of 1] row by simp
  with page show ?thesis unfolding Let_def by simp
qed

section \<open>Prefixes\<close>

definition queue_tables :: "string \<Rightarrow> string list" where
  "queue_tables prefix = [prefix @ ''_jobs'', prefix @ ''_journal'', prefix @ ''_refinery_schema_history'']"

lemma validate_prefix_iff:
  "validate_prefix p = Inr () \<longleftrightarrow>
    p \<noteq> [] \<and> length p \<le> 39 \<and> is_ascii_lowercase (hd p) \<and>
    (\<forall>ch \<in> set p. is_ascii_lowercase ch \<or> is_ascii_digit ch \<or> ch = CHR ''_'')"
  by (auto simp: validate_prefix_def LONGEST_SUFFIX_LEN_def find_None_iff dest!: find_SomeD split: option.split)

text \<open>
  C36: an accepted prefix yields only identifiers PostgreSQL takes verbatim: non-empty, starting with a
  lowercase letter, of lowercase letters, digits and underscores, within 63 bytes for every
  suffix up to the longest one; and two queues with different prefixes share no table, nor a
  notification channel.
\<close>

theorem accepted_prefixes_are_safe_and_disjoint:
  assumes "validate_prefix p = Inr ()"
  shows "(\<forall>t \<in> set (channel p # queue_tables p). t \<noteq> [] \<and> length t \<le> 63 \<and> is_ascii_lowercase (hd t) \<and>
      (\<forall>ch \<in> set t. is_ascii_lowercase ch \<or> is_ascii_digit ch \<or> ch = CHR ''_'')) \<and>
    (p \<noteq> q \<longrightarrow> set (queue_tables p) \<inter> set (queue_tables q) = {} \<and> channel p \<noteq> channel q)"
proof (intro conjI impI)
  have p: "p \<noteq> []" "length p \<le> 39" "is_ascii_lowercase (hd p)"
    "\<forall>ch \<in> set p. is_ascii_lowercase ch \<or> is_ascii_digit ch \<or> ch = CHR ''_''"
    using assms by (simp_all add: validate_prefix_iff)
  then show "\<forall>t \<in> set (channel p # queue_tables p). t \<noteq> [] \<and> length t \<le> 63 \<and> is_ascii_lowercase (hd t) \<and>
      (\<forall>ch \<in> set t. is_ascii_lowercase ch \<or> is_ascii_digit ch \<or> ch = CHR ''_'')"
    by (simp add: queue_tables_def channel_def) (simp add: is_ascii_lowercase_def less_eq_char_def)
  have last: "last (x @ ''_jobs'') = CHR ''s''" "last (x @ ''_journal'') = CHR ''l''"
    "last (x @ ''_refinery_schema_history'') = CHR ''y''" for x by simp_all
  have neq: "x @ ''_jobs'' \<noteq> y @ ''_journal''" "x @ ''_jobs'' \<noteq> y @ ''_refinery_schema_history''"
    "x @ ''_journal'' \<noteq> y @ ''_refinery_schema_history''" for x y :: string
    using last [of x] last [of y] by (auto simp del: last_append)
  show "set (queue_tables p) \<inter> set (queue_tables q) = {}" if "p \<noteq> q"
    using that by (simp add: queue_tables_def neq neq [symmetric])
  show "channel p \<noteq> channel q" if "p \<noteq> q" using that by (simp add: channel_def)
qed

theorem accepted_prefixes_are_safe_and_disjoint_witness:
  "validate_prefix ''mail'' = Inr () \<and>
   set (queue_tables ''mail'') \<inter> set (queue_tables ''billing'') = {} \<and> length (channel ''mail'') \<le> 63"
proof -
  have ok: "validate_prefix ''mail'' = Inr ()" by code_simp
  from accepted_prefixes_are_safe_and_disjoint [OF this, of "''billing''"] ok show ?thesis by simp
qed

section \<open>Reading back what was written\<close>

lemma pg_job_eq:
  assumes "pg_inv c s" "env_fault e = None"
  shows "pg_job c e i s = Inr (a_job (pg_view c s) i)"
proof (rule pg_invE [OF assms(1)])
  fix js es
  assume rep: "ulid_codec_ok c" "jobs_tbl s = map (row_of_job c) js" "pg_view c s = list_view js es"
  then show ?thesis
    using assms(2)
    by (cases "find (\<lambda>j. job_id j = i) js")
      (simp_all add: pg_job_def fetch_def find_map row_simps list_view_def transpose_row_def)
qed

lemma pg_journal_eq:
  assumes "pg_inv c s" "env_fault e = None"
  shows "\<exists>rs. pg_journal c e i s = Inr rs \<and> map entry_of rs = a_journal (pg_view c s) i"
proof -
  obtain js es where rep: "ulid_codec_ok c" "pg_rep c s js es" using pg_invE [OF assms(1)] by metis
  let ?rows = "sort_key jr_id (filter (\<lambda>x. jr_job_id x = to_string c i) (journal_tbl s))"
  have "set ?rows \<subseteq> (\<lambda>x. row_of_entry c (fst x) (fst (snd x)) (snd (snd x))) ` set es"
    using rep(2) by (auto simp: pg_rep_def)
  then have "journal_from_row c r = Inr (projr (journal_from_row c r))" if "r \<in> set ?rows" for r
    using that rep(1) by fastforce
  then have "collect_results (journal_from_row c) ?rows = Inr (map (\<lambda>r. projr (journal_from_row c r)) ?rows)"
    by (rule collect_results_all_ok)
  then obtain rs where "pg_journal c e i s = Inr rs" using assms(2) by (auto simp: pg_journal_def fetch_def)
  with pg_journal_ok [OF assms(1)] show ?thesis by blast
qed



end
