(* ===== verification/Migrations.thy ===== *)
theory Migrations
  imports Postgres_Props
begin

text \<open>
  Schema migrations (\<^verbatim>\<open>src/postgres/migrations.rs\<close> and \<^verbatim>\<open>PostgresStore::migrate\<close>): the substitution of
  the table prefix into the embedded templates, the bridge that lets \<^verbatim>\<open>refinery\<close> run batches and
  read its history over a PostgreSQL client, and the session-level advisory lock around them.
  \<^verbatim>\<open>refinery\<close>, the driver and the RFC 3339 parser are parameters; the bodies of the SQL files
  (embedded at compile time) are arguments. A database state may fix which driver call fails.
\<close>

section \<open>Parameters\<close>

datatype commit_outcome = Committed | Commit_failed string | Commit_unknown string

text \<open>A row of \<^verbatim>\<open>refinery\<close>'s history table: version, name, instant and checksum as text.\<close>

record history_row =
  h_version :: i32
  h_name :: string
  h_applied_on :: string
  h_checksum :: string

record 'db driver =
  dr_begin :: "'db \<Rightarrow> string option"
  dr_statement :: "string \<Rightarrow> 'db \<Rightarrow> string + 'db"
  dr_select :: "string \<Rightarrow> 'db \<Rightarrow> string + history_row list"
  dr_commit :: "'db \<Rightarrow> commit_outcome"

datatype bridge_error = Driver string | MalformedHistory string string

type_synonym ('m, 'db) runner =
  "'m list \<Rightarrow> string \<Rightarrow> (string list \<Rightarrow> 'db \<Rightarrow> (bridge_error + nat) \<times> 'db)
    \<Rightarrow> (string \<Rightarrow> 'db \<Rightarrow> bridge_error + 'm list) \<Rightarrow> 'db \<Rightarrow> (string + unit) \<times> 'db"

record ('m, 'db) refinery =
  rf_unapplied :: "string \<Rightarrow> string \<Rightarrow> string + 'm"
  rf_applied :: "i32 \<Rightarrow> string \<Rightarrow> datetime \<Rightarrow> u64 \<Rightarrow> 'm"
  rf_run :: "('m, 'db) runner"

section \<open>Templates\<close>

definition TOKEN :: string where
  "TOKEN = ''{{prefix}}''"

text \<open>\<^verbatim>\<open>sql.replace("{{prefix}}", prefix)\<close>: occurrences from left to right, none overlapping.\<close>

fun replace_token :: "string \<Rightarrow> string \<Rightarrow> string" where
  "replace_token pfx [] = []"
| "replace_token pfx (ch # s) =
     (if take (length TOKEN) (ch # s) = TOKEN then pfx @ replace_token pfx (drop (length TOKEN - 1) s)
      else ch # replace_token pfx s)"

text \<open>The embedded files, in version order.\<close>

definition MIGRATIONS :: "string \<Rightarrow> string \<Rightarrow> string \<Rightarrow> (string \<times> string) list" where
  "MIGRATIONS v1 v2 v3 = [(''V1__initial'', v1), (''V2__history_cursor'', v2), (''V3__index_tuning'', v3)]"

section \<open>The bridge\<close>

fun run_batch :: "'db driver \<Rightarrow> string list \<Rightarrow> nat \<Rightarrow> 'db \<Rightarrow> string + (nat \<times> 'db)" where
  "run_batch D [] count db = Inr (count, db)"
| "run_batch D (q # qs) count db =
     bind_ok (dr_statement D q db) (\<lambda>db'. run_batch D qs (count + 1) db')"

text \<open>Dropping an open transaction rolls it back.\<close>

definition bridge_execute :: "'db driver \<Rightarrow> string list \<Rightarrow> 'db \<Rightarrow> (bridge_error + nat) \<times> 'db" where
  "bridge_execute D queries db =
     (case dr_begin D db of
        Some x \<Rightarrow> (Inl (Driver x), db)
      | None \<Rightarrow>
          (case run_batch D queries 0 db of
             Inl x \<Rightarrow> (Inl (Driver x), db)
           | Inr (count, db') \<Rightarrow>
               (case dr_commit D db' of
                  Committed \<Rightarrow> (Inr count, db')
                | Commit_failed x \<Rightarrow> (Inl (Driver x), db)
                | Commit_unknown x \<Rightarrow> (Inl (Driver x), db'))))"

text \<open>\<^verbatim>\<open>str::parse::<u64>\<close>: an optional plus sign and digits, within range.\<close>

definition digit_value :: "char \<Rightarrow> nat" where
  "digit_value ch = of_char ch - 48"

definition parse_digits :: "string \<Rightarrow> nat" where
  "parse_digits ds = foldl (\<lambda>acc ch. 10 * acc + digit_value ch) 0 ds"

definition parse_u64 :: "string \<Rightarrow> u64 option" where
  "parse_u64 s =
     (let ds = (case s of ch # rest \<Rightarrow> if ch = CHR ''+'' \<and> rest \<noteq> [] then rest else s | [] \<Rightarrow> [])
      in if ds = [] \<or> \<not> list_all is_ascii_digit ds then None
         else if parse_digits ds \<le> u64_max then Some (of_nat (parse_digits ds)) else None)"

definition history_entry ::
  "(string \<Rightarrow> datetime option) \<Rightarrow> (i32 \<Rightarrow> string \<Rightarrow> datetime \<Rightarrow> u64 \<Rightarrow> 'm) \<Rightarrow> history_row \<Rightarrow> bridge_error + 'm" where
  "history_entry rfc3339 applied row =
     bind_ok (case rfc3339 (h_applied_on row) of
                Some t \<Rightarrow> Inr t | None \<Rightarrow> Inl (MalformedHistory ''applied_on'' (h_applied_on row))) (\<lambda>applied_on.
     bind_ok (case parse_u64 (h_checksum row) of
                Some k \<Rightarrow> Inr k | None \<Rightarrow> Inl (MalformedHistory ''checksum'' (h_checksum row))) (\<lambda>checksum.
     Inr (applied (h_version row) (h_name row) applied_on checksum)))"

definition bridge_query ::
  "(string \<Rightarrow> datetime option) \<Rightarrow> (i32 \<Rightarrow> string \<Rightarrow> datetime \<Rightarrow> u64 \<Rightarrow> 'm) \<Rightarrow> 'db driver \<Rightarrow> string \<Rightarrow> 'db
    \<Rightarrow> bridge_error + 'm list" where
  "bridge_query rfc3339 applied D query db =
     (case dr_begin D db of
        Some x \<Rightarrow> Inl (Driver x)
      | None \<Rightarrow>
          (case dr_select D query db of
             Inl x \<Rightarrow> Inl (Driver x)
           | Inr rows \<Rightarrow>
               (case dr_commit D db of
                  Committed \<Rightarrow> collect_results (history_entry rfc3339 applied) rows
                | Commit_failed x \<Rightarrow> Inl (Driver x)
                | Commit_unknown x \<Rightarrow> Inl (Driver x))))"

section \<open>Applying the migrations\<close>

definition migrations_apply ::
  "(string \<Rightarrow> datetime option) \<Rightarrow> ('m, 'db) refinery \<Rightarrow> 'db driver \<Rightarrow> (string \<times> string) list \<Rightarrow> string \<Rightarrow> 'db
    \<Rightarrow> unit res \<times> 'db" where
  "migrations_apply rfc3339 R D files pfx db =
     (case collect_results (\<lambda>(name, sql). rf_unapplied R name (replace_token pfx sql)) files of
        Inl x \<Rightarrow> (Inl (Migration x), db)
      | Inr migrations \<Rightarrow>
          let history_table = pfx @ ''_refinery_schema_history'';
              (r, db') = rf_run R migrations history_table (bridge_execute D)
                           (bridge_query rfc3339 (rf_applied R) D) db
          in (case r of Inl x \<Rightarrow> Inl (Migration x) | Inr _ \<Rightarrow> Inr (), db'))"

text \<open>The database and the advisory locks the migrating session holds.\<close>

record 'db session =
  sess_db :: 'db
  sess_locks :: "u64 list"

text \<open>How the pool and the two lock statements answer: with an error, or not.\<close>

record migrate_env =
  me_pool :: "string option"
  me_lock :: "string option"
  me_unlock :: "string option"

definition migrate ::
  "(string \<Rightarrow> datetime option) \<Rightarrow> ('m, 'db) refinery \<Rightarrow> 'db driver \<Rightarrow> (string \<times> string) list \<Rightarrow> migrate_env \<Rightarrow> string
    \<Rightarrow> 'db session \<Rightarrow> unit res \<times> 'db session" where
  "migrate rfc3339 R D files me pfx st =
     (case me_pool me of
        Some x \<Rightarrow> (Inl (Pool x), st)
      | None \<Rightarrow>
          let lock_id = advisory_lock_id pfx in
          (case me_lock me of
             Some x \<Rightarrow> (Inl (Database x), st)
           | None \<Rightarrow>
               let st1 = st\<lparr>sess_locks := lock_id # sess_locks st\<rparr>;
                   (result, db') = migrations_apply rfc3339 R D files pfx (sess_db st1);
                   st2 = st1\<lparr>sess_db := db'\<rparr>;
                   st3 = (case me_unlock me of
                            None \<Rightarrow> st2\<lparr>sess_locks := remove1 lock_id (sess_locks st2)\<rparr> | Some _ \<Rightarrow> st2)
               in (bind_ok result (\<lambda>_. Inr ()), st3)))"

section \<open>Substitution\<close>

text \<open>A template is its literal parts with the token between them.\<close>

fun join :: "string \<Rightarrow> string list \<Rightarrow> string" where
  "join sep [] = []"
| "join sep [part] = part"
| "join sep (part # parts) = part @ sep @ join sep parts"

lemma token_sel: "length TOKEN = 10" "TOKEN = CHR ''{'' # ''{prefix}}''"
  by (simp_all add: TOKEN_def)

lemma replace_literal:
  "CHR ''{'' \<notin> set part \<Longrightarrow> replace_token pfx (part @ s) = part @ replace_token pfx s"
  by (induction part) (auto simp: token_sel)

lemma replace_at_token: "replace_token pfx (TOKEN @ s) = pfx @ replace_token pfx s"
proof -
  have "TOKEN @ s = CHR ''{'' # (''{prefix}}'' @ s)" by (simp add: token_sel)
  moreover have "take (length TOKEN) (TOKEN @ s) = TOKEN" by simp
  moreover have "drop (length TOKEN - 1) (''{prefix}}'' @ s) = s" by (simp add: token_sel(1))
  ultimately show ?thesis by (metis replace_token.simps(2))
qed



section \<open>Batches\<close>

lemma run_batch_fold:
  "run_batch D qs count db = bind_ok (foldl (\<lambda>acc q. bind_ok acc (dr_statement D q)) (Inr db) qs) (\<lambda>db'. Inr (count + length qs, db'))"
proof -
  have err: "foldl (\<lambda>acc q. bind_ok acc (dr_statement D q)) (Inl x) qs = Inl x" for x qs
    by (induction qs) simp_all
  show ?thesis
  proof (induction qs arbitrary: count db)
    case (Cons q qs)
    then show ?case by (cases "dr_statement D q db") (simp_all add: err)
  qed simp
qed

text \<open>The state all statements of a batch lead to, one after the other.\<close>

definition batch_effect :: "'db driver \<Rightarrow> string list \<Rightarrow> 'db \<Rightarrow> string + 'db" where
  "batch_effect D qs db = foldl (\<lambda>acc q. bind_ok acc (dr_statement D q)) (Inr db) qs"

lemma bridge_execute_cases:
  "snd (bridge_execute D qs db) = db \<or> batch_effect D qs db = Inr (snd (bridge_execute D qs db))"
  "fst (bridge_execute D qs db) = Inr n \<Longrightarrow> n = length qs \<and> batch_effect D qs db = Inr (snd (bridge_execute D qs db))"
  by (auto simp: bridge_execute_def run_batch_fold batch_effect_def bind_ok_def
      split: option.splits sum.splits commit_outcome.splits)

text \<open>States reached by complete batches only.\<close>

inductive whole_batches :: "'db driver \<Rightarrow> 'db \<Rightarrow> 'db \<Rightarrow> bool" for D db where
  no_batch: "whole_batches D db db"
| one_more: "whole_batches D db d \<Longrightarrow> batch_effect D qs d = Inr d' \<Longrightarrow> whole_batches D db d'"

text \<open>
  \<^verbatim>\<open>refinery\<close> reaches the database only through the two traits it is given: whatever every batch
  preserves, its run preserves.
\<close>

definition runs_through_bridge :: "('m, 'db) refinery \<Rightarrow> bool" where
  "runs_through_bridge R \<longleftrightarrow>
     (\<forall>P ms table exec query db. (\<forall>qs d. P d \<longrightarrow> P (snd (exec qs d))) \<longrightarrow> P db \<longrightarrow>
        P (snd (rf_run R ms table exec query db)))"

lemma runs_through_bridgeD:
  assumes "runs_through_bridge R" "\<And>qs d. P d \<Longrightarrow> P (snd (exec qs d))" "P db"
  shows "P (snd (rf_run R ms table exec query db))"
  using assms(1) [unfolded runs_through_bridge_def, rule_format, where P = P and exec = exec and db = db] assms(2,3)
  by simp

lemma apply_whole_batches:
  assumes "runs_through_bridge R"
  shows "whole_batches D db (snd (migrations_apply rfc3339 R D files pfx db))"
proof -
  have "whole_batches D db (snd (bridge_execute D qs d))" if "whole_batches D db d" for qs d
    using bridge_execute_cases(1) [of D qs d] that by (metis one_more)
  then have "whole_batches D db (snd (rf_run R ms table (bridge_execute D) query db))" for ms table query
    using no_batch by (intro runs_through_bridgeD [OF assms, where P = "whole_batches D db"])
  then show ?thesis
    by (simp add: migrations_apply_def Let_def case_prod_beta no_batch split: sum.split)
qed

text \<open>
  C18: an interrupted or failing migration leaves no half-applied version behind: whatever \<^verbatim>\<open>migrate\<close>
  returns and wherever the driver fails, the database it leaves is one that complete batches (a
  version's statements together with its history entry) lead to from where it started.
\<close>

theorem migration_is_never_half_applied:
  assumes "runs_through_bridge R"
  shows "whole_batches D (sess_db st) (sess_db (snd (migrate rfc3339 R D files me pfx st)))"
proof -
  have "sess_db (snd (migrate rfc3339 R D files me pfx st)) \<in>
      {sess_db st, snd (migrations_apply rfc3339 R D files pfx (sess_db st))}"
    by (auto simp: migrate_def Let_def split: option.split prod.split)
  then show ?thesis
    using apply_whole_batches [OF assms, of D "sess_db st" rfc3339 files pfx] no_batch by (metis insertE singletonD)
qed

text \<open>A runner that executes every migration as a batch of its statement and a history entry, and a
  database that logs statements and refuses one of them.\<close>

fun run_each :: "(string \<times> string) list \<Rightarrow> (string list \<Rightarrow> 'db \<Rightarrow> (bridge_error + nat) \<times> 'db) \<Rightarrow> 'db \<Rightarrow> (string + unit) \<times> 'db" where
  "run_each [] exec db = (Inr (), db)"
| "run_each ((name, sql) # ms) exec db =
     (let (r, db') = exec [sql, ''INSERT '' @ name] db
      in case r of Inl _ \<Rightarrow> (Inl ''migration failed'', db') | Inr _ \<Rightarrow> run_each ms exec db')"

definition each_refinery :: "(string \<times> string, 'db) refinery" where
  "each_refinery =
     \<lparr>rf_unapplied = (\<lambda>name sql. Inr (name, sql)), rf_applied = (\<lambda>_ name _ _. (name, [])),
      rf_run = (\<lambda>ms _ exec _ db. run_each ms exec db)\<rparr>"

definition log_driver :: "string list driver" where
  "log_driver =
     \<lparr>dr_begin = (\<lambda>_. None), dr_statement = (\<lambda>q log. if q = ''bad'' then Inl ''syntax error'' else Inr (log @ [q])),
      dr_select = (\<lambda>_ _. Inr []), dr_commit = (\<lambda>_. Committed)\<rparr>"

lemma run_each_keeps:
  assumes "\<And>qs d. P d \<Longrightarrow> P (snd (exec qs d))" "P db"
  shows "P (snd (run_each ms exec db))"
  using assms(2)
proof (induction ms arbitrary: db)
  case (Cons m ms)
  obtain name sql where m: "m = (name, sql)" by fastforce
  have "P (snd (exec [sql, ''INSERT '' @ name] db))" using assms(1) Cons(2) by blast
  then show ?case using Cons(1) by (simp add: m Let_def case_prod_beta split: sum.split)
qed simp

lemma each_refinery_ok: "runs_through_bridge each_refinery"
  unfolding runs_through_bridge_def each_refinery_def using run_each_keeps by (simp add: run_each_keeps)

text \<open>The second version fails: the first stays, complete, and nothing of the second.\<close>

theorem migration_is_never_half_applied_witness:
  "sess_db (snd (migrate (\<lambda>_. None) each_refinery log_driver [(''V1'', ''CREATE {{prefix}}''), (''V2'', ''bad'')]
     \<lparr>me_pool = None, me_lock = None, me_unlock = None\<rparr> ''q'' \<lparr>sess_db = [], sess_locks = []\<rparr>)) = [''CREATE q'', ''INSERT V1''] \<and>
   whole_batches log_driver [] [''CREATE q'', ''INSERT V1'']"
proof -
  let ?out = "migrate (\<lambda>_. None) each_refinery log_driver [(''V1'', ''CREATE {{prefix}}''), (''V2'', ''bad'')]
     \<lparr>me_pool = None, me_lock = None, me_unlock = None\<rparr> ''q'' \<lparr>sess_db = [], sess_locks = []\<rparr>"
  have "sess_db (snd ?out) = [''CREATE q'', ''INSERT V1'']"
    by (simp add: migrate_def migrations_apply_def each_refinery_def log_driver_def bridge_execute_def TOKEN_def Let_def)
  moreover have "whole_batches log_driver [] (sess_db (snd ?out))"
    using migration_is_never_half_applied [OF each_refinery_ok, of log_driver "\<lparr>sess_db = [], sess_locks = []\<rparr>"] by simp
  ultimately show ?thesis by simp
qed

section \<open>The advisory lock key\<close>

text \<open>
  The key is a 64-bit hash of the prefix, and there are more accepted prefixes than keys: two
  independent queues may share one and then serialise their migrations.
\<close>

lemma advisory_lock_keys_collide:
  "\<exists>p q. p \<noteq> q \<and> validate_prefix p = Inr () \<and> validate_prefix q = Inr () \<and> advisory_lock_id p = advisory_lock_id q"
proof -
  let ?letters = "set ''abcdefghijklmnopqrstuvwxyz''"
  let ?P = "{p. set p \<subseteq> ?letters \<and> length p = 14}"
  have "card ?letters = 26" by simp
  then have words: "card ?P = 26 ^ 14" by (subst card_lists_length_eq) (simp_all only: finite_set)
  have "card (advisory_lock_id ` ?P) \<le> card (UNIV :: u64 set)" by (intro card_mono) simp_all
  also have "\<dots> < card ?P" by (simp only: words) (simp add: card_word)
  finally have "\<not> inj_on advisory_lock_id ?P" using card_image [of advisory_lock_id ?P] by linarith
  then obtain p q where pq: "p \<in> ?P" "q \<in> ?P" "p \<noteq> q" "advisory_lock_id p = advisory_lock_id q"
    by (auto simp: inj_on_def)
  have lower: "\<forall>ch \<in> ?letters. is_ascii_lowercase ch" by (simp add: is_ascii_lowercase_def less_eq_char_def)
  have "validate_prefix p = Inr ()" if "p \<in> ?P" for p
    using that lower by (cases p) (auto simp only: validate_prefix_iff mem_Collect_eq list.sel list.set_intros subset_iff, auto)
  with pq show ?thesis by blast
qed

section \<open>The migration call\<close>

text \<open>
  C32: \<^verbatim>\<open>migrate\<close> reports the outcome of the migration and nothing else, applied with the prefix's advisory
  lock held, and gives the lock back whether the migration succeeded or failed: a failing unlock
  never turns a completed migration into an error, and only then is the lock still held, until the
  session ends. A pool or lock failure is reported before anything was touched.
\<close>

theorem migrate_reports_outcome_and_unlocks:
  "case (me_pool me, me_lock me) of
     (Some x, _) \<Rightarrow> migrate rfc3339 R D files me pfx st = (Inl (Pool x), st)
   | (None, Some x) \<Rightarrow> migrate rfc3339 R D files me pfx st = (Inl (Database x), st)
   | (None, None) \<Rightarrow>
       fst (migrate rfc3339 R D files me pfx st) = fst (migrations_apply rfc3339 R D files pfx (sess_db st)) \<and>
       sess_db (snd (migrate rfc3339 R D files me pfx st)) = snd (migrations_apply rfc3339 R D files pfx (sess_db st)) \<and>
       sess_locks (snd (migrate rfc3339 R D files me pfx st)) =
         (if me_unlock me = None then sess_locks st else advisory_lock_id pfx # sess_locks st)"
proof -
  have "bind_ok r (\<lambda>_. Inr ()) = r" for r :: "unit res" by (cases r) simp_all
  then show ?thesis by (simp add: migrate_def Let_def case_prod_beta split: option.split)
qed

section \<open>History rows\<close>

lemma digit_value_char: "d < 10 \<Longrightarrow> digit_value (digit_char d) = d"
  by (simp add: digit_value_def digit_char_def)

lemma digit_char_ascii: "d < 10 \<Longrightarrow> is_ascii_digit (digit_char d)"
  by (simp add: is_ascii_digit_def digit_char_def less_eq_char_def)

lemma parse_digits_decimal: "parse_digits (decimal n) = n"
proof (induction n rule: decimal.induct)
  case (1 n)
  have "parse_digits (xs @ [ch]) = 10 * parse_digits xs + digit_value ch" for xs ch
    by (simp add: parse_digits_def)
  moreover have "parse_digits [ch] = digit_value ch" for ch by (simp add: parse_digits_def)
  ultimately show ?case using 1 by (simp add: decimal.simps [of n] digit_value_char)
qed

lemma parse_u64_decimal: "parse_u64 (decimal (unat k)) = Some k"
proof -
  have digits: "list_all is_ascii_digit (decimal (unat k))"
    using decimal_digits digit_char_ascii by (fastforce simp: list_all_iff)
  moreover have "\<not> is_ascii_digit (CHR ''+'')" by (simp add: is_ascii_digit_def less_eq_char_def)
  ultimately have "hd (decimal (unat k)) \<noteq> CHR ''+''"
    using decimal_nonempty [of "unat k"] by (metis list.set_sel(1) list_all_iff)
  then have "(case decimal (unat k) of ch # rest \<Rightarrow> if ch = CHR ''+'' \<and> rest \<noteq> [] then rest else decimal (unat k)
      | [] \<Rightarrow> []) = decimal (unat k)"
    by (cases "decimal (unat k)") simp_all
  then show ?thesis
    using digits decimal_nonempty [of "unat k"] by (simp add: parse_u64_def Let_def parse_digits_decimal)
qed

text \<open>The parser accepts a plus sign and leading zeros too, so the encoding is not canonical.\<close>

interpretation checksum_column: encoding "\<lambda>k. decimal (unat k)" parse_u64
  by unfold_locales (rule parse_u64_decimal)

text \<open>What \<^verbatim>\<open>refinery\<close> stores of an applied migration: the instant in its text form, the checksum in decimal.\<close>

definition history_text :: "(datetime \<Rightarrow> string) \<Rightarrow> i32 \<times> string \<times> datetime \<times> u64 \<Rightarrow> history_row" where
  "history_text show_time m =
     (case m of (version, name, t, checksum) \<Rightarrow>
        \<lparr>h_version = version, h_name = name, h_applied_on = show_time t, h_checksum = decimal (unat checksum)\<rparr>)"

lemma collect_results_first_error:
  assumes "f x = Inl e" "\<And>y. y \<in> set xs \<Longrightarrow> \<exists>z. f y = Inr z"
  shows "collect_results f (xs @ x # ys) = Inl e"
  using assms(2)
proof (induction xs)
  case (Cons y xs)
  then obtain z where "f y = Inr z" by auto
  with Cons show ?case by simp
qed (simp add: assms(1))

text \<open>
  The applied history survives the round trip through its table: rows in the stored text form decode
  to exactly the migrations they record, for every 64-bit checksum; and a row whose instant does
  not parse is reported as malformed with its text, behind any number of good rows, instead of
  being skipped or panicking.
\<close>

theorem history_round_trips_and_reports_corruption:
  assumes "\<And>t. rfc3339 (show_time t) = Some t" "rfc3339 bad = None"
    and "dr_begin D db = None" "dr_commit D db = Committed"
    and "dr_select D q db = Inr (map (history_text show_time) ms @ rest)"
  shows "(rest = [] \<longrightarrow> bridge_query rfc3339 applied D q db =
      Inr (map (\<lambda>(version, name, t, checksum). applied version name t checksum) ms)) \<and>
    (\<forall>row others. rest = row # others \<and> h_applied_on row = bad \<longrightarrow>
      bridge_query rfc3339 applied D q db = Inl (MalformedHistory ''applied_on'' bad))"
proof -
  have good: "history_entry rfc3339 applied (history_text show_time m) =
      Inr (case m of (version, name, t, checksum) \<Rightarrow> applied version name t checksum)" for m
    by (cases m) (simp add: history_entry_def history_text_def assms(1) checksum_column.decode_encode)
  have query: "bridge_query rfc3339 applied D q db =
      collect_results (history_entry rfc3339 applied) (map (history_text show_time) ms @ rest)"
    using assms(3-5) by (simp add: bridge_query_def)
  have "collect_results (history_entry rfc3339 applied) (map (history_text show_time) ms @ row # others) =
      Inl (MalformedHistory ''applied_on'' bad)" if "h_applied_on row = bad" for row others
  proof (rule collect_results_first_error)
    show "history_entry rfc3339 applied row = Inl (MalformedHistory ''applied_on'' bad)"
      using that assms(2) by (simp add: history_entry_def)
  qed (auto simp: good)
  moreover have "collect_results (history_entry rfc3339 applied) (map (history_text show_time) ms) =
      Inr (map (\<lambda>(version, name, t, checksum). applied version name t checksum) ms)"
    by (induction ms) (simp_all add: good)
  ultimately show ?thesis unfolding query by auto
qed

text \<open>Signed decimal numbers stand in for RFC 3339 texts.\<close>

definition parse_signed :: "string \<Rightarrow> datetime option" where
  "parse_signed s =
     (case s of
        [] \<Rightarrow> None
      | ch # ds \<Rightarrow>
          if ch = CHR ''-'' then Some (- int (parse_digits ds))
          else if list_all is_ascii_digit s then Some (int (parse_digits s)) else None)"

lemma parse_signed_decimal: "parse_signed (signed_decimal t) = Some t"
proof (cases "t < 0")
  case True
  then show ?thesis by (simp add: parse_signed_def signed_decimal_def parse_digits_decimal)
next
  case False
  let ?ds = "decimal (nat t)"
  have digits: "list_all is_ascii_digit ?ds"
    using decimal_digits digit_char_ascii by (fastforce simp: list_all_iff)
  moreover have "\<not> is_ascii_digit (CHR ''-'')" by (simp add: is_ascii_digit_def less_eq_char_def)
  ultimately have "hd ?ds \<noteq> CHR ''-''"
    using decimal_nonempty [of "nat t"] by (metis list.set_sel(1) list_all_iff)
  with digits decimal_nonempty [of "nat t"] have "parse_signed ?ds = Some (int (parse_digits ?ds))"
    by (cases ?ds) (simp_all add: parse_signed_def)
  with False show ?thesis by (simp add: signed_decimal_def parse_digits_decimal)
qed

definition history_driver :: "history_row list \<Rightarrow> string list driver" where
  "history_driver rows = log_driver\<lparr>dr_select := (\<lambda>_ _. Inr rows)\<rparr>"

theorem history_round_trips_and_reports_corruption_witness:
  "let row = history_text signed_decimal (1, ''initial'', 7, 42);
       bad = \<lparr>h_version = 2, h_name = ''history_cursor'', h_applied_on = ''?'', h_checksum = ''42''\<rparr>
   in bridge_query parse_signed (\<lambda>v n t k. (v, n, t, k)) (history_driver [row]) ''SELECT'' [] = Inr [(1, ''initial'', 7, 42)] \<and>
      bridge_query parse_signed (\<lambda>v n t k. (v, n, t, k)) (history_driver [row, bad]) ''SELECT'' [] =
        Inl (MalformedHistory ''applied_on'' ''?'')"
proof -
  let ?m = "(1, ''initial'', 7, 42)"
  let ?bad = "\<lparr>h_version = 2, h_name = ''history_cursor'', h_applied_on = ''?'', h_checksum = ''42''\<rparr>"
  have none: "parse_signed ''?'' = None" by (simp add: parse_signed_def is_ascii_digit_def less_eq_char_def)
  have D: "dr_begin (history_driver rows) db = None" "dr_commit (history_driver rows) db = Committed"
    "dr_select (history_driver rows) q db = Inr rows" for rows db q
    by (simp_all add: history_driver_def log_driver_def)
  note ok = history_round_trips_and_reports_corruption [OF parse_signed_decimal none, of "history_driver _" "[]" "''SELECT''" "[?m]"]
  show ?thesis
    using ok [of "[history_text signed_decimal ?m]" "[]" "\<lambda>v n t k. (v, n, t, k)"]
      ok [of "[history_text signed_decimal ?m, ?bad]" "[?bad]" "\<lambda>v n t k. (v, n, t, k)"]
    by (simp add: D Let_def)
qed

end
