(* ===== verification/Postgres_Setup.thy ===== *)
theory Postgres_Setup
  imports Notifications Migrations
begin

text \<open>
  Construction of the PostgreSQL adapter (the inherent methods of \<^verbatim>\<open>PostgresStore\<close> in
  \<^verbatim>\<open>src/postgres/mod.rs\<close>). The connection string parser, the TLS connectors and the \<^verbatim>\<open>deadpool\<close> pool
  are parameters: \<open>parse_dsn\<close> and the builder may fail, and \<open>resize\<close> sets the pool's ceiling.
\<close>

record ('f, 't, 'p) deadpool =
  parse_dsn :: "string \<Rightarrow> string + 'f"
  build_pool :: "'f \<Rightarrow> 't \<Rightarrow> string + 'p"
  resize :: "nat \<Rightarrow> 'p \<Rightarrow> 'p"

record ('f, 't, 'p, 'ch) postgres_store =
  ps_pool :: 'p
  ps_prefix :: string
  ps_listen_factory :: "('f, 't, 'ch) listen_factory"

definition from_config ::
  "'ch mpsc \<Rightarrow> ('f, 't, 'p) deadpool \<Rightarrow> 'f \<Rightarrow> 't \<Rightarrow> string \<Rightarrow> ('f, 't, 'p, 'ch) postgres_store res" where
  "from_config M dp config tls pfx =
     bind_ok (validate_prefix pfx) (\<lambda>_.
     bind_ok (case build_pool dp config tls of Inl x \<Rightarrow> Inl (PoolBuild x) | Inr pool \<Rightarrow> Inr pool) (\<lambda>pool.
       Inr \<lparr>ps_pool = pool, ps_prefix = pfx, ps_listen_factory = make_listen_factory M config tls\<rparr>))"

text \<open>\<^verbatim>\<open>connect\<close> passes the connector without TLS, \<^verbatim>\<open>connect_rustls\<close> one made from its configuration.\<close>

definition connect ::
  "'ch mpsc \<Rightarrow> ('f, 't, 'p) deadpool \<Rightarrow> 't \<Rightarrow> string \<Rightarrow> string \<Rightarrow> ('f, 't, 'p, 'ch) postgres_store res" where
  "connect M dp no_tls dsn pfx =
     bind_ok (case parse_dsn dp dsn of Inl x \<Rightarrow> Inl (Database x) | Inr config \<Rightarrow> Inr config) (\<lambda>config.
       from_config M dp config no_tls pfx)"

definition connect_rustls ::
  "'ch mpsc \<Rightarrow> ('f, 't, 'p) deadpool \<Rightarrow> ('r \<Rightarrow> 't) \<Rightarrow> string \<Rightarrow> string \<Rightarrow> 'r \<Rightarrow> ('f, 't, 'p, 'ch) postgres_store res" where
  "connect_rustls M dp make_connector dsn pfx client_config =
     bind_ok (case parse_dsn dp dsn of Inl x \<Rightarrow> Inl (Database x) | Inr config \<Rightarrow> Inr config) (\<lambda>config.
       let tls = make_connector client_config in from_config M dp config tls pfx)"

definition with_max_pool_size ::
  "('f, 't, 'p) deadpool \<Rightarrow> nat \<Rightarrow> ('f, 't, 'p, 'ch) postgres_store \<Rightarrow> ('f, 't, 'p, 'ch) postgres_store" where
  "with_max_pool_size dp max_size store = store\<lparr>ps_pool := resize dp (max max_size 1) (ps_pool store)\<rparr>"

definition store_notifier ::
  "('f, 't, 'p, 'ch) postgres_store \<Rightarrow> ('f, 't) listen_env \<Rightarrow> ('f, 't, 'ch) pg_notifier res" where
  "store_notifier store le = pg_notifier_open (ps_listen_factory store) (ps_prefix store) le"

lemma from_config_Inr:
  "from_config M dp config tls pfx = Inr store \<longleftrightarrow>
    validate_prefix pfx = Inr () \<and> (\<exists>pool. build_pool dp config tls = Inr pool \<and>
      store = \<lparr>ps_pool = pool, ps_prefix = pfx, ps_listen_factory = make_listen_factory M config tls\<rparr>)"
  by (auto simp: from_config_def bind_ok_eq_Inr split: sum.splits)

text \<open>
  Every adapter that can be constructed has an accepted prefix, however its pool was resized since,
  and pushes and queries share one connection setup: the listener it opens was connected with the
  configuration and the connector its pool was built from, and has executed \<^verbatim>\<open>LISTEN\<close> on exactly the
  channel the adapter notifies, so both sides of a wakeup agree.
\<close>

theorem constructed_store_listens_where_it_notifies:
  assumes "mpsc_ok M" "from_config M dp config tls pfx = Inr made" "store = with_max_pool_size dp n made"
    and "store_notifier store le = Inr nt"
  shows "validate_prefix (ps_prefix store) = Inr () \<and> (\<exists>pool. build_pool dp config tls = Inr pool) \<and>
    le_connect le config tls = Inr (nt_client nt) \<and>
    le_execute le (nt_client nt) (''LISTEN '' @ channel (ps_prefix store)) = Inr () \<and>
    notifier_ok M config tls (ps_prefix store) nt"
proof -
  have store: "ps_prefix store = pfx" "ps_listen_factory store = make_listen_factory M config tls"
    "validate_prefix pfx = Inr ()" "\<exists>pool. build_pool dp config tls = Inr pool"
    using assms(2,3) by (auto simp: from_config_Inr with_max_pool_size_def)
  have opened: "pg_notifier_open (make_listen_factory M config tls) pfx le = Inr nt"
    using assms(4) by (simp add: store_notifier_def store)
  have "le_connect le config tls = Inr (nt_client nt) \<and>
      le_execute le (nt_client nt) (''LISTEN '' @ channel pfx) = Inr ()"
    using opened by (auto simp: pg_notifier_open_def notifier_connect_def make_listen_factory_def listen_def Let_def
        bind_ok_eq_Inr)
  with open_ok [OF assms(1) opened] store show ?thesis by simp
qed

definition sample_deadpool :: "(unit, unit, nat) deadpool" where
  "sample_deadpool = \<lparr>parse_dsn = (\<lambda>_. Inr ()), build_pool = (\<lambda>_ _. Inr 16), resize = (\<lambda>n _. n)\<rparr>"

theorem constructed_store_listens_where_it_notifies_witness:
  "\<exists>made nt. from_config unit_mpsc sample_deadpool () () ''q'' = Inr made \<and>
     store_notifier (with_max_pool_size sample_deadpool 0 made) quiet_listen = Inr nt \<and> notifier_ok unit_mpsc () () ''q'' nt"
proof -
  define made :: "(unit, unit, nat, unit_channel) postgres_store" where
    "made = \<lparr>ps_pool = 16, ps_prefix = ''q'', ps_listen_factory = make_listen_factory unit_mpsc () ()\<rparr>"
  have "validate_prefix ''q'' = Inr ()" by code_simp
  then have ok: "from_config unit_mpsc sample_deadpool () () ''q'' = Inr made"
    by (simp add: from_config_Inr sample_deadpool_def made_def)
  have nt: "store_notifier (with_max_pool_size sample_deadpool 0 made) quiet_listen = Inr sample_notifier"
    by (simp add: store_notifier_def with_max_pool_size_def made_def sample_open)
  from constructed_store_listens_where_it_notifies [OF unit_mpsc_ok ok refl nt] ok nt show ?thesis
    by (auto simp: with_max_pool_size_def made_def)
qed

end
