(* ===== verification/Registry.thy ===== *)
theory Registry
  imports Task_Model "HOL-Library.AList"
begin

text \<open>
  The type-erased handler registry (\<^verbatim>\<open>src/worker/registry.rs\<close>): what one run needs and yields, the
  erased run and lease closures of a concrete task type, panic capture, and the table of entries
  keyed by kind. A handler belongs to the consuming project: it is a function parameter that
  either returns a result with the context it leaves, or panics.
\<close>

section \<open>Definitions\<close>

datatype panic_policy = Panic_Retry | Panic_Dead

record 'S run_input =
  in_id :: ulid
  in_payload :: json
  in_carry :: json
  in_run_count :: u32
  in_history :: "journal_entry list"
  in_state :: 'S
  in_cancel :: bool
  in_panic_policy :: panic_policy

record run_report =
  rep_result :: "task_error + outcome"
  rep_carry :: json
  rep_backoff :: "backoff option"
  rep_attachment :: "json option"
  rep_duration :: duration

text \<open>The value a handler passed to \<^verbatim>\<open>panic!\<close>.\<close>

datatype panic_payload = Panic_Str string | Panic_String string | Panic_Other

type_synonym ('t, 'c, 'S) handler =
  "'t \<Rightarrow> 'c run_context \<Rightarrow> 'S \<Rightarrow> panic_payload + (task_error + outcome) \<times> 'c run_context"

fun panic_message :: "panic_payload \<Rightarrow> string" where
  "panic_message (Panic_Str message) = ''handler panicked: '' @ message"
| "panic_message (Panic_String message) = ''handler panicked: '' @ message"
| "panic_message Panic_Other = ''handler panicked''"

text \<open>\<open>elapsed\<close> is what the clock measures around the call of the handler.\<close>

definition erased_run ::
  "('t, 'c) task_def \<Rightarrow> ('t, 'c, 'S) handler \<Rightarrow> duration \<Rightarrow> 'S run_input \<Rightarrow> run_report res" where
  "erased_run T h elapsed inp =
     bind_ok (from_serde (from_value T (in_payload inp))) (\<lambda>payload.
     let carry_before = in_carry inp in
     bind_ok (if is_null (in_carry inp) then Inr (carry_default T)
              else from_serde (carry_from_value T (in_carry inp))) (\<lambda>carry.
     let ctx = context_new (in_id inp) (in_run_count inp) (in_history inp) carry (in_cancel inp);
         caught = h payload ctx (in_state inp);
         bo = task_backoff T payload
     in case caught of
          Inr (result, ctx') \<Rightarrow>
            let (carry', attachment) = into_parts ctx' in
            (case carry_to_value T carry' of
               Inr v \<Rightarrow>
                 Inr \<lparr>rep_result = result, rep_carry = v, rep_backoff = bo,
                      rep_attachment = attachment, rep_duration = elapsed\<rparr>
             | Inl err \<Rightarrow>
                 Inr \<lparr>rep_result = Inl (permanent
                        (''handler completed but its carry could not be serialized: '' @ err)),
                      rep_carry = JNull, rep_backoff = bo,
                      rep_attachment = attachment, rep_duration = elapsed\<rparr>)
        | Inl panic \<Rightarrow>
            let message = panic_message panic;
                err = (case in_panic_policy inp of
                         Panic_Retry \<Rightarrow> retryable message | Panic_Dead \<Rightarrow> permanent message)
            in Inr \<lparr>rep_result = Inl err, rep_carry = carry_before, rep_backoff = bo,
                    rep_attachment = None, rep_duration = elapsed\<rparr>))"

definition erased_lease :: "('t, 'c) task_def \<Rightarrow> json \<Rightarrow> duration option" where
  "erased_lease T payload =
     (case from_value T payload of Inl _ \<Rightarrow> None | Inr task \<Rightarrow> task_lease T task)"

record 'S registry_entry =
  reg_run :: "duration \<Rightarrow> 'S run_input \<Rightarrow> run_report res"
  reg_lease :: "json \<Rightarrow> duration option"
  reg_cap :: "nat option"

type_synonym 'S registry = "(string \<times> 'S registry_entry) list"

definition registry_new :: "'S registry" where
  "registry_new = []"

definition register ::
  "('t, 'c) task_def \<Rightarrow> ('t, 'c, 'S) handler \<Rightarrow> nat option \<Rightarrow> 'S registry \<Rightarrow> 'S registry" where
  "register T h cp reg =
     AList.update (KIND T) \<lparr>reg_run = erased_run T h, reg_lease = erased_lease T, reg_cap = cp\<rparr> reg"

definition kinds :: "'S registry \<Rightarrow> string list" where
  "kinds reg = map fst reg"

definition cap_of :: "'S registry \<Rightarrow> string \<Rightarrow> nat option" where
  "cap_of reg kind = Option.bind (map_of reg kind) reg_cap"

text \<open>
  \<open>dispatch\<close> yields the future of the run; awaiting it applies it to the time the handler takes.
\<close>

definition dispatch ::
  "'S registry \<Rightarrow> string \<Rightarrow> 'S run_input \<Rightarrow> (duration \<Rightarrow> run_report res) res" where
  "dispatch reg kind inp =
     (case map_of reg kind of
        None \<Rightarrow> Inl (UnknownKind kind)
      | Some ent \<Rightarrow> Inr (\<lambda>elapsed. reg_run ent elapsed inp))"

definition lease_for :: "'S registry \<Rightarrow> string \<Rightarrow> json \<Rightarrow> duration option" where
  "lease_for reg kind payload =
     Option.bind (map_of reg kind) (\<lambda>ent. reg_lease ent payload)"

section \<open>The table of entries\<close>

lemma registry_lookup: "map_of (register T h cp reg) k =
   (if k = KIND T then Some \<lparr>reg_run = erased_run T h, reg_lease = erased_lease T, reg_cap = cp\<rparr>
    else map_of reg k)"
  by (simp add: register_def update_conv)

lemma kinds_register: "set (kinds (register T h cp reg)) = insert (KIND T) (set (kinds reg))"
  by (simp add: kinds_def register_def dom_update)

lemma distinct_kinds: "distinct (kinds reg) \<Longrightarrow> distinct (kinds (register T h cp reg))"
  by (simp add: kinds_def register_def distinct_update)

lemma map_of_kinds: "map_of reg k = None \<longleftrightarrow> k \<notin> set (kinds reg)"
  by (simp add: kinds_def map_of_eq_None_iff)

section \<open>The erased run\<close>

text \<open>The decoded carry, read off the input.\<close>

lemma erased_run_decoded:
  assumes "from_value T (in_payload inp) = Inr task" "decode_carry T (in_carry inp) = Inr c"
  defines "ctx \<equiv> context_new (in_id inp) (in_run_count inp) (in_history inp) c (in_cancel inp)"
  shows "erased_run T h elapsed inp =
    (case h task ctx (in_state inp) of
       Inr (result, ctx') \<Rightarrow> Inr
         \<lparr>rep_result = (case carry_to_value T (ctx_carry ctx') of Inr _ \<Rightarrow> result
            | Inl err \<Rightarrow> Inl (permanent (''handler completed but its carry could not be serialized: '' @ err))),
          rep_carry = (case carry_to_value T (ctx_carry ctx') of Inr v \<Rightarrow> v | Inl _ \<Rightarrow> JNull),
          rep_backoff = task_backoff T task, rep_attachment = ctx_attachment ctx', rep_duration = elapsed\<rparr>
     | Inl panic \<Rightarrow> Inr
         \<lparr>rep_result = Inl (build_error (in_panic_policy inp = Panic_Dead) (panic_message panic)),
          rep_carry = in_carry inp, rep_backoff = task_backoff T task, rep_attachment = None,
          rep_duration = elapsed\<rparr>)"
proof -
  have "(if is_null (in_carry inp) then Inr (carry_default T)
      else from_serde (carry_from_value T (in_carry inp))) = Inr c"
    using assms(2) by (auto simp: decode_carry_def split: if_splits)
  then show ?thesis
    by (cases "in_panic_policy inp")
      (auto simp: erased_run_def assms(1) ctx_def Let_def into_parts_def retryable_def permanent_def split: sum.split)
qed

lemma erased_run_undecodable:
  "(\<exists>text. from_value T (in_payload inp) = Inl text) \<or> (\<exists>text. decode_carry T (in_carry inp) = Inl text) \<Longrightarrow>
    \<exists>text. erased_run T h elapsed inp = Inl (Serialization text)"
  by (cases "from_value T (in_payload inp)") (auto simp: erased_run_def decode_carry_def split: if_splits)

end
