(* ===== verification/Worker_Core.thy ===== *)
theory Worker_Core
  imports Registry Store_Spec
begin

text \<open>
  The worker's decisions (\<^verbatim>\<open>src/worker/mod.rs\<close>): configuration with its clamps, the rotation of
  priority floors, claiming with fallback, idle waiting, lease overrides, stale recovery, the
  routing of a finished run to a settlement, and the release of an aborted job. Everything the
  worker does to the store goes through a record of store operations; each call is given its
  circumstances. The \<^verbatim>\<open>chrono\<close> crate is a parameter, as are the rounding of floating-point
  operations and the text an error displays.
\<close>

section \<open>Parameters\<close>

record chrono =
  from_std :: "duration \<Rightarrow> int option"
  checked_add_signed :: "datetime \<Rightarrow> int \<Rightarrow> datetime option"
  to_std :: "int \<Rightarrow> duration option"
  MIN_UTC :: datetime
  MAX_UTC :: datetime

text \<open>
  What \<^verbatim>\<open>chrono\<close> documents: a conversion or an addition that succeeds is exact and stays in the
  representable range, one that fails would leave it, and every distance between instants is a
  valid \<^verbatim>\<open>TimeDelta\<close>; a negative difference is no \<^verbatim>\<open>std\<close> duration.
\<close>

definition chrono_ok :: "chrono \<Rightarrow> bool" where
  "chrono_ok C \<longleftrightarrow>
     MIN_UTC C \<le> MAX_UTC C \<and>
     (\<forall>d. case from_std C d of None \<Rightarrow> MAX_UTC C - MIN_UTC C < int d | Some k \<Rightarrow> k = int d) \<and>
     (\<forall>t k. case checked_add_signed C t k of
              None \<Rightarrow> t + k < MIN_UTC C \<or> MAX_UTC C < t + k
            | Some u \<Rightarrow> u = t + k \<and> MIN_UTC C \<le> u \<and> u \<le> MAX_UTC C) \<and>
     (\<forall>k. to_std C k = (if k < 0 then None else Some (nat k)))"

record runtime =
  rt_chrono :: chrono
  rt_rounding :: "real \<Rightarrow> real"
  rt_show :: "error \<Rightarrow> string"

section \<open>Configuration\<close>

definition DEFAULT_BACKSTOP :: u32 where "DEFAULT_BACKSTOP = 20"
definition DEFAULT_JITTER_FRACTION :: f64 where "DEFAULT_JITTER_FRACTION = Fin (1 / 2)"
definition DEFAULT_PRIORITY_RATIO :: u32 where "DEFAULT_PRIORITY_RATIO = 4"
definition MIN_LEASE :: duration where "MIN_LEASE = 1 * 10 ^ 9"
definition MAX_LEASE :: duration where "MAX_LEASE = 365 * 24 * 60 * 60 * 10 ^ 9"
definition MIN_POLL_MAX :: duration where "MIN_POLL_MAX = 10 ^ 6"
definition FLOOR_ALL :: i16 where "FLOOR_ALL = 0"
definition FLOOR_NORMAL :: i16 where "FLOOR_NORMAL = 1"
definition FLOOR_LOW :: i16 where "FLOOR_LOW = 2"

lemmas worker_consts = DEFAULT_BACKSTOP_def DEFAULT_JITTER_FRACTION_def DEFAULT_PRIORITY_RATIO_def
  MIN_LEASE_def MAX_LEASE_def MIN_POLL_MAX_def FLOOR_ALL_def FLOOR_NORMAL_def FLOOR_LOW_def

definition clamp_lease :: "duration \<Rightarrow> duration" where
  "clamp_lease lease = min (max lease MIN_LEASE) MAX_LEASE"

record worker_config =
  cfg_concurrency :: nat
  cfg_poll_max :: duration
  cfg_lease :: duration
  cfg_shutdown_timeout :: duration
  cfg_backoff :: backoff
  cfg_jitter_fraction :: f64
  cfg_backstop :: "u32 option"
  cfg_priority_ratio :: "u32 option"
  cfg_panic_policy :: panic_policy

text \<open>\<open>cores\<close> is what \<^verbatim>\<open>available_parallelism\<close> reports, if it reports anything.\<close>

definition default_concurrency :: "nat option \<Rightarrow> nat" where
  "default_concurrency available =
     (let cores = (case available of Some n \<Rightarrow> n | None \<Rightarrow> 1) in min (max (cores div 2) 1) 8)"

definition config_default :: "nat option \<Rightarrow> worker_config" where
  "config_default available =
     \<lparr>cfg_concurrency = default_concurrency available, cfg_poll_max = 30 * 10 ^ 9,
      cfg_lease = 15 * 60 * 10 ^ 9, cfg_shutdown_timeout = 30 * 10 ^ 9,
      cfg_backoff = backoff_default, cfg_jitter_fraction = DEFAULT_JITTER_FRACTION,
      cfg_backstop = Some DEFAULT_BACKSTOP, cfg_priority_ratio = Some DEFAULT_PRIORITY_RATIO,
      cfg_panic_policy = Panic_Retry\<rparr>"

record ('S, 's) worker_builder =
  wb_state :: 'S
  wb_store :: "'s store_ops"
  wb_registry :: "'S registry"
  wb_config :: worker_config

record ('S, 's) worker =
  w_state :: 'S
  w_store :: "'s store_ops"
  w_registry :: "'S registry"
  w_config :: worker_config
  w_identity :: string

definition builder :: "nat option \<Rightarrow> 'S \<Rightarrow> 's store_ops \<Rightarrow> ('S, 's) worker_builder" where
  "builder available state store =
     \<lparr>wb_state = state, wb_store = store, wb_registry = registry_new,
      wb_config = config_default available\<rparr>"

definition wb_register ::
  "('t, 'c) task_def \<Rightarrow> ('t, 'c, 'S) handler \<Rightarrow> ('S, 's) worker_builder \<Rightarrow> ('S, 's) worker_builder" where
  "wb_register T h b = b\<lparr>wb_registry := register T h None (wb_registry b)\<rparr>"

definition register_capped ::
  "('t, 'c) task_def \<Rightarrow> ('t, 'c, 'S) handler \<Rightarrow> nat \<Rightarrow> ('S, 's) worker_builder
    \<Rightarrow> ('S, 's) worker_builder" where
  "register_capped T h mx b = b\<lparr>wb_registry := register T h (Some (max mx 1)) (wb_registry b)\<rparr>"

definition set_concurrency :: "nat \<Rightarrow> ('S, 's) worker_builder \<Rightarrow> ('S, 's) worker_builder" where
  "set_concurrency n b = b\<lparr>wb_config := (wb_config b)\<lparr>cfg_concurrency := max n 1\<rparr>\<rparr>"

definition set_poll_max :: "duration \<Rightarrow> ('S, 's) worker_builder \<Rightarrow> ('S, 's) worker_builder" where
  "set_poll_max d b = b\<lparr>wb_config := (wb_config b)\<lparr>cfg_poll_max := max d MIN_POLL_MAX\<rparr>\<rparr>"

definition set_lease :: "duration \<Rightarrow> ('S, 's) worker_builder \<Rightarrow> ('S, 's) worker_builder" where
  "set_lease d b = b\<lparr>wb_config := (wb_config b)\<lparr>cfg_lease := clamp_lease d\<rparr>\<rparr>"

definition set_shutdown_timeout :: "duration \<Rightarrow> ('S, 's) worker_builder \<Rightarrow> ('S, 's) worker_builder" where
  "set_shutdown_timeout d b = b\<lparr>wb_config := (wb_config b)\<lparr>cfg_shutdown_timeout := d\<rparr>\<rparr>"

definition set_backoff :: "backoff \<Rightarrow> ('S, 's) worker_builder \<Rightarrow> ('S, 's) worker_builder" where
  "set_backoff bo b = b\<lparr>wb_config := (wb_config b)\<lparr>cfg_backoff := bo\<rparr>\<rparr>"

definition set_backstop :: "u32 option \<Rightarrow> ('S, 's) worker_builder \<Rightarrow> ('S, 's) worker_builder" where
  "set_backstop n b = b\<lparr>wb_config := (wb_config b)\<lparr>cfg_backstop := n\<rparr>\<rparr>"

definition set_priority_ratio :: "u32 option \<Rightarrow> ('S, 's) worker_builder \<Rightarrow> ('S, 's) worker_builder" where
  "set_priority_ratio r b = b\<lparr>wb_config := (wb_config b)\<lparr>cfg_priority_ratio := r\<rparr>\<rparr>"

definition set_jitter_fraction :: "f64 \<Rightarrow> ('S, 's) worker_builder \<Rightarrow> ('S, 's) worker_builder" where
  "set_jitter_fraction fraction b =
     b\<lparr>wb_config := (wb_config b)\<lparr>cfg_jitter_fraction := f64_clamp 0 1 fraction\<rparr>\<rparr>"

definition set_panic_policy :: "panic_policy \<Rightarrow> ('S, 's) worker_builder \<Rightarrow> ('S, 's) worker_builder" where
  "set_panic_policy p b = b\<lparr>wb_config := (wb_config b)\<lparr>cfg_panic_policy := p\<rparr>\<rparr>"

text \<open>\<open>hostname\<close> is the environment variable, if it is set; \<open>pid\<close> the process id.\<close>

definition worker_identity :: "string option \<Rightarrow> nat \<Rightarrow> string" where
  "worker_identity hostname pid =
     (case hostname of Some h \<Rightarrow> if h = [] then ''unknown'' else h | None \<Rightarrow> ''unknown'') @ '':'' @ decimal pid"

definition build :: "string option \<Rightarrow> nat \<Rightarrow> ('S, 's) worker_builder \<Rightarrow> ('S, 's) worker" where
  "build hostname pid b =
     \<lparr>w_state = wb_state b, w_store = wb_store b, w_registry = wb_registry b,
      w_config = wb_config b, w_identity = worker_identity hostname pid\<rparr>"

section \<open>Scheduling\<close>

definition floor_for :: "u64 \<Rightarrow> u32 option \<Rightarrow> i16" where
  "floor_for counter ratio =
     (case ratio of
        Some r \<Rightarrow>
          if 2 \<le> r then
            let r' = ucast r :: u64 in
            if counter mod (r' * r') = 0 then FLOOR_LOW
            else if counter mod r' = 0 then FLOOR_NORMAL
            else FLOOR_ALL
          else FLOOR_ALL
      | None \<Rightarrow> FLOOR_ALL)"

definition claimable_kinds ::
  "('S, 's) worker \<Rightarrow> string list \<Rightarrow> (string \<rightharpoonup> nat) \<Rightarrow> string list" where
  "claimable_kinds w ks by_kind =
     filter (\<lambda>k. case cap_of (w_registry w) k of
                   Some cp \<Rightarrow> (case by_kind k of Some n \<Rightarrow> n | None \<Rightarrow> 0) < cp
                 | None \<Rightarrow> True) ks"

definition release_slot :: "(string \<rightharpoonup> nat) \<Rightarrow> string \<Rightarrow> (string \<rightharpoonup> nat)" where
  "release_slot by_kind kind =
     (case by_kind kind of
        Some count \<Rightarrow>
          let count' = count - 1 in
          if count' = 0 then by_kind(kind := None) else by_kind(kind \<mapsto> count')
      | None \<Rightarrow> by_kind)"

text \<open>\<open>cs\<close> gives the circumstances of the one or two claims.\<close>

definition claim_with_fallback ::
  "('S, 's) worker \<Rightarrow> 's calls \<Rightarrow> string list \<Rightarrow> i16 \<Rightarrow> 's \<Rightarrow> job_record option res \<times> 's" where
  "claim_with_fallback w cs ks pfloor s =
     (let lease = cfg_lease (w_config w);
          (r, s1) = so_claim_next (w_store w) (call_at cs 0) ks pfloor lease (w_identity w)
                      (before_call cs 0 s)
      in case r of
           Inl err \<Rightarrow> (Inl err, s1)
         | Inr claimed \<Rightarrow>
             if claimed \<noteq> None \<or> pfloor = FLOOR_ALL then (Inr claimed, s1)
             else so_claim_next (w_store w) (call_at cs 1) ks FLOOR_ALL lease (w_identity w)
                    (before_call cs 1 s1))"

text \<open>\<open>now\<close> is the worker's clock after the query.\<close>

definition wait_duration ::
  "runtime \<Rightarrow> ('S, 's) worker \<Rightarrow> call_env \<Rightarrow> datetime \<Rightarrow> string list \<Rightarrow> 's \<Rightarrow> duration" where
  "wait_duration rt w e now ks s =
     (let until_next =
            (case so_next_visible_at (w_store w) e ks s of
               Inr (Some due) \<Rightarrow>
                 max (case to_std (rt_chrono rt) (due - now) of Some d \<Rightarrow> d | None \<Rightarrow> 0) (5 * 10 ^ 6)
             | Inr None \<Rightarrow> cfg_poll_max (w_config w)
             | Inl _ \<Rightarrow> cfg_poll_max (w_config w))
      in min until_next (cfg_poll_max (w_config w)))"

definition add_duration :: "chrono \<Rightarrow> datetime \<Rightarrow> duration \<Rightarrow> datetime" where
  "add_duration C now delta =
     (case from_std C delta of
        Some k \<Rightarrow> (case checked_add_signed C now k of Some t \<Rightarrow> t | None \<Rightarrow> MAX_UTC C)
      | None \<Rightarrow> MAX_UTC C)"

section \<open>Recovery and lease overrides\<close>

definition stale_note :: "job_record \<Rightarrow> string" where
  "stale_note j =
     ''lease expired; worker '' @ (case job_claimed_by j of Some by \<Rightarrow> by | None \<Rightarrow> ''unknown'') @
     '' presumed dead''"

definition recover_one ::
  "runtime \<Rightarrow> ('S, 's) worker \<Rightarrow> call_env \<Rightarrow> datetime \<Rightarrow> job_record \<Rightarrow> 's \<Rightarrow> bool res \<times> 's" where
  "recover_one rt w e now j s =
     (let next_failures = i32_saturating_add (job_failure_count j) 1;
          attempt = i32_max0_as_u32 next_failures;
          delay = retry_delay (rt_rounding rt) (cfg_backoff (w_config w))
                    (cfg_jitter_fraction (w_config w)) attempt (job_id j);
          journal = \<lparr>app_kind = job_kind j, app_run_no = job_run_count j, app_recorded_at = now,
                     app_outcome = JStaleRecovered, app_note = Some (stale_note j),
                     app_attachment = None\<rparr>
      in so_recover (w_store w) e (job_id j) (add_duration (rt_chrono rt) now delay) next_failures
           (job_run_count j) journal s)"

text \<open>An error of one recovery is logged and the loop goes on; the \<open>n\<close>-th call comes next.\<close>

fun recover_all ::
  "runtime \<Rightarrow> ('S, 's) worker \<Rightarrow> 's calls \<Rightarrow> datetime \<Rightarrow> nat \<Rightarrow> job_record list \<Rightarrow> 's \<Rightarrow> 's" where
  "recover_all rt w cs now n [] s = s"
| "recover_all rt w cs now n (j # js) s =
     recover_all rt w cs now (n + 1) js
       (snd (recover_one rt w (call_at cs n) now j (before_call cs n s)))"

definition recover_stale ::
  "runtime \<Rightarrow> ('S, 's) worker \<Rightarrow> 's calls \<Rightarrow> datetime \<Rightarrow> 's \<Rightarrow> 's" where
  "recover_stale rt w cs now s =
     (let s0 = before_call cs 0 s in
      case so_find_stale (w_store w) (call_at cs 0) s0 of
        Inl _ \<Rightarrow> s0
      | Inr stale \<Rightarrow> recover_all rt w cs now 1 stale s0)"

definition apply_task_lease ::
  "('S, 's) worker \<Rightarrow> call_env \<Rightarrow> job_record \<Rightarrow> 's \<Rightarrow> 's" where
  "apply_task_lease w e j s =
     (case lease_for (w_registry w) (job_kind j) (job_payload j) of
        None \<Rightarrow> s
      | Some l \<Rightarrow>
          let lease = clamp_lease l in
          if lease = cfg_lease (w_config w) then s
          else snd (so_extend_lease (w_store w) e (job_id j) (w_identity w) (job_run_count j) lease s))"

definition history_for :: "('S, 's) worker \<Rightarrow> call_env \<Rightarrow> ulid \<Rightarrow> 's \<Rightarrow> journal_entry list" where
  "history_for w e i s =
     (case so_journal (w_store w) e i s of Inr records \<Rightarrow> map from_record records | Inl _ \<Rightarrow> [])"

section \<open>Runs and settlements\<close>

record finished_run =
  fin_id :: ulid
  fin_kind :: string
  fin_run_no :: u32
  fin_failure_count :: i32
  fin_report :: "run_report res"

record inflight_job =
  inf_id :: ulid
  inf_kind :: string
  inf_run_no :: u32

text \<open>The spawned task: how long its handler takes decides nothing but the reported duration.\<close>

definition spawn ::
  "('S, 's) worker \<Rightarrow> job_record \<Rightarrow> journal_entry list \<Rightarrow> bool \<Rightarrow> duration \<Rightarrow> finished_run" where
  "spawn w j hist shutdown elapsed =
     (let inp = \<lparr>in_id = job_id j, in_payload = job_payload j, in_carry = job_carry j,
                 in_run_count = job_run_count j, in_history = hist, in_state = w_state w,
                 in_cancel = shutdown, in_panic_policy = cfg_panic_policy (w_config w)\<rparr>;
          report = dispatch (w_registry w) (job_kind j) inp
      in \<lparr>fin_id = job_id j, fin_kind = job_kind j, fin_run_no = job_run_count j,
          fin_failure_count = job_failure_count j,
          fin_report = (case report of Inr future \<Rightarrow> future elapsed | Inl err \<Rightarrow> Inl err)\<rparr>)"

definition retry_or_backstop ::
  "runtime \<Rightarrow> ('S, 's) worker \<Rightarrow> run_report \<Rightarrow> ulid \<Rightarrow> datetime \<Rightarrow> i32 \<Rightarrow> settlement" where
  "retry_or_backstop rt w rep i now next_failures =
     (let attempt = i32_max0_as_u32 next_failures in
      if (case cfg_backstop (w_config w) of Some mx \<Rightarrow> mx \<le> attempt | None \<Rightarrow> False)
      then GiveUp now next_failures
      else
        let bo = (case rep_backoff rep of Some b \<Rightarrow> b | None \<Rightarrow> cfg_backoff (w_config w));
            delay = retry_delay (rt_rounding rt) bo (cfg_jitter_fraction (w_config w)) attempt i
        in Retry (add_duration (rt_chrono rt) now delay) next_failures (rep_carry rep))"

definition settlement_for ::
  "runtime \<Rightarrow> ('S, 's) worker \<Rightarrow> run_report \<Rightarrow> ulid \<Rightarrow> datetime \<Rightarrow> i32 \<Rightarrow> settlement" where
  "settlement_for rt w rep i now next_failures =
     (case rep_result rep of
        Inr (Outcome_Completed _) \<Rightarrow> Complete now
      | Inr (Outcome_Pause resume_in _) \<Rightarrow> Pause (add_duration (rt_chrono rt) now resume_in) (rep_carry rep)
      | Inl err \<Rightarrow>
          if is_permanent err then GiveUp now next_failures
          else retry_or_backstop rt w rep i now next_failures)"

fun journal_outcome_for :: "settlement \<Rightarrow> journal_outcome" where
  "journal_outcome_for (Complete _) = JCompleted"
| "journal_outcome_for (Pause _ _) = JPaused"
| "journal_outcome_for (Retry _ _ _) = JRetried"
| "journal_outcome_for (GiveUp _ _) = JDead"
| "journal_outcome_for (Release _) = JReleased"

fun note_for :: "task_error + outcome \<Rightarrow> string option" where
  "note_for (Inr (Outcome_Completed note)) = note"
| "note_for (Inr (Outcome_Pause _ note)) = note"
| "note_for (Inl err) = Some (te_message err)"

text \<open>What the worker settles a finished run with: the settlement and its journal entry.\<close>

definition settlement_of ::
  "runtime \<Rightarrow> ('S, 's) worker \<Rightarrow> datetime \<Rightarrow> finished_run \<Rightarrow> settlement \<times> journal_append" where
  "settlement_of rt w now fin =
     (let next_failures = i32_saturating_add (fin_failure_count fin) 1;
          (stl, note, attachment) =
            (case fin_report fin of
               Inl err \<Rightarrow> (GiveUp now next_failures, Some (rt_show rt err), None)
             | Inr rep \<Rightarrow> (settlement_for rt w rep (fin_id fin) now next_failures,
                 note_for (rep_result rep), rep_attachment rep))
      in (stl, \<lparr>app_kind = fin_kind fin, app_run_no = fin_run_no fin, app_recorded_at = now,
                app_outcome = journal_outcome_for stl, app_note = note,
                app_attachment = attachment\<rparr>))"

definition settle ::
  "runtime \<Rightarrow> ('S, 's) worker \<Rightarrow> call_env \<Rightarrow> datetime \<Rightarrow> finished_run \<Rightarrow> 's \<Rightarrow> unit res \<times> 's" where
  "settle rt w e now fin s =
     (let (stl, journal) = settlement_of rt w now fin;
          (r, s') = so_settle (w_store w) e (fin_id fin) (w_identity w) (fin_run_no fin) stl journal s
      in (bind_ok r (\<lambda>_. Inr ()), s'))"

definition release ::
  "('S, 's) worker \<Rightarrow> call_env \<Rightarrow> datetime \<Rightarrow> inflight_job \<Rightarrow> 's \<Rightarrow> 's" where
  "release w e now job s =
     (let journal = \<lparr>app_kind = inf_kind job, app_run_no = inf_run_no job, app_recorded_at = now,
                     app_outcome = JReleased, app_note = Some ''released by graceful shutdown'',
                     app_attachment = None\<rparr>
      in snd (so_settle (w_store w) e (inf_id job) (w_identity w) (inf_run_no job) (Release now)
                journal s))"

end
