(* ===== verification/Worker_Policy.thy ===== *)
theory Worker_Policy
  imports Worker_Core
begin

text \<open>
  Properties of the worker's decisions that need no store: the configuration a builder can
  produce, the rotation of priority floors, saturating schedule arithmetic, and the routing of a
  run's result to a settlement.
\<close>

section \<open>Configuration\<close>

definition config_ok :: "worker_config \<Rightarrow> bool" where
  "config_ok cfg \<longleftrightarrow>
     1 \<le> cfg_concurrency cfg \<and> MIN_POLL_MAX \<le> cfg_poll_max cfg \<and>
     MIN_LEASE \<le> cfg_lease cfg \<and> cfg_lease cfg \<le> MAX_LEASE \<and>
     (case cfg_jitter_fraction cfg of Fin f \<Rightarrow> 0 \<le> f \<and> f \<le> 1 | NaN \<Rightarrow> True | _ \<Rightarrow> False)"

definition caps_ok :: "'S registry \<Rightarrow> bool" where
  "caps_ok reg \<longleftrightarrow> distinct (kinds reg) \<and> (\<forall>k n. cap_of reg k = Some n \<longrightarrow> 1 \<le> n)"

definition builder_ok :: "('S, 's) worker_builder \<Rightarrow> bool" where
  "builder_ok b \<longleftrightarrow> config_ok (wb_config b) \<and> caps_ok (wb_registry b)"

lemma clamp_lease_range: "MIN_LEASE \<le> clamp_lease d" "clamp_lease d \<le> MAX_LEASE"
  by (simp_all add: clamp_lease_def worker_consts)

lemma clamp_lease_id: "MIN_LEASE \<le> d \<Longrightarrow> d \<le> MAX_LEASE \<Longrightarrow> clamp_lease d = d"
  by (simp add: clamp_lease_def)

lemma config_default_ok: "config_ok (config_default av)"
  by (auto simp: config_ok_def config_default_def default_concurrency_def worker_consts Let_def)

lemma caps_ok_register: "caps_ok reg \<Longrightarrow> (\<And>n. cp = Some n \<Longrightarrow> 1 \<le> n) \<Longrightarrow> caps_ok (register T h cp reg)"
  by (auto simp: caps_ok_def distinct_kinds cap_of_def registry_lookup split: if_splits)

lemma f64_clamp_range: "case f64_clamp 0 1 x of Fin f \<Rightarrow> 0 \<le> f \<and> f \<le> 1 | NaN \<Rightarrow> True | _ \<Rightarrow> False"
  by (cases x) auto

text \<open>
  Whatever arguments the builder's setters are given, the worker it builds has at least one slot,
  an idle wait of at least a millisecond, a lease between one second and 365 days, a jitter
  fraction in the unit interval (or not a number), no kind twice and no zero cap: the fresh builder is in range
  and every setter keeps it in range.
\<close>

theorem builder_stays_in_range:
  "builder_ok (builder av st store) \<and>
   (builder_ok b \<longrightarrow>
     builder_ok (wb_register T h b) \<and> builder_ok (register_capped T h mx b) \<and>
     builder_ok (set_concurrency n b) \<and> builder_ok (set_poll_max d b) \<and> builder_ok (set_lease d b) \<and>
     builder_ok (set_shutdown_timeout d b) \<and> builder_ok (set_backoff bo b) \<and>
     builder_ok (set_backstop bs b) \<and> builder_ok (set_priority_ratio r b) \<and>
     builder_ok (set_jitter_fraction x b) \<and> builder_ok (set_panic_policy p b) \<and>
     config_ok (w_config (build host pid b)) \<and> caps_ok (w_registry (build host pid b)))"
proof (intro conjI impI)
  show "builder_ok (builder av st store)"
    by (simp add: builder_ok_def builder_def config_default_ok registry_new_def caps_ok_def kinds_def cap_of_def)
  assume ok: "builder_ok b"
  show "builder_ok (wb_register T h b)" "builder_ok (register_capped T h mx b)"
    using ok by (auto simp: builder_ok_def wb_register_def register_capped_def intro!: caps_ok_register)
  show "builder_ok (set_jitter_fraction x b)"
    using ok f64_clamp_range [of x] by (simp add: builder_ok_def set_jitter_fraction_def config_ok_def)
qed (auto simp: builder_ok_def config_ok_def set_concurrency_def set_poll_max_def set_lease_def
    set_shutdown_timeout_def set_backoff_def set_backstop_def set_priority_ratio_def set_panic_policy_def
    build_def clamp_lease_range)

theorem builder_stays_in_range_witness:
  "\<forall>store :: unit store_ops.
     config_ok (w_config (build None 7 (set_lease 0 (set_concurrency 0 (builder (Some 16) () store)))))"
proof
  fix store :: "unit store_ops"
  note setters = builder_stays_in_range [THEN conjunct2, THEN mp]
  have b: "builder_ok (builder (Some 16) () store)" by (rule builder_stays_in_range [THEN conjunct1])
  have b1: "builder_ok (set_concurrency 0 (builder (Some 16) () store))"
    by (rule setters [OF b, THEN conjunct2, THEN conjunct2, THEN conjunct1])
  have b2: "builder_ok (set_lease 0 (set_concurrency 0 (builder (Some 16) () store)))"
    by (rule setters [OF b1, THEN conjunct2, THEN conjunct2, THEN conjunct2, THEN conjunct2, THEN conjunct1])
  then show "config_ok (w_config (build None 7 (set_lease 0 (set_concurrency 0 (builder (Some 16) () store)))))"
    by (simp add: builder_ok_def build_def)
qed

section \<open>Priority rotation\<close>

lemma card_multiples_one:
  assumes "0 < r"
  shows "card {c \<in> {b..<b + r}. r dvd (c :: nat)} = 1"
proof (induction b)
  case 0
  have "{c \<in> {0..<0 + r}. r dvd c} = {0}" using assms by (auto dest: dvd_imp_le)
  then show ?case by simp
next
  case (Suc b)
  define between where "between = {c \<in> {Suc b..<b + r}. r dvd c}"
  have "{c \<in> {b..<b + r}. r dvd c} = (if r dvd b then insert b between else between)"
    using assms by (auto simp: between_def Suc_le_eq le_eq_less_or_eq)
  moreover have "{c \<in> {Suc b..<Suc b + r}. r dvd c} = (if r dvd b then insert (b + r) between else between)"
    using assms by (auto simp: between_def less_Suc_eq)
  moreover have "finite between" "b \<notin> between" "b + r \<notin> between" by (auto simp: between_def)
  ultimately show ?case using Suc by (auto split: if_splits)
qed

lemma card_multiples:
  assumes "0 < r"
  shows "card {c \<in> {a..<a + k * r}. r dvd (c :: nat)} = k"
proof (induction k)
  case (Suc k)
  let ?b = "a + k * r"
  have "{c \<in> {a..<a + Suc k * r}. r dvd c} =
      {c \<in> {a..<?b}. r dvd c} \<union> {c \<in> {?b..<?b + r}. r dvd c}" by auto
  moreover have "{c \<in> {a..<?b}. r dvd c} \<inter> {c \<in> {?b..<?b + r}. r dvd c} = {}" by auto
  ultimately show ?case using Suc card_multiples_one [OF assms, of ?b] by (simp add: card_Un_disjoint)
qed simp

text \<open>The floor of a claim, over the natural numbers the counter counts before it wraps.\<close>

lemma floor_for_nat:
  assumes "c < 2 ^ 64" "2 \<le> (r :: u32)"
  shows "floor_for (of_nat c) (Some r) =
    (if unat r * unat r dvd c then FLOOR_LOW else if unat r dvd c then FLOOR_NORMAL else FLOOR_ALL)"
proof -
  let ?r = "ucast r :: u64"
  have r: "unat r < 2 ^ 32" using unsigned_less [where 'a = nat, of r] by simp
  have unat_r: "unat ?r = unat r"
    using r by (simp add: unsigned_ucast_eq take_bit_nat_eq_self)
  have "unat r * unat r < 2 ^ 32 * 2 ^ 32" using r by (intro mult_strict_mono) auto
  then have sq: "unat (?r * ?r) = unat r * unat r"
    by (simp add: unat_mult_lem [symmetric] unat_r unat_word_ariths)
  have c: "unat (of_nat c :: u64) = c" using assms(1) by (simp add: unsigned_of_nat take_bit_nat_eq_self)
  have "(of_nat c :: u64) mod m = 0 \<longleftrightarrow> unat m dvd c" for m
    by (simp add: unat_eq_0 [symmetric] unat_mod_distrib c dvd_eq_mod_eq_0)
  then show ?thesis using assms(2) by (simp add: floor_for_def Let_def sq unat_r)
qed

text \<open>
  With ratio \<open>r \<ge> 2\<close>, any \<open>r\<^sup>2\<close> consecutive claims contain exactly one that is reserved for the low
  tier and exactly \<open>r - 1\<close> reserved for the lower two tiers; all others are unconstrained. No
  tier starves and the high tier keeps the rest, up to the wrap-around of the 64-bit counter.
\<close>

theorem rotation_reserves_every_tier:
  assumes "2 \<le> (r :: u32)" "a + unat r * unat r \<le> 2 ^ 64"
  defines "window \<equiv> {a..<a + unat r * unat r}"
  shows "card {c \<in> window. floor_for (of_nat c) (Some r) = FLOOR_LOW} = 1 \<and>
    card {c \<in> window. floor_for (of_nat c) (Some r) = FLOOR_NORMAL} = unat r - 1 \<and>
    card {c \<in> window. floor_for (of_nat c) (Some r) = FLOOR_ALL} = unat r * unat r - unat r"
proof -
  let ?r = "unat r"
  have "unat (2 :: u32) \<le> unat r" using assms(1) by (simp add: word_le_nat_alt)
  then have pos: "2 \<le> ?r" by simp
  define low mult where "low = {c \<in> window. ?r * ?r dvd c}" and "mult = {c \<in> window. ?r dvd c}"
  have small: "c < 2 ^ 64" if "c \<in> window" for c using that assms(2) by (auto simp: window_def)
  note fl = floor_for_nat [OF small assms(1)]
  have cards: "card low = 1" "card mult = ?r"
    using card_multiples [of "?r * ?r" a 1] card_multiples [of ?r a ?r] pos
    by (simp_all add: low_def mult_def window_def)
  have sub: "low \<subseteq> mult" by (auto simp: low_def mult_def dest: dvd_mult_left)
  have fin: "finite low" "finite mult" "finite window" "mult \<subseteq> window" by (auto simp: low_def mult_def window_def)
  have "{c \<in> window. floor_for (of_nat c) (Some r) = FLOOR_LOW} = low"
    by (auto simp: fl low_def worker_consts split: if_splits)
  moreover have "{c \<in> window. floor_for (of_nat c) (Some r) = FLOOR_NORMAL} = mult - low"
    by (auto simp: fl low_def mult_def worker_consts split: if_splits)
  moreover have "{c \<in> window. floor_for (of_nat c) (Some r) = FLOOR_ALL} = window - mult"
    by (auto simp: fl mult_def worker_consts dest: dvd_mult_left split: if_splits)
  moreover have "card window = ?r * ?r" by (simp add: window_def)
  ultimately show ?thesis using cards sub fin by (simp add: card_Diff_subset)
qed

theorem rotation_reserves_every_tier_witness:
  "card {c \<in> {100..<116 :: nat}. floor_for (of_nat c) (Some DEFAULT_PRIORITY_RATIO) = FLOOR_LOW} = 1 \<and>
   card {c \<in> {100..<116 :: nat}. floor_for (of_nat c) (Some DEFAULT_PRIORITY_RATIO) = FLOOR_NORMAL} = 3"
proof -
  have "unat (4 :: u32) = 4" by simp
  then show ?thesis
    using rotation_reserves_every_tier [of 4 100] by (simp add: DEFAULT_PRIORITY_RATIO_def)
qed

section \<open>Schedule arithmetic\<close>

lemma chrono_okD:
  assumes "chrono_ok C"
  shows "from_std C d = None \<Longrightarrow> MAX_UTC C - MIN_UTC C < int d"
    and "from_std C d = Some k \<Longrightarrow> k = int d"
    and "checked_add_signed C t k = None \<Longrightarrow> t + k < MIN_UTC C \<or> MAX_UTC C < t + k"
    and "checked_add_signed C t k = Some u \<Longrightarrow> u = t + k \<and> u \<le> MAX_UTC C"
    and "to_std C k = (if k < 0 then None else Some (nat k))"
proof -
  have std: "case from_std C d of None \<Rightarrow> MAX_UTC C - MIN_UTC C < int d | Some k \<Rightarrow> k = int d" for d
    using assms unfolding chrono_ok_def by blast
  have add: "case checked_add_signed C t k of None \<Rightarrow> t + k < MIN_UTC C \<or> MAX_UTC C < t + k
      | Some u \<Rightarrow> u = t + k \<and> MIN_UTC C \<le> u \<and> u \<le> MAX_UTC C" for t k
    using assms unfolding chrono_ok_def by blast
  show "from_std C d = None \<Longrightarrow> MAX_UTC C - MIN_UTC C < int d" "from_std C d = Some k \<Longrightarrow> k = int d"
    using std [of d] by simp_all
  show "checked_add_signed C t k = None \<Longrightarrow> t + k < MIN_UTC C \<or> MAX_UTC C < t + k"
    "checked_add_signed C t k = Some u \<Longrightarrow> u = t + k \<and> u \<le> MAX_UTC C"
    using add [of t k] by simp_all
  show "to_std C k = (if k < 0 then None else Some (nat k))"
    using assms unfolding chrono_ok_def by blast
qed

lemma add_duration_eq:
  assumes "chrono_ok C" "MIN_UTC C \<le> now" "now \<le> MAX_UTC C"
  shows "add_duration C now d = min (now + int d) (MAX_UTC C)"
proof (cases "from_std C d")
  case None
  then show ?thesis using chrono_okD(1) [OF assms(1) None] assms(2) by (simp add: add_duration_def)
next
  case (Some k)
  note k = chrono_okD(2) [OF assms(1) Some]
  show ?thesis
  proof (cases "checked_add_signed C now k")
    case None
    then show ?thesis using chrono_okD(3) [OF assms(1) None] assms(2) by (simp add: add_duration_def Some k)
  next
    case (Some u)
    then show ?thesis
      using chrono_okD(4) [OF assms(1) Some] by (simp add: add_duration_def \<open>from_std C d = Some k\<close> k)
  qed
qed

text \<open>A calendar that can represent the instants from \<open>lo\<close> to \<open>hi\<close>.\<close>

definition calendar :: "datetime \<Rightarrow> datetime \<Rightarrow> chrono" where
  "calendar lo hi =
     \<lparr>from_std = (\<lambda>d. if hi - lo < int d then None else Some (int d)),
      checked_add_signed = (\<lambda>t k. if lo \<le> t + k \<and> t + k \<le> hi then Some (t + k) else None),
      to_std = (\<lambda>k. if k < 0 then None else Some (nat k)), MIN_UTC = lo, MAX_UTC = hi\<rparr>"

lemma calendar_ok: "lo \<le> hi \<Longrightarrow> chrono_ok (calendar lo hi)"
  by (auto simp: chrono_ok_def calendar_def)

definition sample_runtime :: runtime where
  "sample_runtime = \<lparr>rt_chrono = calendar 0 (10 ^ 30), rt_rounding = id, rt_show = (\<lambda>_. ''error'')\<rparr>"

text \<open>
  Scheduling never moves backwards and never wraps: the instant \<^verbatim>\<open>add_duration\<close> computes is the
  exact sum, cut off at the last representable instant, for every delay including those no
  calendar duration can represent.
\<close>

theorem add_duration_saturates:
  assumes "chrono_ok C" "MIN_UTC C \<le> now" "now \<le> MAX_UTC C"
  shows "add_duration C now d = min (now + int d) (MAX_UTC C) \<and> now \<le> add_duration C now d"
  using add_duration_eq [OF assms] assms(3) by simp

theorem add_duration_saturates_witness:
  "add_duration (calendar 0 1000) 990 5 = 995 \<and> add_duration (calendar 0 1000) 990 (10 ^ 30) = 1000"
  using add_duration_saturates [OF calendar_ok [of 0 1000], of 990 5]
    add_duration_saturates [OF calendar_ok [of 0 1000], of 990 "10 ^ 30"]
  by (simp add: calendar_def)

section \<open>Settlement routing\<close>

text \<open>The failed execution a retryable result counts as, against the configured backstop.\<close>

definition backstop_reached :: "worker_config \<Rightarrow> i32 \<Rightarrow> bool" where
  "backstop_reached cfg failures \<longleftrightarrow>
     (\<exists>mx. cfg_backstop cfg = Some mx \<and> int (unat mx) \<le> max 0 (sint failures))"

lemma unat_i32_max0: "int (unat (i32_max0_as_u32 n)) = max 0 (sint n)"
  by (auto simp: i32_max0_as_u32_def unat_eq_sint_nonneg simp del: of_nat_unat)

lemma retry_or_backstop_eq:
  "retry_or_backstop rt w rep i now nf =
    (if backstop_reached (w_config w) nf then GiveUp now nf
     else Retry (add_duration (rt_chrono rt) now
            (retry_delay (rt_rounding rt) (case rep_backoff rep of Some b \<Rightarrow> b | None \<Rightarrow> cfg_backoff (w_config w))
              (cfg_jitter_fraction (w_config w)) (i32_max0_as_u32 nf) i)) nf (rep_carry rep))"
proof -
  have "mx \<le> i32_max0_as_u32 nf \<longleftrightarrow> int (unat mx) \<le> max 0 (sint nf)" for mx
    unfolding word_le_nat_alt unat_i32_max0 [symmetric] by (rule of_nat_le_iff [symmetric])
  then show ?thesis by (auto simp: retry_or_backstop_def backstop_reached_def Let_def split: option.split)
qed

lemma spawn_sel [simp]:
  "fin_id (spawn w j hist cancel elapsed) = job_id j" "fin_kind (spawn w j hist cancel elapsed) = job_kind j"
  "fin_run_no (spawn w j hist cancel elapsed) = job_run_count j"
  "fin_failure_count (spawn w j hist cancel elapsed) = job_failure_count j"
  by (simp_all add: spawn_def Let_def)

lemma settlement_of_fst:
  "fst (settlement_of rt w now fin) =
    (case fin_report fin of
       Inl err \<Rightarrow> GiveUp now (i32_saturating_add (fin_failure_count fin) 1)
     | Inr rep \<Rightarrow> settlement_for rt w rep (fin_id fin) now (i32_saturating_add (fin_failure_count fin) 1))"
  by (simp add: settlement_of_def Let_def split: sum.split)

lemma settlement_of_journal:
  "app_run_no (snd (settlement_of rt w now fin)) = fin_run_no fin"
  "app_kind (snd (settlement_of rt w now fin)) = fin_kind fin"
  "app_outcome (snd (settlement_of rt w now fin)) = journal_outcome_for (fst (settlement_of rt w now fin))"
  "app_recorded_at (snd (settlement_of rt w now fin)) = now"
  by (simp_all add: settlement_of_def Let_def split: sum.split)

text \<open>
  C24: the worker buries a job exactly when its run could not be dispatched, failed permanently, or
  failed retryably with the failure count at the configured backstop; with no backstop a
  retryable failure is always retried.
\<close>

theorem job_dies_exactly_when_unrunnable_permanent_or_backstopped:
  "(\<exists>fin_at n. fst (settlement_of rt w now fin) = GiveUp fin_at n) \<longleftrightarrow>
    (case fin_report fin of
       Inl _ \<Rightarrow> True
     | Inr rep \<Rightarrow>
         (case rep_result rep of
            Inr _ \<Rightarrow> False
          | Inl err \<Rightarrow> is_permanent err \<or>
              backstop_reached (w_config w) (i32_saturating_add (fin_failure_count fin) 1)))"
  by (auto simp: settlement_of_fst settlement_for_def retry_or_backstop_eq split: sum.split outcome.split)

text \<open>
  C25: a retried run comes back at an instant that lies between its end and its end plus the capped
  backoff of its failure count, with its carry and a failure counted, for the task's own backoff
  if it has one and the worker's otherwise.
\<close>

theorem retry_is_scheduled_within_backoff:
  assumes "chrono_ok (rt_chrono rt)" "MIN_UTC (rt_chrono rt) \<le> now" "now \<le> MAX_UTC (rt_chrono rt)"
    and "f64_rounding (rt_rounding rt)"
    and "fin_report fin = Inr rep" "fst (settlement_of rt w now fin) = Retry vis nf carry"
  defines "bo \<equiv> (case rep_backoff rep of Some b \<Rightarrow> b | None \<Rightarrow> cfg_backoff (w_config w))"
  assumes "cap bo \<le> 2 ^ 53"
  shows "now \<le> vis \<and> vis \<le> now + int (cap bo) \<and>
    vis \<le> now + int (base_delay bo (i32_max0_as_u32 nf)) \<and>
    carry = rep_carry rep \<and> nf = i32_saturating_add (fin_failure_count fin) 1"
proof -
  let ?nf = "i32_saturating_add (fin_failure_count fin) 1"
  let ?d = "retry_delay (rt_rounding rt) bo (cfg_jitter_fraction (w_config w)) (i32_max0_as_u32 ?nf) (fin_id fin)"
  have eq: "vis = add_duration (rt_chrono rt) now ?d" "nf = ?nf" "carry = rep_carry rep"
    using assms(5,6) by (auto simp: settlement_of_fst settlement_for_def retry_or_backstop_eq bo_def
        split: sum.splits outcome.splits if_splits)
  have cap: "base_delay bo (i32_max0_as_u32 ?nf) \<le> cap bo" using base_delay_le_cap by simp
  have "?d \<le> base_delay bo (i32_max0_as_u32 ?nf)"
    using retry_delay_le [OF assms(4)] cap assms(8) by (meson le_trans)
  with cap have "int ?d \<le> int (base_delay bo (i32_max0_as_u32 ?nf))"
    "int (base_delay bo (i32_max0_as_u32 ?nf)) \<le> int (cap bo)" by simp_all
  then show ?thesis
    using add_duration_eq [OF assms(1-3), of ?d] assms(3) unfolding eq by (intro conjI refl) linarith+
qed

theorem retry_is_scheduled_within_backoff_witness:
  "\<forall>store :: unit store_ops.
    let w = build None 7 (builder (Some 4) () store);
        rt = \<lparr>rt_chrono = calendar 0 (10 ^ 12), rt_rounding = id, rt_show = (\<lambda>_. [])\<rparr>;
        rep = \<lparr>rep_result = Inl (retryable ''timeout''), rep_carry = JBool True, rep_backoff = None,
               rep_attachment = None, rep_duration = 0\<rparr>;
        fin = \<lparr>fin_id = 9, fin_kind = ''mail'', fin_run_no = 6, fin_failure_count = 5, fin_report = Inr rep\<rparr>
    in \<exists>vis. fst (settlement_of rt w 1000 fin) = Retry vis 6 (JBool True) \<and>
         1000 \<le> vis \<and> vis \<le> 1000 + 120 * 10 ^ 9"
proof (intro allI, unfold Let_def)
  fix store :: "unit store_ops"
  let ?w = "build None 7 (builder (Some 4) () store)"
  let ?rt = "\<lparr>rt_chrono = calendar 0 (10 ^ 12), rt_rounding = id, rt_show = (\<lambda>_. [])\<rparr>"
  let ?rep = "\<lparr>rep_result = Inl (retryable ''timeout''), rep_carry = JBool True, rep_backoff = None,
    rep_attachment = None, rep_duration = 0\<rparr>"
  let ?fin = "\<lparr>fin_id = 9, fin_kind = ''mail'', fin_run_no = 6, fin_failure_count = 5, fin_report = Inr ?rep\<rparr>"
  have five: "i32_saturating_add 5 1 = 6" by (simp add: i32_saturating_add_def int_limits)
  obtain vis where vis: "fst (settlement_of ?rt ?w 1000 ?fin) = Retry vis 6 (JBool True)"
    by (simp add: settlement_of_fst settlement_for_def retryable_def build_error_def is_permanent_def
        retry_or_backstop_eq five backstop_reached_def build_def builder_def config_default_def DEFAULT_BACKSTOP_def)
  then have "1000 \<le> vis \<and> vis \<le> 1000 + 120 * 10 ^ 9"
    using retry_is_scheduled_within_backoff [OF _ _ _ _ _ vis, of ?rep]
    by (simp add: calendar_ok f64_rounding_id build_def builder_def config_default_def backoff_default_def backoff_new_def)
      (simp add: calendar_def MIN_BASE_def)
  with vis show "\<exists>vis. fst (settlement_of ?rt ?w 1000 ?fin) = Retry vis 6 (JBool True) \<and>
      1000 \<le> vis \<and> vis \<le> 1000 + 120 * 10 ^ 9" by blast
qed

end
