(* ===== verification/Worker_Sample.thy ===== *)
theory Worker_Sample
  imports Worker_Policy Postgres_Sample
begin

text \<open>
  A worker over the sample queue: one kind with a cap of one, whose handler panics, and the runtime
  it uses. The witnesses of the worker's properties run it.
\<close>

definition mail_worker :: "(unit, pg_state) worker" where
  "mail_worker =
     build (Some ''host'') 1 (set_lease (10 ^ 9)
       (register_capped text_task (\<lambda>_ _ _. Inl Panic_Other) 1 (builder (Some 4) () (pg_ops binary_codec))))"

lemma mail_worker_sel [simp]:
  "w_identity mail_worker = ''host:1''" "cfg_lease (w_config mail_worker) = 10 ^ 9"
  "w_store mail_worker = pg_ops binary_codec" "kinds (w_registry mail_worker) = [''mail'']"
  "cfg_concurrency (w_config mail_worker) = 2" "cfg_priority_ratio (w_config mail_worker) = Some 4"
  by (simp_all add: mail_worker_def build_def set_lease_def builder_def worker_identity_def decimal_one [simplified]
      clamp_lease_def worker_consts registry_new_def register_capped_def register_def kinds_def text_task_def
      config_default_def default_concurrency_def)

end
