(* ===== verification/Worker_Store.thy ===== *)
theory Worker_Store
  imports Worker_Sample Postgres_Props
begin

text \<open>
  The worker against a lawful store: idle waiting, claiming with fallback, recovery of abandoned
  claims, and what becomes of a job when its run pauses, fails, panics or is aborted.
\<close>

section \<open>Waiting and claiming\<close>

lemma wait_duration_range:
  assumes "config_ok (w_config w)"
  shows "MIN_POLL_MAX \<le> wait_duration rt w e now ks s \<and> wait_duration rt w e now ks s \<le> cfg_poll_max (w_config w)"
  using assms by (auto simp: wait_duration_def Let_def config_ok_def worker_consts split: sum.split option.split)

context store_reads
begin

lemma wait_duration_no_oversleep:
  assumes "w_store w = ops" "invar s" "chrono_ok (rt_chrono rt)"
    and "so_next_visible_at ops e ks s = Inr upcoming"
    and "a_job (view s) i = Some j" "job_status j = Pending" "job_kind j \<in> set ks" "env_now e < job_visible_at j"
  shows "int (wait_duration rt w e now ks s) \<le> max (5 * 10 ^ 6) (job_visible_at j - now)"
proof -
  obtain t where t: "upcoming = Some t" "t \<le> job_visible_at j"
    using next_visible_ok [OF assms(2,4)] assms(5-8) by (cases upcoming) fastforce+
  have "to_std (rt_chrono rt) (t - now) = (if t - now < 0 then None else Some (nat (t - now)))"
    using assms(3) unfolding chrono_ok_def by blast
  then have "wait_duration rt w e now ks s \<le> max (nat (t - now)) (5 * 10 ^ 6)"
    by (simp add: wait_duration_def assms(1,4) t(1) Let_def)
  then show ?thesis using t(2) by simp
qed

end

context store_contract
begin

text \<open>The last claim of an unsuccessful attempt was unconstrained, and found nothing to take.\<close>

lemma claim_with_fallback_none:
  assumes "w_store w = ops" "invar s" "\<And>n t. invar t \<Longrightarrow> invar (before_call cs n t)"
    and "claim_with_fallback w cs ks fl s = (Inr None, s')"
    and "a_job (view s') i = Some j" "claimable (env_now (call_at cs n)) ks FLOOR_ALL j"
    and "n = (if fl = FLOOR_ALL then 0 else 1)"
  shows "busy (call_at cs n) i"
proof -
  obtain q t where first: "so_claim_next ops (call_at cs 0) ks fl (cfg_lease (w_config w)) (w_identity w)
      (before_call cs 0 s) = (q, t)" by fastforce
  have s0: "invar (before_call cs 0 s)" using assms(2,3) by blast
  have none: "busy e i"
    if "invar u" "so_claim_next ops e ks FLOOR_ALL ls by u = (Inr None, s')" "claimable (env_now e) ks FLOOR_ALL j" for e ls "by" u
    using claim_ok [OF that(1,2)] that(3) assms(5) by (auto simp: spec_claim_def)
  show ?thesis
  proof (cases "fl = FLOOR_ALL")
    case True
    with assms(1,4) first have "so_claim_next ops (call_at cs 0) ks FLOOR_ALL (cfg_lease (w_config w)) (w_identity w)
        (before_call cs 0 s) = (Inr None, s')"
      by (auto simp: claim_with_fallback_def Let_def split: sum.splits if_splits)
    from none [OF s0 this] assms(6,7) True show ?thesis by simp
  next
    case False
    have "invar t" using claim_inv [OF s0] first by (metis snd_conv)
    then have s1: "invar (before_call cs 1 t)" by (rule assms(3))
    from False assms(1,4) first have "so_claim_next ops (call_at cs 1) ks FLOOR_ALL (cfg_lease (w_config w))
        (w_identity w) (before_call cs 1 t) = (Inr None, s')"
      by (auto simp: claim_with_fallback_def Let_def split: sum.splits if_splits)
    from none [OF s1 this] assms(6,7) False show ?thesis by simp
  qed
qed

text \<open>A reserved claim prefers the reserved tiers whenever one of their jobs can be taken.\<close>

lemma claim_with_fallback_reserved:
  assumes "w_store w = ops" "invar (before_call cs 0 s)"
    and "claim_with_fallback w cs ks fl s = (Inr (Some j'), s')"
    and "a_job (view (before_call cs 0 s)) i = Some j" "claimable (env_now (call_at cs 0)) ks fl j"
    and "\<not> busy (call_at cs 0) i"
  shows "fl \<le> job_priority j'"
proof -
  obtain q t where first: "so_claim_next ops (call_at cs 0) ks fl (cfg_lease (w_config w)) (w_identity w)
      (before_call cs 0 s) = (q, t)" by fastforce
  show ?thesis
  proof (cases q)
    case (Inl x)
    with assms(1,3) first show ?thesis by (simp add: claim_with_fallback_def Let_def)
  next
    case (Inr r)
    from claim_ok [OF assms(2) first [unfolded Inr]] assms(4-6) obtain k where "r = Some k" "fl \<le> job_priority k"
      by (cases r) (auto simp: spec_claim_def claimable_def claim_job_def)
    with assms(1,3) first Inr show ?thesis by (simp add: claim_with_fallback_def Let_def)
  qed
qed

end



text \<open>
  C21: a claim attempt of the worker comes back empty-handed only when no job of the requested kinds
  at any tier is eligible and free, so a slot reserved for a lower tier is never wasted; and when
  a job of the reserved tiers could be taken, the attempt takes one of those.
\<close>

theorem reserved_claim_is_never_wasted:
  assumes "pg_inv c s" "w_store w = pg_ops c" "\<forall>n t. pg_inv c t \<longrightarrow> pg_inv c (before_call cs n t)"
    and "claim_with_fallback w cs ks fl s = (Inr r, s')"
  shows "case r of
      None \<Rightarrow> (let e = call_at cs (if fl = FLOOR_ALL then 0 else 1) in
        \<forall>i j. a_job (pg_view c s') i = Some j \<and> claimable (env_now e) ks FLOOR_ALL j \<longrightarrow> env_locked e (to_string c i))
    | Some j' \<Rightarrow> (let e = call_at cs 0 in
        (\<exists>i j. a_job (pg_view c (before_call cs 0 s)) i = Some j \<and> claimable (env_now e) ks fl j \<and>
          \<not> env_locked e (to_string c i)) \<longrightarrow> fl \<le> job_priority j')"
proof (cases r)
  case None
  show ?thesis
    using pg.claim_with_fallback_none [OF assms(2,1) _ assms(4) [unfolded None]] assms(3) by (auto simp: None Let_def)
next
  case (Some j')
  have "pg_inv c (before_call cs 0 s)" using assms(1,3) by blast
  from pg.claim_with_fallback_reserved [OF assms(2) this assms(4) [unfolded Some]] show ?thesis
    by (auto simp: Some Let_def)
qed

theorem reserved_claim_is_never_wasted_witness:
  "claim_with_fallback mail_worker (quiet_calls 200) [''mail''] 1 sample_store = (Inr (Some sample_job), snd sample_claim) \<and>
   1 \<le> job_priority sample_job"
proof -
  let ?row = "row_of_job binary_codec (fresh_job sample_new)"
  have job: "claimable 200 [''mail''] 1 (fresh_job sample_new)"
    by (simp add: claimable_def fresh_job_def sample_new_def)
  have "pg_claim_candidates (env_at 200) [''mail''] f sample_store = [?row]" if "f \<in> {0, 1}" for f
    using that by (auto simp: pg_claim_candidates_def sample_tbl row_simps fresh_job_def sample_new_def)
  then have "pg_claim_next binary_codec (env_at 200) [''mail''] 1 (10 ^ 9) ''host:1'' sample_store = sample_claim"
    by (simp add: sample_claim_def pg_claim_next_def)
  then have claim: "pg_claim_next binary_codec (env_at 200) [''mail''] 1 (10 ^ 9) ''host:1'' sample_store =
      (Inr (Some sample_job), snd sample_claim)"
    using sample_claim_fst by (simp add: prod_eq_iff)
  then have eq: "claim_with_fallback mail_worker (quiet_calls 200) [''mail''] 1 sample_store =
      (Inr (Some sample_job), snd sample_claim)"
    using claim by (simp add: claim_with_fallback_def pg_ops_def Let_def)
  have "1 \<le> job_priority sample_job"
    using reserved_claim_is_never_wasted [OF sample_inv _ _ eq] job by (auto simp: Let_def split: if_splits)
  with eq show ?thesis by simp
qed

section \<open>Recovery of abandoned claims\<close>

definition stale_entry :: "datetime \<Rightarrow> job_record \<Rightarrow> journal_append" where
  "stale_entry now j =
     \<lparr>app_kind = job_kind j, app_run_no = job_run_count j, app_recorded_at = now,
      app_outcome = JStaleRecovered, app_note = Some (stale_note j), app_attachment = None\<rparr>"

definition stale_retry_at :: "runtime \<Rightarrow> ('S, 's) worker \<Rightarrow> datetime \<Rightarrow> job_record \<Rightarrow> datetime" where
  "stale_retry_at rt w now j =
     add_duration (rt_chrono rt) now
       (retry_delay (rt_rounding rt) (cfg_backoff (w_config w)) (cfg_jitter_fraction (w_config w))
         (i32_max0_as_u32 (i32_saturating_add (job_failure_count j) 1)) (job_id j))"

lemma recover_one_eq:
  "recover_one rt w e now j s =
    so_recover (w_store w) e (job_id j) (stale_retry_at rt w now j) (i32_saturating_add (job_failure_count j) 1)
      (job_run_count j) (stale_entry now j) s"
  by (simp add: recover_one_def stale_retry_at_def stale_entry_def Let_def)

text \<open>No other client interferes and no call fails; the backend's clock does not run backwards.\<close>

definition calm_calls :: "'s calls \<Rightarrow> bool" where
  "calm_calls cs \<longleftrightarrow>
     (\<forall>n s. before_call cs n s = s \<and> env_fault (call_at cs n) = None \<and>
       env_now (call_at cs 0) \<le> env_now (call_at cs n))"

definition recovered_job :: "runtime \<Rightarrow> ('S, 's) worker \<Rightarrow> datetime \<Rightarrow> job_record \<Rightarrow> job_record" where
  "recovered_job rt w now j =
     recover_job (stale_retry_at rt w now j) (i32_saturating_add (job_failure_count j) 1) j"

context store_contract
begin

lemma recover_one_effect:
  fixes rt :: runtime and now :: datetime
  assumes "w_store w = ops" "invar s" "env_fault e = None"
    and "a_job (view s) (job_id j) = Some j" "expired (env_now e) (job_run_count j) j"
  defines "s' \<equiv> snd (recover_one rt w e now j s)"
  shows "invar s' \<and> a_job (view s') = (a_job (view s))(job_id j \<mapsto> recovered_job rt w now j) \<and>
    a_journal (view s') = (a_journal (view s))(job_id j := a_journal (view s) (job_id j) @ [stale_entry now j])"
proof -
  let ?out = "recover_one rt w e now j s"
  have conf: "conforms view s ?out (spec_recover (env_now e) (stale_retry_at rt w now j)
      (i32_saturating_add (job_failure_count j) 1) (job_run_count j) (stale_entry now j) (job_id j) (view s))"
    unfolding recover_one_eq assms(1) using assms(2) by (rule recover_conforms)
  obtain v where "fst ?out = Inr v"
    using recover_responds [OF assms(2-4), of "stale_entry now j"]
    by (auto simp: recover_one_eq assms(1) stale_entry_def)
  with conf have "view s' = snd (spec_recover (env_now e) (stale_retry_at rt w now j)
      (i32_saturating_add (job_failure_count j) 1) (job_run_count j) (stale_entry now j) (job_id j) (view s))"
    by (simp add: conforms_def s'_def)
  moreover have "invar s'" by (simp add: s'_def recover_one_eq assms(1,2) recover_inv)
  ultimately show ?thesis using assms(4,5) by (simp add: spec_recover_def guarded_def recovered_job_def)
qed

lemma recover_all_effect:
  fixes rt :: runtime and now :: datetime and n :: nat
  assumes "w_store w = ops" "calm_calls cs" "invar s" "distinct (map job_id js)"
    and "\<forall>j \<in> set js. a_job (view s) (job_id j) = Some j \<and> expired (env_now (call_at cs 0)) (job_run_count j) j"
  defines "s' \<equiv> recover_all rt w cs now n js s"
  shows "invar s' \<and>
    (\<forall>i. i \<notin> job_id ` set js \<longrightarrow> a_job (view s') i = a_job (view s) i \<and> a_journal (view s') i = a_journal (view s) i) \<and>
    (\<forall>j \<in> set js. a_job (view s') (job_id j) = Some (recovered_job rt w now j) \<and>
      a_journal (view s') (job_id j) = a_journal (view s) (job_id j) @ [stale_entry now j])"
  using assms(3-5) unfolding s'_def
proof (induction js arbitrary: n s)
  case (Cons j js)
  let ?t = "snd (recover_one rt w (call_at cs n) now j s)"
  have calm: "before_call cs n s = s" "env_fault (call_at cs n) = None" "env_now (call_at cs 0) \<le> env_now (call_at cs n)"
    using assms(2) by (simp_all add: calm_calls_def)
  have "expired (env_now (call_at cs n)) (job_run_count j) j" using Cons.prems(3) calm(3) by (auto simp: expired_def)
  then have t: "invar ?t" "a_job (view ?t) = (a_job (view s))(job_id j \<mapsto> recovered_job rt w now j)"
    "a_journal (view ?t) = (a_journal (view s))(job_id j := a_journal (view s) (job_id j) @ [stale_entry now j])"
    using recover_one_effect [OF assms(1) Cons.prems(1) calm(2), of j] Cons.prems(3) by simp_all
  have other: "job_id k \<noteq> job_id j" if "k \<in> set js" for k using Cons.prems(2) that by (metis distinct.simps(2) image_eqI list.simps(9) list.set_map)
  then have rest: "\<forall>k \<in> set js. a_job (view ?t) (job_id k) = Some k \<and> expired (env_now (call_at cs 0)) (job_run_count k) k"
    using Cons.prems(3) by (simp add: t(2))
  have "distinct (map job_id js)" using Cons.prems(2) by simp
  from Cons.IH [OF t(1) this rest, of "n + 1"] show ?case
    using other Cons.prems(2) by (auto simp: t(2,3) calm(1))
qed simp

end

lemma pg_find_stale_distinct:
  assumes "pg_inv c st" "pg_find_stale c e st = Inr stale"
  shows "distinct (map job_id stale)"
proof -
  let ?rows = "take 100 (sort_key (\<lambda>r. (the (r_claim_expires_at r), env_plan e (r_id r)))
    (filter (expired_row (env_now e)) (jobs_tbl st)))"
  obtain js where js: "ulid_codec_ok c" "jobs_tbl st = map (row_of_job c) js" "distinct (map job_id js)"
    using pg_invE [OF assms(1)] by (metis job_list_ok_def)
  have "set ?rows \<subseteq> set (map (row_of_job c) js)" by (auto dest!: in_set_takeD simp: js(2))
  then obtain js' where js': "?rows = map (row_of_job c) js'" "set js' \<subseteq> set js" by (rule rows_of_jobs)
  have stale: "stale = js'"
    using assms(2) by (simp add: pg_find_stale_def bind_ok_eq_Inr fetch_Inr js'(1) collect_job_rows js(1))
  have "distinct ?rows" using pg_rows_distinct(1) [OF assms(1)] by (intro distinct_take) simp
  then have "distinct js'" unfolding js'(1) by (simp add: distinct_map)
  moreover have "inj_on job_id (set js')" using js(3) js'(2) by (meson distinct_map inj_on_subset)
  ultimately show ?thesis by (simp add: stale distinct_map)
qed


lemma sample_claim_stale:
  "pg_find_stale binary_codec (env_at (201 + 10 ^ 9)) (snd sample_claim) = Inr [sample_job]"
proof -
  have "jobs_tbl (snd sample_claim) = [row_of_job binary_codec sample_job]"
  proof -
    let ?row = "row_of_job binary_codec (fresh_job sample_new)"
    have "pg_claim_candidates (env_at 200) [''mail''] 0 sample_store = [?row]"
      by (simp add: pg_claim_candidates_def sample_tbl row_simps fresh_job_def sample_new_def)
    moreover have "sint (r_run_count ?row) \<noteq> i32_max" by (simp add: row_simps fresh_job_def int_limits)
    ultimately show ?thesis
      by (simp add: sample_claim_def pg_claim_next_def Let_def transact_def claim_row_of_job sample_job_def sql_update_def
          sample_tbl)
  qed
  moreover have "expired_row (201 + 10 ^ 9) (row_of_job binary_codec sample_job)"
    by (simp add: expired_row_def row_of_job_sel sample_job_def claim_job_def)
  ultimately show ?thesis by (simp add: pg_find_stale_def fetch_def binary_codec_ok)
qed


section \<open>What a run leaves behind\<close>

lemma spawn_registered:
  assumes "w_registry w = register T h cp reg" "KIND T = job_kind j"
  shows "fin_report (spawn w j hist cancel elapsed) =
    erased_run T h elapsed \<lparr>in_id = job_id j, in_payload = job_payload j, in_carry = job_carry j,
      in_run_count = job_run_count j, in_history = hist, in_state = w_state w, in_cancel = cancel,
      in_panic_policy = cfg_panic_policy (w_config w)\<rparr>"
  using assms by (simp add: spawn_def dispatch_def registry_lookup)

lemmas spawn_decoded = spawn_registered [THEN trans, OF _ _ erased_run_decoded, simplified run_input.simps]

lemma settlement_of_snd:
  "fin_report fin = Inr rep \<Longrightarrow> app_note (snd (settlement_of rt w now fin)) = note_for (rep_result rep) \<and>
    app_attachment (snd (settlement_of rt w now fin)) = rep_attachment rep"
  by (simp add: settlement_of_def Let_def)

lemma sample_job_sel:
  "job_id sample_job = 1" "job_kind sample_job = ''mail''" "job_payload sample_job = JString ''hello''"
  "job_carry sample_job = JNull" "job_run_count sample_job = 1" "job_failure_count sample_job = 0"
  "job_status sample_job = Claimed" "job_claimed_by sample_job = Some ''host:1''"
  by (simp_all add: sample_job_def sample_new_def claim_job_def fresh_job_def)

lemma mail_worker_runs:
  "w_registry mail_worker = register text_task (\<lambda>_ _ _. Inl Panic_Other) (Some 1) []"
  "cfg_panic_policy (w_config mail_worker) = Panic_Retry" "cfg_backstop (w_config mail_worker) = Some 20"
  by (simp_all add: mail_worker_def build_def set_lease_def register_capped_def builder_def registry_new_def
      config_default_def worker_consts)

lemma i32_add_one_of_zero: "i32_saturating_add 0 1 = 1"
  by (simp add: i32_saturating_add_def int_limits)

lemma i32_one_as_u32: "i32_max0_as_u32 1 = 1"
  by (simp add: i32_max0_as_u32_def)

text \<open>
  C14: a panicking handler cannot corrupt its job: the run is recorded as failed with the panic's message
  and without attachment, and under the retry policy, short of the backstop, it is retried from
  exactly the carry stored before the run; under the other policy the job is buried.
\<close>

theorem panic_is_settled_from_last_good_state:
  assumes "w_registry w = register T h cp reg" "KIND T = job_kind j"
    and "from_value T (job_payload j) = Inr task" "decode_carry T (job_carry j) = Inr carry"
    and "h task (context_new (job_id j) (job_run_count j) hist carry cancel) (w_state w) = Inl panic"
  defines "out \<equiv> \<lambda>rt now elapsed. settlement_of rt w now (spawn w j hist cancel elapsed)"
  shows "app_outcome (snd (out rt now elapsed)) \<in> {JRetried, JDead} \<and>
    app_run_no (snd (out rt now elapsed)) = job_run_count j \<and>
    app_note (snd (out rt now elapsed)) = Some (panic_message panic) \<and>
    app_attachment (snd (out rt now elapsed)) = None \<and>
    (if cfg_panic_policy (w_config w) = Panic_Dead \<or>
        backstop_reached (w_config w) (i32_saturating_add (job_failure_count j) 1)
     then fst (out rt now elapsed) = GiveUp now (i32_saturating_add (job_failure_count j) 1)
     else \<exists>vis. fst (out rt now elapsed) = Retry vis (i32_saturating_add (job_failure_count j) 1) (job_carry j))"
proof -
  let ?fin = "spawn w j hist cancel elapsed"
  obtain rep where rep: "fin_report ?fin = Inr rep" "rep_carry rep = job_carry j" "rep_attachment rep = None"
    "rep_result rep = Inl (build_error (cfg_panic_policy (w_config w) = Panic_Dead) (panic_message panic))"
    using spawn_decoded [OF assms(1-4), of hist cancel elapsed] assms(5) by auto
  have stl: "fst (settlement_of rt w now ?fin) =
      (if cfg_panic_policy (w_config w) = Panic_Dead \<or> backstop_reached (w_config w) (i32_saturating_add (job_failure_count j) 1)
       then GiveUp now (i32_saturating_add (job_failure_count j) 1)
       else Retry (add_duration (rt_chrono rt) now (retry_delay (rt_rounding rt)
           (case rep_backoff rep of Some b \<Rightarrow> b | None \<Rightarrow> cfg_backoff (w_config w)) (cfg_jitter_fraction (w_config w))
           (i32_max0_as_u32 (i32_saturating_add (job_failure_count j) 1)) (job_id j)))
         (i32_saturating_add (job_failure_count j) 1) (job_carry j))"
    by (auto simp: settlement_of_fst rep settlement_for_def is_permanent_def build_error_def retry_or_backstop_eq)
  show ?thesis
    unfolding out_def settlement_of_journal stl
    using settlement_of_snd [OF rep(1), of rt w now] rep(3,4) by (auto simp: build_error_def)
qed

text \<open>The mail handler panics on the claimed sample job: it is retried from the carry it was enqueued with.\<close>

theorem panic_is_settled_from_last_good_state_witness:
  "\<exists>vis. fst (settlement_of sample_runtime mail_worker 7 (spawn mail_worker sample_job [] False 3)) = Retry vis 1 JNull"
  using panic_is_settled_from_last_good_state [of mail_worker text_task "\<lambda>_ _ _. Inl Panic_Other" "Some 1" "[]"
      sample_job "''hello''" "()" "[]" False Panic_Other sample_runtime 7 3]
  by (simp add: mail_worker_runs sample_job_sel text_task_def decode_carry_def is_null_def backstop_reached_def
      i32_add_one_of_zero i32_one_as_u32)

text \<open>
  C15: the state a handler leaves in its context is the state its next run starts from: when a run ends
  in a pause or a retry, the carry stored with the settled job decodes to exactly the carry the
  handler left, for every task whose codec decodes what it encodes, and the payload is unchanged.
\<close>

theorem carry_reaches_the_next_run:
  assumes "w_registry w = register T h cp reg" "KIND T = job_kind j" "task_codec_ok T"
    and "from_value T (job_payload j) = Inr task" "decode_carry T (job_carry j) = Inr carry"
    and "h task (context_new (job_id j) (job_run_count j) hist carry cancel) (w_state w) = Inr (result, ctx)"
    and "carry_to_value T (ctx_carry ctx) = Inr v"
    and "stl = fst (settlement_of rt w now (spawn w j hist cancel elapsed))"
    and "job_status (settle_job stl j) = Pending"
  shows "decode_carry T (job_carry (settle_job stl j)) = Inr (ctx_carry ctx) \<and>
    from_value T (job_payload (settle_job stl j)) = Inr task"
proof -
  let ?fin = "spawn w j hist cancel elapsed"
  obtain rep where rep: "fin_report ?fin = Inr rep" "rep_carry rep = v"
    using spawn_decoded [OF assms(1,2,4,5), of hist cancel elapsed] assms(6,7) by auto
  have "job_carry (settle_job stl j) = v"
    using assms(8,9) rep(2) by (auto simp: settlement_of_fst rep(1) settlement_for_def retry_or_backstop_eq unclaim_def
        split: sum.splits outcome.splits if_splits)
  moreover have "job_payload (settle_job stl j) = job_payload j" by (cases stl) (simp_all add: unclaim_def)
  ultimately show ?thesis using assms(3,4,7) by (simp add: task_codec_ok_def)
qed

text \<open>A task that carries a text, whose handler pauses after extending it.\<close>

definition log_task :: "(string, string) task_def" where
  "log_task =
     \<lparr>KIND = ''mail'', to_value = (\<lambda>t. Inr (JString t)),
      from_value = (\<lambda>v. case v of JString t \<Rightarrow> Inr t | _ \<Rightarrow> Inl ''expected a string''),
      carry_to_value = (\<lambda>c. Inr (JString c)),
      carry_from_value = (\<lambda>v. case v of JString t \<Rightarrow> Inr t | _ \<Rightarrow> Inl ''expected a string''), carry_default = [],
      task_priority = (\<lambda>_. Normal), task_dedup_key = (\<lambda>_. None),
      task_merge = (\<lambda>_ _. Keep), task_backoff = (\<lambda>_. None), task_lease = (\<lambda>_. None)\<rparr>"

definition log_handler :: "(string, string, unit) handler" where
  "log_handler t ctx st = Inr (Inr (Outcome_Pause 5 None), ctx\<lparr>ctx_carry := ctx_carry ctx @ t\<rparr>)"

definition log_worker :: "(unit, pg_state) worker" where
  "log_worker = build (Some ''host'') 1 (wb_register log_task log_handler (builder (Some 4) () (pg_ops binary_codec)))"

lemma log_worker_sel: "w_registry log_worker = register log_task log_handler None []"
  by (simp add: log_worker_def build_def wb_register_def builder_def registry_new_def)

lemma log_task_codec_ok: "task_codec_ok log_task"
  by (simp add: task_codec_ok_def log_task_def decode_carry_def is_null_def)

theorem carry_reaches_the_next_run_witness:
  "decode_carry log_task (job_carry (settle_job (fst (settlement_of sample_runtime log_worker 7
     (spawn log_worker sample_job [] False 3))) sample_job)) = Inr ''hello''"
proof -
  let ?ctx = "context_new 1 1 [] [] False"
  have run: "fin_report (spawn log_worker sample_job [] False 3) = Inr \<lparr>rep_result = Inr (Outcome_Pause 5 None),
      rep_carry = JString ''hello'', rep_backoff = None, rep_attachment = None, rep_duration = 3\<rparr>"
    by (subst spawn_registered [OF log_worker_sel])
      (simp_all add: sample_job_sel log_task_def log_handler_def erased_run_def is_null_def context_new_def into_parts_def)
  have "job_status (settle_job (fst (settlement_of sample_runtime log_worker 7 (spawn log_worker sample_job [] False 3)))
      sample_job) = Pending"
    by (simp add: settlement_of_fst run settlement_for_def unclaim_def)
  with carry_reaches_the_next_run [OF log_worker_sel _ log_task_codec_ok, of sample_job "''hello''" "[]" "[]" False
      "Inr (Outcome_Pause 5 None)" "?ctx\<lparr>ctx_carry := ''hello''\<rparr>" "JString ''hello''" _ sample_runtime 7 3]
  show ?thesis
    by (simp add: sample_job_sel log_task_def log_handler_def decode_carry_def is_null_def context_new_def)
qed

text \<open>
  A job whose handler was aborted by a forced shutdown is pending again at once, with its payload,
  carry and failure count as before the run, no owner, and a released entry that does not count
  as a failure.
\<close>

theorem release_returns_job_without_failure:
  assumes "pg_inv c s" "w_store w = pg_ops c" "env_fault e = None"
    and "a_job (pg_view c s) (inf_id job) = Some j" "owned (w_identity w) (inf_run_no job) j"
  shows "\<exists>ja. a_job (pg_view c (release w e now job s)) (inf_id job) =
        Some (j\<lparr>job_status := Pending, job_visible_at := now, job_claimed_by := None, job_claim_expires_at := None\<rparr>) \<and>
      a_journal (pg_view c (release w e now job s)) (inf_id job) = a_journal (pg_view c s) (inf_id job) @ [ja] \<and>
      app_run_no ja = inf_run_no job \<and> \<not> is_failure (app_outcome ja)"
proof -
  define ja where "ja = \<lparr>app_kind = inf_kind job, app_run_no = inf_run_no job, app_recorded_at = now,
    app_outcome = JReleased, app_note = Some ''released by graceful shutdown'', app_attachment = None\<rparr>"
  let ?out = "pg_settle c e (inf_id job) (w_identity w) (inf_run_no job) (Release now) ja s"
  have rel: "release w e now job s = snd ?out" by (simp add: release_def ja_def assms(2) pg_ops_sel Let_def)
  have "\<exists>v. fst (so_settle (pg_ops c) e (inf_id job) (w_identity w) (job_run_count j) (Release now) ja s) = Inr v"
    using pg.settle_responds [OF assms(1,3,4)] assms(5) by (simp add: ja_def owned_def)
  then obtain v where "fst ?out = Inr v" using assms(5) by (auto simp: pg_ops_sel owned_def)
  with pg_settle_conforms(2) [OF assms(1), of e "inf_id job" "w_identity w" "inf_run_no job" "Release now" ja]
  have "pg_view c (snd ?out) = snd (spec_settle (w_identity w) (inf_run_no job) (Release now) ja (inf_id job) (pg_view c s))"
    by (simp add: conforms_def)
  then show ?thesis
    using assms(4,5) by (intro exI [of _ ja]) (simp add: rel spec_settle_def guarded_def unclaim_def ja_def)
qed

theorem release_returns_job_without_failure_witness:
  "\<exists>ja. a_journal (pg_view binary_codec (release mail_worker (env_at 300) 300
     \<lparr>inf_id = 1, inf_kind = ''mail'', inf_run_no = 1\<rparr> (snd sample_claim))) 1 = [ja] \<and> \<not> is_failure (app_outcome ja)"
  using release_returns_job_without_failure [OF sample_claim_inv, of mail_worker "env_at 300"
      "\<lparr>inf_id = 1, inf_kind = ''mail'', inf_run_no = 1\<rparr>" sample_job 300]
  by (auto simp: owned_def sample_job_sel)

end
