(* ===== verification/Queue_Model.thy ===== *)
theory Queue_Model
  imports Postgres_Sample
begin

text \<open>
  The producer-side queue handle (\<^verbatim>\<open>src/queue.rs\<close>): enqueueing with the deduplication flow. The
  flow reads a candidate, reads its journal, decides, and writes, as separate store calls; between
  them other clients act on the store, which \<open>calls\<close> makes explicit.
\<close>

section \<open>Definitions\<close>

text \<open>\<open>uid\<close> is the identifier \<^verbatim>\<open>Ulid::new\<close> generates; \<open>n\<close> numbers the store call.\<close>

definition queue_insert ::
  "'s store_ops \<Rightarrow> ('t, 'c) task_def \<Rightarrow> 's calls \<Rightarrow> nat \<Rightarrow> ulid \<Rightarrow> 't \<Rightarrow> datetime \<Rightarrow> datetime
    \<Rightarrow> string option \<Rightarrow> 's \<Rightarrow> ulid res \<times> 's" where
  "queue_insert ops T cs n uid task created_at visible_at key s =
     (case from_serde (to_value T task) of
        Inl x \<Rightarrow> (Inl x, s)
      | Inr payload \<Rightarrow>
     (case from_serde (carry_to_value T (carry_default T)) of
        Inl x \<Rightarrow> (Inl x, s)
      | Inr carry \<Rightarrow>
          let job = \<lparr>new_id = uid, new_kind = KIND T, new_payload = payload,
                     new_priority = as_smallint (task_priority T task), new_created_at = created_at,
                     new_visible_at = visible_at, new_carry = carry, new_dedup_key = key\<rparr>;
              (r, s') = so_enqueue ops (call_at cs n) job (before_call cs n s)
          in (bind_ok r (\<lambda>_. Inr uid), s')))"

definition apply_merge ::
  "'s store_ops \<Rightarrow> ('t, 'c) task_def \<Rightarrow> 's calls \<Rightarrow> nat \<Rightarrow> ulid \<Rightarrow> datetime \<Rightarrow> job_record
    \<Rightarrow> merge_payload option \<Rightarrow> 't \<Rightarrow> datetime \<Rightarrow> datetime \<Rightarrow> string \<Rightarrow> 's \<Rightarrow> ulid res \<times> 's" where
  "apply_merge ops T cs n uid now candidate update incoming created_at visible_at key s =
     (let journal = \<lparr>app_kind = job_kind candidate, app_run_no = job_run_count candidate,
                     app_recorded_at = now, app_outcome = JMerged,
                     app_note = Some ''enqueue merged into pending job'', app_attachment = None\<rparr>;
          (r, s1) = so_merge_into ops (call_at cs n) (job_id candidate) update journal
                      (before_call cs n s)
      in case r of
           Inl x \<Rightarrow> (Inl x, s1)
         | Inr merged \<Rightarrow>
             if merged then (Inr (job_id candidate), s1)
             else queue_insert ops T cs (n + 1) uid incoming created_at visible_at (Some key) s1)"

text \<open>The update a merge decision asks for; \<open>Inr None\<close> leaves the existing job untouched.\<close>

definition merge_update ::
  "('t, 'c) task_def \<Rightarrow> 't \<Rightarrow> 'c \<Rightarrow> merge_payload res" where
  "merge_update T task carry =
     bind_ok (from_serde (to_value T task)) (\<lambda>payload.
     bind_ok (from_serde (carry_to_value T carry)) (\<lambda>cv.
       Inr \<lparr>mp_payload = payload, mp_carry = cv, mp_priority = as_smallint (task_priority T task)\<rparr>))"

definition submit ::
  "'s store_ops \<Rightarrow> ('t, 'c) task_def \<Rightarrow> 's calls \<Rightarrow> ulid \<Rightarrow> datetime \<Rightarrow> 't \<Rightarrow> datetime \<Rightarrow> datetime
    \<Rightarrow> 's \<Rightarrow> ulid res \<times> 's" where
  "submit ops T cs uid now task created_at visible_at s =
     (case task_dedup_key T task of
        None \<Rightarrow> queue_insert ops T cs 0 uid task created_at visible_at None s
      | Some dedup_key \<Rightarrow>
          let key = as_str dedup_key;
              s0 = before_call cs 0 s
          in case so_dedup_candidate ops (call_at cs 0) (KIND T) key s0 of
               Inl x \<Rightarrow> (Inl x, s0)
             | Inr None \<Rightarrow> queue_insert ops T cs 1 uid task created_at visible_at (Some key) s0
             | Inr (Some candidate) \<Rightarrow>
            (case from_serde (from_value T (job_payload candidate)) of
               Inl x \<Rightarrow> (Inl x, s0)
             | Inr existing_payload \<Rightarrow>
            (case (if is_null (job_carry candidate) then Inr (carry_default T)
                   else from_serde (carry_from_value T (job_carry candidate))) of
               Inl x \<Rightarrow> (Inl x, s0)
             | Inr existing_carry \<Rightarrow>
            (let s1 = before_call cs 1 s0 in
             case so_journal ops (call_at cs 1) (job_id candidate) s1 of
               Inl x \<Rightarrow> (Inl x, s1)
             | Inr records \<Rightarrow>
                 let pend = pending_new existing_payload existing_carry (job_run_count candidate)
                              (map from_record records)
                 in case task_merge T task pend of
                      Independent \<Rightarrow>
                        queue_insert ops T cs 2 uid task created_at visible_at (Some key) s1
                    | Keep \<Rightarrow>
                        apply_merge ops T cs 2 uid now candidate None task created_at visible_at key s1
                    | Replace \<Rightarrow>
                        (case merge_update T task (carry_default T) of
                           Inl x \<Rightarrow> (Inl x, s1)
                         | Inr update \<Rightarrow>
                             apply_merge ops T cs 2 uid now candidate (Some update) task created_at
                               visible_at key s1)
                    | With merged carry \<Rightarrow>
                        (case merge_update T merged carry of
                           Inl x \<Rightarrow> (Inl x, s1)
                         | Inr update \<Rightarrow>
                             apply_merge ops T cs 2 uid now candidate (Some update) task created_at
                               visible_at key s1)))))"

definition queue_enqueue ::
  "'s store_ops \<Rightarrow> ('t, 'c) task_def \<Rightarrow> 's calls \<Rightarrow> ulid \<Rightarrow> datetime \<Rightarrow> datetime \<Rightarrow> 't \<Rightarrow> 's
    \<Rightarrow> ulid res \<times> 's" where
  "queue_enqueue ops T cs uid now merged_at task s = submit ops T cs uid merged_at task now now s"

definition queue_enqueue_at ::
  "'s store_ops \<Rightarrow> ('t, 'c) task_def \<Rightarrow> 's calls \<Rightarrow> ulid \<Rightarrow> datetime \<Rightarrow> datetime \<Rightarrow> 't \<Rightarrow> datetime
    \<Rightarrow> 's \<Rightarrow> ulid res \<times> 's" where
  "queue_enqueue_at ops T cs uid now merged_at task when s =
     submit ops T cs uid merged_at task now when s"

section \<open>Inspection and retention\<close>

text \<open>The remaining methods of the handle pass on to the store; the second clock of \<open>queue_stats\<close> is the
  client's, and its three states are those its three queries see.\<close>

definition queue_jobs :: "'s store_ops \<Rightarrow> call_env \<Rightarrow> history_filter \<Rightarrow> 's \<Rightarrow> job_record list res" where
  "queue_jobs ops e hf s = so_query_jobs ops e hf s"

definition queue_job :: "'s store_ops \<Rightarrow> call_env \<Rightarrow> ulid \<Rightarrow> 's \<Rightarrow> job_record option res" where
  "queue_job ops e i s = so_job ops e i s"

definition queue_job_journal :: "'s store_ops \<Rightarrow> call_env \<Rightarrow> ulid \<Rightarrow> 's \<Rightarrow> journal_record list res" where
  "queue_job_journal ops e i s = so_journal ops e i s"

definition queue_cleanup :: "'s store_ops \<Rightarrow> call_env \<Rightarrow> cleanup_criteria \<Rightarrow> 's \<Rightarrow> nat res \<times> 's" where
  "queue_cleanup ops e cc s = so_cleanup ops e cc s"

definition queue_stats :: "'s store_ops \<Rightarrow> call_env \<Rightarrow> datetime \<Rightarrow> 's \<Rightarrow> 's \<Rightarrow> 's \<Rightarrow> snapshot res" where
  "queue_stats ops e now s1 s2 s3 = so_stats ops e now s1 s2 s3"

section \<open>Where the work ends up\<close>

definition new_job_of ::
  "('t, 'c) task_def \<Rightarrow> ulid \<Rightarrow> 't \<Rightarrow> datetime \<Rightarrow> datetime \<Rightarrow> string option \<Rightarrow> json \<Rightarrow> json \<Rightarrow> new_job" where
  "new_job_of T uid task created_at visible_at key payload carry =
     \<lparr>new_id = uid, new_kind = KIND T, new_payload = payload,
      new_priority = as_smallint (task_priority T task), new_created_at = created_at,
      new_visible_at = visible_at, new_carry = carry, new_dedup_key = key\<rparr>"

text \<open>The job is stored as a fresh pending job of the incoming task, with an empty journal.\<close>

definition stored_fresh ::
  "('t, 'c) task_def \<Rightarrow> ulid \<Rightarrow> 't \<Rightarrow> datetime \<Rightarrow> datetime \<Rightarrow> ulid \<Rightarrow> astore \<Rightarrow> bool" where
  "stored_fresh T uid task created_at visible_at i a \<longleftrightarrow>
     i = uid \<and> (\<exists>payload carry. to_value T task = Inr payload \<and>
       carry_to_value T (carry_default T) = Inr carry \<and>
       a_job a uid = Some (fresh_job (new_job_of T uid task created_at visible_at
         (map_option as_str (task_dedup_key T task)) payload carry))) \<and> a_journal a uid = []"

text \<open>
  The job is coalesced into a pending job: the decision's payload, carry and priority are on it and
  its journal ends in a merged entry.
\<close>

definition stored_merged ::
  "('t, 'c) task_def \<Rightarrow> 't \<Rightarrow> ulid \<Rightarrow> astore \<Rightarrow> bool" where
  "stored_merged T task i a \<longleftrightarrow>
     (\<exists>pend j update ja.
        a_job a i = Some (merge_job update j) \<and> job_status j = Pending \<and>
        a_journal a i \<noteq> [] \<and> ja = last (a_journal a i) \<and> app_outcome ja = JMerged \<and>
        app_run_no ja = pend_run_count pend \<and>
        (case task_merge T task pend of
           Independent \<Rightarrow> False
         | Keep \<Rightarrow> update = None
         | Replace \<Rightarrow> \<exists>u. update = Some u \<and> merge_update T task (carry_default T) = Inr u
         | With merged carry \<Rightarrow> \<exists>u. update = Some u \<and> merge_update T merged carry = Inr u))"

text \<open>
  Other clients keep the store lawful and do not use the identifier this client generated.
\<close>

definition fair_calls :: "('s \<Rightarrow> bool) \<Rightarrow> ('s \<Rightarrow> astore) \<Rightarrow> ulid \<Rightarrow> 's calls \<Rightarrow> bool" where
  "fair_calls ok view uid cs \<longleftrightarrow>
     (\<forall>n s. ok s \<longrightarrow> ok (before_call cs n s) \<and>
       (a_job (view s) uid = None \<longrightarrow> a_job (view (before_call cs n s)) uid = None))"

lemma stored_mergedI:
  assumes "invar' \<and> (fresh \<or> i = k \<and> (\<exists>j. a_job a i = Some (merge_job u j) \<and> job_status j = Pending) \<and>
      a_journal a i \<noteq> [] \<and> app_outcome (last (a_journal a i)) = JMerged \<and>
      app_run_no (last (a_journal a i)) = rn)"
    and "pend_run_count pend = rn"
    and "case task_merge T task pend of Independent \<Rightarrow> False | Keep \<Rightarrow> u = None
      | Replace \<Rightarrow> \<exists>v. u = Some v \<and> merge_update T task (carry_default T) = Inr v
      | With m c \<Rightarrow> \<exists>v. u = Some v \<and> merge_update T m c = Inr v"
  shows "invar' \<and> (fresh \<or> stored_merged T task i a)"
proof (cases fresh)
  case False
  with assms(1) obtain j where "a_job a i = Some (merge_job u j)" "job_status j = Pending" by blast
  then have "stored_merged T task i a"
    unfolding stored_merged_def
    by (intro exI [of _ pend] exI [of _ j] exI [of _ u] exI [of _ "last (a_journal a i)"])
      (use assms False in auto)
  with assms(1) show ?thesis by blast
qed (use assms(1) in blast)

lemma merge_update_valid: "merge_update T task c = Inr u \<Longrightarrow> merge_valid (Some u)"
  using as_smallint_range [of "task_priority T task"]
  by (auto simp: merge_update_def bind_ok_eq_Inr merge_valid_def)

context store_writes
begin

lemma queue_insert_outcome:
  assumes "fair_calls invar view uid cs" "invar s" "a_job (view s) uid = None"
    and key: "key = map_option as_str (task_dedup_key T task)"
    and "queue_insert ops T cs n uid task cr vis key s = (Inr i, s')"
  shows "invar s' \<and> stored_fresh T uid task cr vis i (view s')"
proof -
  let ?s = "before_call cs n s"
  have s: "invar ?s" "a_job (view ?s) uid = None" using assms(1-3) by (simp_all add: fair_calls_def)
  obtain payload carry where v: "to_value T task = Inr payload" "carry_to_value T (carry_default T) = Inr carry"
    using assms(5) by (auto simp: queue_insert_def from_serde_def split: sum.splits)
  let ?nj = "new_job_of T uid task cr vis (map_option as_str (task_dedup_key T task)) payload carry"
  have out: "so_enqueue ops (call_at cs n) ?nj ?s = (Inr (), s')" "i = uid"
    using assms(5) by (auto simp: queue_insert_def key v Let_def new_job_of_def bind_ok_eq_Inr split: prod.splits)
  have nj: "new_priority ?nj \<in> {0, 1, 2}" "new_id ?nj = uid"
    using as_smallint_range [of "task_priority T task"] by (simp_all add: new_job_of_def)
  then have "invar s'" "view s' = spec_enqueue ?nj (view ?s)"
    using enqueue_inv [OF s(1), of ?nj "call_at cs n"] enqueue_conforms [OF s(1) nj(1), of "call_at cs n"] s(2)
    by (simp_all add: out conforms_Inr)
  moreover have "a_journal (view ?s) uid = []" using view_wf [OF s(1)] s(2) by (simp add: astore_wf_def)
  ultimately show ?thesis using v out(2) by (auto simp: stored_fresh_def spec_enqueue_def new_job_of_def)
qed

lemma apply_merge_outcome:
  assumes "fair_calls invar view uid cs" "invar s" "a_job (view s) uid = None"
    and "merge_valid u" "task_dedup_key T task = Some dk"
    and "apply_merge ops T cs n uid now cand u task cr vis (as_str dk) s = (Inr i, s')"
  shows "invar s' \<and> (stored_fresh T uid task cr vis i (view s') \<or>
    (i = job_id cand \<and> (\<exists>j. a_job (view s') i = Some (merge_job u j) \<and> job_status j = Pending) \<and>
      a_journal (view s') i \<noteq> [] \<and> app_outcome (last (a_journal (view s') i)) = JMerged \<and>
      app_run_no (last (a_journal (view s') i)) = job_run_count cand))"
proof -
  let ?s = "before_call cs n s"
  let ?ja = "\<lparr>app_kind = job_kind cand, app_run_no = job_run_count cand, app_recorded_at = now,
    app_outcome = JMerged, app_note = Some ''enqueue merged into pending job'', app_attachment = None\<rparr>"
  have s: "invar ?s" "a_job (view ?s) uid = None" using assms(1-3) by (simp_all add: fair_calls_def)
  obtain m s1 where call: "so_merge_into ops (call_at cs n) (job_id cand) u ?ja ?s = (Inr m, s1)"
    using assms(6) by (auto simp: apply_merge_def Let_def split: prod.splits sum.splits)
  have inv1: "invar s1" using merge_inv [OF s(1) assms(4)] call by (metis snd_conv)
  have spec: "m = fst (spec_merge u ?ja (job_id cand) (view ?s))" "view s1 = snd (spec_merge u ?ja (job_id cand) (view ?s))"
    using merge_conforms [OF s(1) assms(4), of "call_at cs n" "job_id cand" ?ja]
    by (simp_all add: call conforms_Inr)
  show ?thesis
  proof (cases m)
    case True
    with assms(6) call have i: "i = job_id cand" "s' = s1" by (simp_all add: apply_merge_def)
    obtain j where "a_job (view ?s) (job_id cand) = Some j" "job_status j = Pending"
      using spec True by (auto simp: spec_merge_def guarded_def split: option.splits if_splits)
    with spec True have "a_job (view s1) (job_id cand) = Some (merge_job u j)"
      "a_journal (view s1) (job_id cand) = a_journal (view ?s) (job_id cand) @ [?ja]" "job_status j = Pending"
      by (auto simp: spec_merge_def guarded_def)
    then show ?thesis by (auto simp: i inv1)
  next
    case False
    with spec have "view s1 = view ?s" by (auto simp: spec_merge_def guarded_def split: option.splits if_splits)
    then have new: "a_job (view s1) uid = None" using s(2) by simp
    have "queue_insert ops T cs (n + 1) uid task cr vis (Some (as_str dk)) s1 = (Inr i, s')"
      using False assms(6) call by (simp add: apply_merge_def)
    from queue_insert_outcome [OF assms(1) inv1 new _ this] show ?thesis using assms(5) by simp
  qed
qed

text \<open>What the merge decision leads to, once candidate and journal were read.\<close>

lemma decision_outcome:
  assumes fair: "fair_calls invar view uid cs" and s: "invar s" "a_job (view s) uid = None"
    and dk: "task_dedup_key T task = Some dk" and run: "pend_run_count pend = job_run_count cand"
    and out: "(case task_merge T task pend of
           Independent \<Rightarrow> queue_insert ops T cs n uid task cr vis (Some (as_str dk)) s
         | Keep \<Rightarrow> apply_merge ops T cs n uid now cand None task cr vis (as_str dk) s
         | Replace \<Rightarrow> (case merge_update T task (carry_default T) of Inl x \<Rightarrow> (Inl x, s)
             | Inr u \<Rightarrow> apply_merge ops T cs n uid now cand (Some u) task cr vis (as_str dk) s)
         | With m c \<Rightarrow> (case merge_update T m c of Inl x \<Rightarrow> (Inl x, s)
             | Inr u \<Rightarrow> apply_merge ops T cs n uid now cand (Some u) task cr vis (as_str dk) s)) = (Inr i, s')"
  shows "invar s' \<and> (stored_fresh T uid task cr vis i (view s') \<or> stored_merged T task i (view s'))"
proof -
  note merged = apply_merge_outcome [OF fair s, where T = T and task = task and cand = cand, OF _ dk]
  show ?thesis
  proof (cases "task_merge T task pend")
    case Independent
    with out have "queue_insert ops T cs n uid task cr vis (Some (as_str dk)) s = (Inr i, s')" by simp
    from queue_insert_outcome [OF fair s _ this] dk show ?thesis by simp
  next
    case Keep
    with out have "apply_merge ops T cs n uid now cand None task cr vis (as_str dk) s = (Inr i, s')" by simp
    moreover have "merge_valid None" by (simp add: merge_valid_def)
    ultimately show ?thesis by (intro stored_mergedI [OF merged run]) (simp_all add: Keep)
  next
    case Replace
    with out obtain u where u: "merge_update T task (carry_default T) = Inr u"
      "apply_merge ops T cs n uid now cand (Some u) task cr vis (as_str dk) s = (Inr i, s')"
      by (auto split: sum.splits)
    show ?thesis
      by (intro stored_mergedI [OF merged [OF merge_update_valid [OF u(1)] u(2)] run]) (simp add: Replace u(1))
  next
    case (With m c)
    with out obtain u where u: "merge_update T m c = Inr u"
      "apply_merge ops T cs n uid now cand (Some u) task cr vis (as_str dk) s = (Inr i, s')"
      by (auto split: sum.splits)
    show ?thesis
      by (intro stored_mergedI [OF merged [OF merge_update_valid [OF u(1)] u(2)] run]) (simp add: With u(1))
  qed
qed

lemma submit_outcome:
  assumes fair: "fair_calls invar view uid cs" and inv: "invar s" and new: "a_job (view s) uid = None"
    and out: "submit ops T cs uid now task cr vis s = (Inr i, s')"
  shows "invar s' \<and> (stored_fresh T uid task cr vis i (view s') \<or> stored_merged T task i (view s'))"
proof (cases "task_dedup_key T task")
  case None
  with out have "queue_insert ops T cs 0 uid task cr vis None s = (Inr i, s')" by (simp add: submit_def)
  from queue_insert_outcome [OF fair inv new _ this] None show ?thesis by simp
next
  case dk: (Some dk)
  let ?s0 = "before_call cs 0 s"
  let ?s1 = "before_call cs 1 ?s0"
  have s0: "invar ?s0" "a_job (view ?s0) uid = None" using fair inv new by (simp_all add: fair_calls_def)
  then have s1: "invar ?s1" "a_job (view ?s1) uid = None" using fair by (simp_all add: fair_calls_def)
  obtain r where r: "so_dedup_candidate ops (call_at cs 0) (KIND T) (as_str dk) ?s0 = Inr r"
    using out by (auto simp: submit_def dk Let_def split: sum.splits)
  show ?thesis
  proof (cases r)
    case None
    with out have "queue_insert ops T cs 1 uid task cr vis (Some (as_str dk)) ?s0 = (Inr i, s')"
      by (simp add: submit_def dk Let_def r)
    from queue_insert_outcome [OF fair s0 _ this] dk show ?thesis by simp
  next
    case (Some cand)
    obtain ep ec records where dec: "from_serde (from_value T (job_payload cand)) = Inr ep"
      "(if is_null (job_carry cand) then Inr (carry_default T)
        else from_serde (carry_from_value T (job_carry cand))) = Inr ec"
      "so_journal ops (call_at cs 1) (job_id cand) ?s1 = Inr records"
      using out by (auto simp: submit_def dk Let_def r Some split: sum.splits)
    let ?pend = "pending_new ep ec (job_run_count cand) (map from_record records)"
    have run: "pend_run_count ?pend = job_run_count cand" by (simp add: pending_new_def)
    show ?thesis
      using out unfolding submit_def dk Let_def r Some dec option.case sum.case
      by (rule decision_outcome [OF fair s1 dk run])
  qed
qed

end

section \<open>No enqueued work is lost\<close>



section \<open>Inspection tells the truth\<close>

lemma finite_kind_jobs:
  assumes "pg_inv c s"
  shows "finite {j. \<exists>i. a_job (pg_view c s) i = Some j \<and> P j}"
  by (rule pg_invE [OF assms]) (simp only: jobs_in_rep(2) finite_set)

text \<open>
  C35: a quiescent statistics call counts exactly: per kind the pending and the dead jobs (absent when
  there is none) and in total the claimed ones, and the reported age of a backlog is that of its
  oldest pending job, no pending job being older. A sweep reports exactly the number of jobs it
  deletes, so the totals before and after differ by that number.
\<close>

theorem statistics_and_sweeps_count_exactly:
  assumes "pg_inv c s" "queue_stats (pg_ops c) e now s s s = Inr sn"
    and "queue_cleanup (pg_ops c) e' cc s = (Inr n, s')"
  shows "snap_pending_by_kind sn k = (if jobs_in (pg_view c s) Pending k = {} then None
      else Some (card (jobs_in (pg_view c s) Pending k))) \<and>
    snap_dead_by_kind sn k = (if jobs_in (pg_view c s) Dead k = {} then None
      else Some (card (jobs_in (pg_view c s) Dead k))) \<and>
    snap_claimed sn = card {j. \<exists>i. a_job (pg_view c s) i = Some j \<and> job_status j = Claimed} \<and>
    (\<forall>j \<in> jobs_in (pg_view c s) Pending k. \<exists>age. snap_oldest_pending_age sn k = Some age \<and>
      nat (now - job_created_at j) \<le> age) \<and>
    card {j. \<exists>i. a_job (pg_view c s) i = Some j} = n + card {j. \<exists>i. a_job (pg_view c s') i = Some j}"
proof -
  have sn: "sn = spec_stats now (pg_view c s)"
    using pg_reads.stats_ok [OF assms(1)] assms(2) by (simp add: queue_stats_def)
  have age: "\<exists>age. snap_oldest_pending_age sn k = Some age \<and> nat (now - job_created_at j) \<le> age"
    if "j \<in> jobs_in (pg_view c s) Pending k" for j
  proof -
    have "finite (jobs_in (pg_view c s) Pending k)"
      using finite_kind_jobs [OF assms(1), of "\<lambda>j. job_status j = Pending \<and> job_kind j = k"] by (simp add: jobs_in_def)
    then have "Min (job_created_at ` jobs_in (pg_view c s) Pending k) \<le> job_created_at j" using that by simp
    then show ?thesis using that by (auto simp: sn spec_stats_def)
  qed
  have swept: "n = card {j. \<exists>i. a_job (pg_view c s) i = Some j \<and> sweepable cc j}"
    "pg_view c s' = spec_cleanup cc (pg_view c s)"
    using pg.cleanup_ok [OF assms(1)] assms(3) by (simp_all add: queue_cleanup_def)
  let ?all = "\<lambda>P. {j. \<exists>i. a_job (pg_view c s) i = Some j \<and> P j}"
  have "{j. \<exists>i. a_job (pg_view c s') i = Some j} = ?all (\<lambda>j. \<not> sweepable cc j)"
    by (force simp: swept(2) spec_cleanup_def Let_def)
  moreover have "{j. \<exists>i. a_job (pg_view c s) i = Some j} = ?all (sweepable cc) \<union> ?all (\<lambda>j. \<not> sweepable cc j)" by blast
  moreover have "card (?all (sweepable cc) \<union> ?all (\<lambda>j. \<not> sweepable cc j)) =
      card (?all (sweepable cc)) + card (?all (\<lambda>j. \<not> sweepable cc j))"
  proof (rule card_Un_disjoint)
    show "?all (sweepable cc) \<inter> ?all (\<lambda>j. \<not> sweepable cc j) = {}" by blast
  qed (simp_all only: finite_kind_jobs [OF assms(1)])
  ultimately have total: "card {j. \<exists>i. a_job (pg_view c s) i = Some j} = n + card {j. \<exists>i. a_job (pg_view c s') i = Some j}"
    unfolding swept(1) by (simp only:)
  show ?thesis
  proof (intro conjI ballI)
    show "card {j. \<exists>i. a_job (pg_view c s) i = Some j} = n + card {j. \<exists>i. a_job (pg_view c s') i = Some j}" by (rule total)
  qed (use age in \<open>simp_all add: sn spec_stats_def\<close>)
qed

theorem statistics_and_sweeps_count_exactly_witness:
  "\<exists>sn n s'. queue_stats (pg_ops binary_codec) (env_at 300) 300 sample_store sample_store sample_store = Inr sn \<and>
     queue_cleanup (pg_ops binary_codec) (env_at 300) \<lparr>cc_finished_before = 300, cc_kind = None, cc_status = None\<rparr>
       sample_store = (Inr n, s') \<and> snap_pending_by_kind sn ''mail'' = Some 1"
proof -
  let ?cc = "\<lparr>cc_finished_before = 300, cc_kind = None, cc_status = None\<rparr>"
  obtain sn where sn: "queue_stats (pg_ops binary_codec) (env_at 300) 300 sample_store sample_store sample_store = Inr sn"
    by (simp add: queue_stats_def pg_ops_sel pg_stats_def fetch_def)
  obtain n s' where sweep: "queue_cleanup (pg_ops binary_codec) (env_at 300) ?cc sample_store = (Inr n, s')"
    by (simp add: queue_cleanup_def pg_ops_sel pg_cleanup_def Let_def transact_def)
  have "jobs_in (pg_view binary_codec sample_store) Pending ''mail'' = {fresh_job sample_new}"
    by (auto simp: jobs_in_def fresh_job_def sample_new_def)
  with statistics_and_sweeps_count_exactly [OF sample_inv sn sweep, of "''mail''"] sn sweep show ?thesis by auto
qed

end
