(* ===== verification/Delivery.thy ===== *)
theory Delivery
  imports Worker_Store Queue_Model
begin

text \<open>
  A job from end to end: enqueued through the queue handle (\<^verbatim>\<open>src/queue.rs\<close>), stored in its tables,
  claimed, decoded and dispatched to its handler (\<^verbatim>\<open>src/worker/registry.rs\<close>), and settled
  (\<^verbatim>\<open>src/worker/mod.rs\<close>), while other clients work on other jobs in between.
\<close>

section \<open>Stages\<close>

text \<open>Other clients ran, but left this job and its journal alone.\<close>

definition untouched :: "ulid_codec \<Rightarrow> ulid \<Rightarrow> pg_state \<Rightarrow> pg_state \<Rightarrow> bool" where
  "untouched c i s t \<longleftrightarrow> pg_inv c t \<and> a_job (pg_view c t) i = a_job (pg_view c s) i \<and>
     a_journal (pg_view c t) i = a_journal (pg_view c s) i"

lemma claimed_stage:
  assumes "pg_inv c s" "a_job (pg_view c s) i = Some old"
    and "pg_claim_next c e ks fl ls by s = (Inr (Some j), s')" "job_id j = i"
  shows "\<exists>expiry. j = claim_job expiry by old" "a_job (pg_view c s') i = Some j"
    "a_journal (pg_view c s') i = a_journal (pg_view c s) i" "pg_inv c s'"
proof -
  have call: "so_claim_next (pg_ops c) e ks fl ls by s = (Inr (Some j), s')" using assms(3) by (simp add: pg_ops_def)
  obtain k old' expiry where k: "a_job (pg_view c s) k = Some old'" "j = claim_job expiry by old'"
    "pg_view c s' = (pg_view c s)\<lparr>a_job := (a_job (pg_view c s))(k \<mapsto> j)\<rparr>"
    using pg.claim_ok [OF assms(1) call] by (auto simp: spec_claim_def)
  have "k = i" using pg_reads.view_wf [OF assms(1)] k(1,2) assms(4) by (simp add: astore_wf_def)
  then show "\<exists>expiry. j = claim_job expiry by old" "a_job (pg_view c s') i = Some j"
    "a_journal (pg_view c s') i = a_journal (pg_view c s) i" using k assms(2) by auto
  show "pg_inv c s'" using pg.claim_inv [OF assms(1), of e ks fl ls "by"] by (simp add: call)
qed

lemma settled_stage:
  fixes rt :: runtime and now :: datetime and elapsed :: duration and cancel :: bool and hist :: "journal_entry list"
  assumes "pg_inv c s" "w_store w = pg_ops c" "env_fault e = None" "a_job (pg_view c s) (job_id j) = Some j"
    and "job_status j = Claimed" "job_claimed_by j = Some (w_identity w)"
  defines "out \<equiv> settle rt w e now (spawn w j hist cancel elapsed) s"
    and "stl \<equiv> settlement_of rt w now (spawn w j hist cancel elapsed)"
  shows "fst out = Inr () \<and> a_job (pg_view c (snd out)) (job_id j) = Some (settle_job (fst stl) j) \<and>
    a_journal (pg_view c (snd out)) (job_id j) = a_journal (pg_view c s) (job_id j) @ [snd stl]"
proof -
  let ?call = "so_settle (pg_ops c) e (job_id j) (w_identity w) (job_run_count j) (fst stl) (snd stl) s"
  have rn: "app_run_no (snd stl) = job_run_count j" by (simp add: stl_def settlement_of_journal)
  obtain v where v: "fst ?call = Inr v" using pg.settle_responds [OF assms(1,3,4) rn] by blast
  have "owned (w_identity w) (job_run_count j) j" using assms(5,6) by (simp add: owned_def)
  with pg.settle_conforms [OF assms(1), of e "job_id j" "w_identity w" "job_run_count j" "fst stl" "snd stl"] v assms(4)
  have "a_job (pg_view c (snd ?call)) (job_id j) = Some (settle_job (fst stl) j)"
    "a_journal (pg_view c (snd ?call)) (job_id j) = a_journal (pg_view c s) (job_id j) @ [snd stl]"
    by (auto simp: conforms_def spec_settle_def guarded_def)
  moreover have "out = (bind_ok (fst ?call) (\<lambda>_. Inr ()), snd ?call)"
    by (simp add: out_def settle_def assms(2) stl_def case_prod_beta Let_def)
  ultimately show ?thesis by (simp add: v)
qed

text \<open>The first run of a fresh job decodes what was encoded when it was enqueued.\<close>

lemma first_run_report:
  assumes "task_codec_ok T" "w_registry w = register T h cp reg"
    and "to_value T task = Inr payload" "carry_to_value T (carry_default T) = Inr carry"
    and j: "j = claim_job expiry by (fresh_job (new_job_of T i task created visible key payload carry))"
    and "h task (context_new i 1 hist (carry_default T) cancel) (w_state w) = Inr (answer, ctx)"
    and "carry_to_value T (ctx_carry ctx) = Inr v"
  shows "fin_report (spawn w j hist cancel elapsed) = Inr \<lparr>rep_result = answer, rep_carry = v,
    rep_backoff = task_backoff T task, rep_attachment = ctx_attachment ctx, rep_duration = elapsed\<rparr>"
proof -
  have sel: "KIND T = job_kind j" "job_run_count j = 1" "job_payload j = payload" "job_carry j = carry" "job_id j = i"
    by (simp_all add: j claim_job_def fresh_job_def new_job_of_def)
  have "from_value T (job_payload j) = Inr task" "decode_carry T (job_carry j) = Inr (carry_default T)"
    using assms(1,3,4) by (simp_all add: task_codec_ok_def sel)
  from spawn_decoded [OF assms(2) sel(1) this, of hist cancel elapsed] assms(6,7) show ?thesis
    by (simp add: sel)
qed

text \<open>What becomes of a job whose first run was answered.\<close>

lemma first_answer_settles:
  fixes rt :: runtime and ended :: datetime and w :: "('S, 's) worker"
  assumes "fin_report fin = Inr rep" "fin_failure_count fin = 0" "fin_run_no fin = 1"
  defines "stl \<equiv> settlement_of rt w ended fin"
  shows "app_run_no (snd stl) = 1" "app_note (snd stl) = note_for (rep_result rep)" "app_attachment (snd stl) = rep_attachment rep"
    "job_payload (settle_job (fst stl) j) = job_payload j"
    "case rep_result rep of
       Inr (Outcome_Completed _) \<Rightarrow> app_outcome (snd stl) = JCompleted \<and> job_status (settle_job (fst stl) j) = Completed \<and>
         job_finished_at (settle_job (fst stl) j) = Some ended
     | Inr (Outcome_Pause d _) \<Rightarrow> app_outcome (snd stl) = JPaused \<and> job_status (settle_job (fst stl) j) = Pending \<and>
         job_visible_at (settle_job (fst stl) j) = add_duration (rt_chrono rt) ended d \<and>
         job_carry (settle_job (fst stl) j) = rep_carry rep
     | Inl err \<Rightarrow> (if is_permanent err \<or> backstop_reached (w_config w) 1
         then app_outcome (snd stl) = JDead \<and> job_status (settle_job (fst stl) j) = Dead
         else app_outcome (snd stl) = JRetried \<and> job_status (settle_job (fst stl) j) = Pending \<and>
           job_carry (settle_job (fst stl) j) = rep_carry rep)"
proof -
  show "app_run_no (snd stl) = 1" "app_note (snd stl) = note_for (rep_result rep)" "app_attachment (snd stl) = rep_attachment rep"
    using settlement_of_snd [OF assms(1), of rt w ended] by (simp_all add: stl_def settlement_of_journal assms(3))
  show "job_payload (settle_job (fst stl) j) = job_payload j" by (cases "fst stl") (simp_all add: unclaim_def)
  have "fst stl = settlement_for rt w rep (fin_id fin) ended 1"
    by (simp add: stl_def settlement_of_fst assms(1,2) i32_add_one_of_zero)
  moreover have "app_outcome (snd stl) = journal_outcome_for (fst stl)" by (simp add: stl_def settlement_of_journal)
  ultimately show "case rep_result rep of
       Inr (Outcome_Completed _) \<Rightarrow> app_outcome (snd stl) = JCompleted \<and> job_status (settle_job (fst stl) j) = Completed \<and>
         job_finished_at (settle_job (fst stl) j) = Some ended
     | Inr (Outcome_Pause d _) \<Rightarrow> app_outcome (snd stl) = JPaused \<and> job_status (settle_job (fst stl) j) = Pending \<and>
         job_visible_at (settle_job (fst stl) j) = add_duration (rt_chrono rt) ended d \<and>
         job_carry (settle_job (fst stl) j) = rep_carry rep
     | Inl err \<Rightarrow> (if is_permanent err \<or> backstop_reached (w_config w) 1
         then app_outcome (snd stl) = JDead \<and> job_status (settle_job (fst stl) j) = Dead
         else app_outcome (snd stl) = JRetried \<and> job_status (settle_job (fst stl) j) = Pending \<and>
           job_carry (settle_job (fst stl) j) = rep_carry rep)"
    by (auto simp: settlement_for_def retry_or_backstop_eq unclaim_def split: sum.split outcome.split)
qed

section \<open>From enqueue to settlement\<close>

text \<open>
  C8: a task reaches its handler as it was enqueued, and what the handler answers is what the queue
  records. A task enqueued without a deduplication key, then claimed by a worker that has its kind
  registered, is handed to the handler as the very value enqueued (through JSON, the table row and
  the type-erased registry) with a default carry and run number one. Its answer is then the one entry of
  the journal, with its note and attachment, and the job is completed, dead, or pending with the carry
  the handler left, as the answer says. Other clients may do anything to other jobs between the stages.
\<close>

theorem enqueued_task_is_handled_as_enqueued:
  assumes "task_codec_ok T" "w_registry w = register T h cp reg" "w_store w = pg_ops c"
    and "fair_calls (pg_inv c) (pg_view c) i cs" "pg_inv c s" "a_job (pg_view c s) i = None"
    and "task_dedup_key T task = None"
    and "queue_enqueue (pg_ops c) T cs i enqueued_at merged_at task s = (Inr i, s1)"
    and "untouched c i s1 t1" "pg_claim_next c e ks fl ls (w_identity w) t1 = (Inr (Some j), s2)" "job_id j = i"
    and "untouched c i s2 t2" "env_fault e' = None"
    and "h task (context_new i 1 hist (carry_default T) cancel) (w_state w) = Inr (answer, ctx)"
    and "carry_to_value T (ctx_carry ctx) = Inr v"
    and "settle rt w e' ended (spawn w j hist cancel elapsed) t2 = (r, s3)"
  shows "r = Inr () \<and> (\<exists>j3 ja. a_job (pg_view c s3) i = Some j3 \<and> a_journal (pg_view c s3) i = [ja] \<and>
    job_payload j3 = job_payload j \<and> app_run_no ja = 1 \<and> app_note ja = note_for answer \<and>
    app_attachment ja = ctx_attachment ctx \<and>
    (case answer of
       Inr (Outcome_Completed _) \<Rightarrow> app_outcome ja = JCompleted \<and> job_status j3 = Completed \<and> job_finished_at j3 = Some ended
     | Inr (Outcome_Pause d _) \<Rightarrow> app_outcome ja = JPaused \<and> job_status j3 = Pending \<and>
         job_visible_at j3 = add_duration (rt_chrono rt) ended d \<and> decode_carry T (job_carry j3) = Inr (ctx_carry ctx)
     | Inl err \<Rightarrow> (if is_permanent err \<or> backstop_reached (w_config w) 1 then app_outcome ja = JDead \<and> job_status j3 = Dead
         else app_outcome ja = JRetried \<and> job_status j3 = Pending \<and> decode_carry T (job_carry j3) = Inr (ctx_carry ctx))))"
proof -
  have "queue_insert (pg_ops c) T cs 0 i task enqueued_at enqueued_at None s = (Inr i, s1)"
    using assms(7,8) by (simp add: queue_enqueue_def submit_def)
  from pg.queue_insert_outcome [OF assms(4-6) _ this] assms(7)
  obtain payload carry where fresh: "to_value T task = Inr payload" "carry_to_value T (carry_default T) = Inr carry"
    "a_job (pg_view c s1) i = Some (fresh_job (new_job_of T i task enqueued_at enqueued_at None payload carry))"
    "a_journal (pg_view c s1) i = []"
    by (auto simp: stored_fresh_def)
  let ?fresh = "fresh_job (new_job_of T i task enqueued_at enqueued_at None payload carry)"
  have t1: "pg_inv c t1" "a_job (pg_view c t1) i = Some ?fresh" "a_journal (pg_view c t1) i = []"
    using assms(9) fresh by (simp_all add: untouched_def)
  note claimed = claimed_stage [OF t1(1,2) assms(10,11)]
  then obtain expiry where j: "j = claim_job expiry (w_identity w) ?fresh" by blast
  have j_sel: "job_run_count j = 1" "job_failure_count j = 0" "job_status j = Claimed"
    "job_claimed_by j = Some (w_identity w)"
    by (simp_all add: j claim_job_def fresh_job_def)
  have t2: "pg_inv c t2" "a_job (pg_view c t2) (job_id j) = Some j" "a_journal (pg_view c t2) (job_id j) = []"
    using assms(11,12) claimed t1(3) by (simp_all add: untouched_def)
  let ?fin = "spawn w j hist cancel elapsed"
  let ?stl = "settlement_of rt w ended ?fin"
  note rep = first_run_report [OF assms(1,2) fresh(1,2) j assms(14,15), of elapsed]
  note stl = first_answer_settles [OF rep, where rt = rt and w = w and ended = ended, simplified]
  have "decode_carry T v = Inr (ctx_carry ctx)" using assms(1,15) by (simp add: task_codec_ok_def)
  moreover have "r = Inr () \<and> a_job (pg_view c s3) i = Some (settle_job (fst ?stl) j) \<and> a_journal (pg_view c s3) i = [snd ?stl]"
    using settled_stage [OF t2(1) assms(3,13) t2(2) j_sel(3,4), of rt ended hist cancel elapsed] t2(3)
    by (simp add: assms(11,16))
  ultimately show ?thesis
    using stl [OF j_sel(2,1)] by (auto split: sum.splits outcome.splits if_splits)
qed

text \<open>The logging task of \<^verbatim>\<open>Worker_Store\<close>, from an empty queue to its first pause.\<close>

definition log_new :: new_job where
  "log_new = new_job_of log_task 1 ''hello'' 100 100 None (JString ''hello'') (JString [])"

definition log_store :: pg_state where
  "log_store = snd (pg_enqueue binary_codec (env_at 100) log_new pg_empty)"

lemma log_new_sel: "new_id log_new = 1" "new_kind log_new = ''mail''" "new_priority log_new = 1" "new_visible_at log_new = 100"
  by (simp_all add: log_new_def new_job_of_def log_task_def)

lemma log_enqueued:
  "pg_inv binary_codec log_store" "a_job (pg_view binary_codec log_store) = [1 \<mapsto> fresh_job log_new]"
  "queue_enqueue (pg_ops binary_codec) log_task (quiet_calls 100) 1 100 100 ''hello'' pg_empty = (Inr 1, log_store)"
proof -
  note empty = pg_empty_inv [OF binary_codec_ok] pg_empty_view
  show "pg_inv binary_codec log_store" unfolding log_store_def by (intro pg_enqueue_inv empty(1))
  have ok: "fst (pg_enqueue binary_codec (env_at 100) log_new pg_empty) = Inr ()"
    by (rule pg_enqueue_responds) (simp_all add: empty log_new_sel)
  moreover have "conforms (pg_view binary_codec) pg_empty (pg_enqueue binary_codec (env_at 100) log_new pg_empty)
      ((), spec_enqueue log_new (pg_view binary_codec pg_empty))"
    by (rule pg_enqueue_conforms) (simp_all add: empty log_new_sel)
  ultimately show "a_job (pg_view binary_codec log_store) = [1 \<mapsto> fresh_job log_new]"
    by (simp add: conforms_def log_store_def spec_enqueue_def empty(2) log_new_sel)
  have "queue_insert (pg_ops binary_codec) log_task (quiet_calls 100) 0 1 ''hello'' 100 100 None pg_empty =
      (bind_ok (fst (pg_enqueue binary_codec (env_at 100) log_new pg_empty)) (\<lambda>_. Inr 1), log_store)"
    by (simp add: queue_insert_def log_task_def log_store_def log_new_def new_job_of_def pg_ops_def case_prod_beta Let_def)
  with ok show "queue_enqueue (pg_ops binary_codec) log_task (quiet_calls 100) 1 100 100 ''hello'' pg_empty = (Inr 1, log_store)"
    by (simp add: queue_enqueue_def submit_def log_task_def)
qed

lemma log_claimed:
  obtains j s' where "pg_claim_next binary_codec (env_at 200) [''mail''] 0 5 (w_identity log_worker) log_store = (Inr (Some j), s')"
    "job_id j = 1" "pg_inv binary_codec s'"
proof -
  note inv = log_enqueued(1)
  have job: "a_job (pg_view binary_codec log_store) 1 = Some (fresh_job log_new)" by (simp add: log_enqueued(2))
  have "claimable 200 [''mail''] 0 (fresh_job log_new)"
    by (simp add: claimable_def fresh_job_def log_new_sel)
  then obtain j s' where claim: "pg_claim_next binary_codec (env_at 200) [''mail''] 0 5 (w_identity log_worker) log_store = (Inr (Some j), s')"
    by (rule_tac pg_claim_takes [OF inv _ job, of "env_at 200" "[''mail'']" 0 5 "w_identity log_worker"])
      (auto simp: log_enqueued(2) fresh_job_def int_limits split: if_splits)
  then have call: "so_claim_next (pg_ops binary_codec) (env_at 200) [''mail''] 0 5 (w_identity log_worker) log_store = (Inr (Some j), s')"
    by (simp add: pg_ops_def)
  from pg.claim_ok [OF inv call] have "job_id j = 1"
    by (auto simp: spec_claim_def log_enqueued(2) log_new_sel split: if_splits)
  moreover have "pg_inv binary_codec s'"
    using pg.claim_inv [OF inv, of "env_at 200" "[''mail'']" 0 5 "w_identity log_worker"] by (simp add: call)
  ultimately show thesis using claim that by blast
qed

theorem enqueued_task_is_handled_as_enqueued_witness:
  "\<exists>j s2 j3. pg_claim_next binary_codec (env_at 200) [''mail''] 0 5 (w_identity log_worker) log_store = (Inr (Some j), s2) \<and>
     a_job (pg_view binary_codec (snd (settle sample_runtime log_worker (env_at 300) 300 (spawn log_worker j [] False 9) s2))) 1 = Some j3 \<and>
     job_status j3 = Pending \<and> decode_carry log_task (job_carry j3) = Inr ''hello''"
proof -
  obtain j s2 where claim: "pg_claim_next binary_codec (env_at 200) [''mail''] 0 5 (w_identity log_worker) log_store = (Inr (Some j), s2)"
    "job_id j = 1" "pg_inv binary_codec s2"
    by (rule log_claimed)
  let ?ctx = "context_new 1 1 [] [] False :: string run_context"
  have "fair_calls (pg_inv binary_codec) (pg_view binary_codec) 1 (quiet_calls 100)" by (simp add: fair_calls_def)
  note run = enqueued_task_is_handled_as_enqueued [OF log_task_codec_ok log_worker_sel _ this
      pg_empty_inv [OF binary_codec_ok] _ _ log_enqueued(3) _ claim(1,2), of s2 "env_at 300" "[]" False
      "Inr (Outcome_Pause 5 None)" "?ctx\<lparr>ctx_carry := ''hello''\<rparr>" "JString ''hello''" sample_runtime 300 9]
  have "w_store log_worker = pg_ops binary_codec" by (simp add: log_worker_def build_def wb_register_def builder_def)
  then have "\<exists>j3. a_job (pg_view binary_codec (snd (settle sample_runtime log_worker (env_at 300) 300 (spawn log_worker j [] False 9) s2))) 1 = Some j3 \<and>
     job_status j3 = Pending \<and> decode_carry log_task (job_carry j3) = Inr ''hello''"
    using run [OF _ _ _ _ _ _ _ _ prod.collapse [symmetric]] claim(3) log_enqueued(1)
    by (auto simp: pg_empty_view untouched_def log_task_def log_handler_def context_new_def)
  with claim(1) show ?thesis by blast
qed

end
