(* ===== verification/History.thy ===== *)
theory History
  imports Queue_Model Postgres_Props
begin

text \<open>
  Listing the history through the queue handle (\<^verbatim>\<open>Queue::jobs\<close> of \<^verbatim>\<open>src/queue.rs\<close>): the part of the
  store's contract that concerns \<^verbatim>\<open>query_jobs\<close>, as an extension of \<open>store_reads\<close>, what a client that
  pages with the cursor may rely on, and the interpretation on the PostgreSQL adapter.
\<close>

section \<open>The contract of a listing\<close>

type_synonym stamp = "datetime \<times> ulid"

definition stamp :: "job_record \<Rightarrow> stamp" where
  "stamp j = (job_created_at j, job_id j)"

text \<open>What a filter selects; \<open>older\<close> is the order of the cursor.\<close>

definition listed :: "(stamp \<Rightarrow> stamp \<Rightarrow> bool) \<Rightarrow> history_filter \<Rightarrow> job_record \<Rightarrow> bool" where
  "listed older hf j \<longleftrightarrow>
     (\<forall>k. hf_kind hf = Some k \<longrightarrow> job_kind j = k) \<and>
     (\<forall>st. hf_status hf = Some st \<longrightarrow> job_status j = st) \<and>
     (\<forall>t. hf_finished_since hf = Some t \<longrightarrow> (\<exists>f. job_finished_at j = Some f \<and> t \<le> f)) \<and>
     (\<forall>t. hf_finished_until hf = Some t \<longrightarrow> (\<exists>f. job_finished_at j = Some f \<and> f < t)) \<and>
     (\<forall>p. hf_created_before hf = Some p \<longrightarrow> older (stamp j) p)"

definition newest_first :: "(stamp \<Rightarrow> stamp \<Rightarrow> bool) \<Rightarrow> job_record list \<Rightarrow> bool" where
  "newest_first older js \<longleftrightarrow> sorted_wrt (\<lambda>x y. older (stamp y) (stamp x)) js"

definition cut :: "i64 option \<Rightarrow> job_record list \<Rightarrow> job_record list" where
  "cut limit js = (case limit of None \<Rightarrow> js | Some n \<Rightarrow> take (nat n) js)"

locale store_history = store_reads ops invar view
  for ops :: "'s store_ops" and invar :: "'s \<Rightarrow> bool" and view :: "'s \<Rightarrow> astore" +
  fixes older :: "stamp \<Rightarrow> stamp \<Rightarrow> bool"
  assumes older_irrefl: "\<not> older p p"
    and older_trans: "older p q \<Longrightarrow> older q r \<Longrightarrow> older p r"
    and query_ok: "invar s \<Longrightarrow> so_query_jobs ops e hf s = Inr js \<Longrightarrow>
      \<exists>all. set all = {j. \<exists>i. a_job (view s) i = Some j \<and> listed older hf j} \<and> newest_first older all \<and>
        js = cut (hf_limit hf) all"

context store_history
begin

text \<open>An order determines the listing of a set.\<close>

lemma newest_first_unique:
  assumes "newest_first older xs" "newest_first older ys" "set xs = set ys"
  shows "xs = ys"
  using assms
proof (induction xs arbitrary: ys)
  case (Cons x xs)
  then obtain y zs where ys: "ys = y # zs" by (cases ys) auto
  have less: "\<forall>z \<in> set xs. older (stamp z) (stamp x)" "\<forall>z \<in> set zs. older (stamp z) (stamp y)"
    using Cons.prems(1,2) by (simp_all add: ys newest_first_def)
  have "x = y"
  proof (rule ccontr)
    assume "x \<noteq> y"
    then have "x \<in> set zs" "y \<in> set xs" using Cons.prems(3) by (auto simp: ys)
    then show False using less older_trans older_irrefl by blast
  qed
  moreover have "x \<notin> set xs" "y \<notin> set zs" using less older_irrefl by blast+
  ultimately have "set xs = set zs" using Cons.prems(3) by (auto simp: ys)
  with Cons.IH [of zs] Cons.prems(1,2) \<open>x = y\<close> show ?case by (simp add: ys newest_first_def)
qed simp

lemma newest_first_filter:
  assumes "newest_first older xs" "take n xs \<noteq> []"
  shows "filter (\<lambda>x. older (stamp x) (stamp (last (take n xs)))) xs = drop n xs"
proof -
  let ?last = "last (take n xs)"
  have xs: "newest_first older (take n xs @ drop n xs)" using assms(1) by simp
  then have tail: "\<forall>y \<in> set (drop n xs). older (stamp y) (stamp ?last)"
    using last_in_set [OF assms(2)] unfolding newest_first_def sorted_wrt_append by blast
  have "\<not> older (stamp y) (stamp ?last)" if "y \<in> set (take n xs)" for y
  proof (cases "y = ?last")
    case False
    have "newest_first older (butlast (take n xs) @ [?last])" using xs assms(2) by (simp add: newest_first_def sorted_wrt_append)
    moreover have "set (take n xs) = insert ?last (set (butlast (take n xs)))"
      using assms(2) append_butlast_last_id [of "take n xs"] by (metis set_append list.set(1,2) Un_insert_right sup_bot_right)
    with that False have "y \<in> set (butlast (take n xs))" by blast
    ultimately have "older (stamp ?last) (stamp y)" by (simp add: newest_first_def sorted_wrt_append)
    then show ?thesis using older_trans older_irrefl by blast
  qed (simp add: older_irrefl)
  then have "filter (\<lambda>x. older (stamp x) (stamp ?last)) (take n xs @ drop n xs) = drop n xs"
    using tail by (simp only: filter_append) (simp add: filter_empty_conv filter_id_conv)
  then show ?thesis by simp
qed

lemma listed_cursor:
  assumes "listed older hf x"
  shows "listed older (hf\<lparr>hf_created_before := Some (stamp x)\<rparr>) j \<longleftrightarrow> listed older hf j \<and> older (stamp j) (stamp x)"
  using assms older_trans [of "stamp j" "stamp x"] by (auto simp: listed_def)

text \<open>Paging: a page, and the query that resumes after its last job, in a later state.\<close>

lemma pages_exact:
  assumes "invar s" "invar s'" "hf_limit hf = None" "so_query_jobs ops e hf s = Inr all"
    and "so_query_jobs ops e1 (hf\<lparr>hf_limit := Some n\<rparr>) s = Inr page" "page \<noteq> []"
    and "so_query_jobs ops e2 (hf\<lparr>hf_created_before := Some (stamp (last page))\<rparr>) s' = Inr rest"
  shows "set all = {j. \<exists>i. a_job (view s) i = Some j \<and> listed older hf j} \<and> newest_first older all \<and>
    page = take (nat n) all \<and> (s' = s \<longrightarrow> all = page @ rest) \<and>
    (\<forall>x \<in> set page. \<forall>y \<in> set rest. older (stamp y) (stamp x)) \<and>
    (\<forall>i j. a_job (view s') i = Some j \<and> listed older hf j \<and> older (stamp j) (stamp (last page)) \<longrightarrow> j \<in> set rest)"
proof -
  have all: "set all = {j. \<exists>i. a_job (view s) i = Some j \<and> listed older hf j}" "newest_first older all"
    using query_ok [OF assms(1,4)] assms(3) by (auto simp: cut_def)
  obtain all' where all': "set all' = {j. \<exists>i. a_job (view s) i = Some j \<and> listed older hf j}" "newest_first older all'"
    "page = take (nat n) all'"
    using query_ok [OF assms(1,5)] by (auto simp: cut_def listed_def)
  have "all' = all" by (rule newest_first_unique [OF all'(2) all(2)]) (simp add: all(1) all'(1))
  with all'(3) have page: "page = take (nat n) all" by simp
  have "last page \<in> set all" using assms(6) page in_set_takeD last_in_set by metis
  then have last: "listed older hf (last page)" using all(1) by blast
  have rest: "set rest = {j. \<exists>i. a_job (view s') i = Some j \<and> listed older hf j \<and> older (stamp j) (stamp (last page))}"
    "newest_first older rest"
    using query_ok [OF assms(2,7)] assms(3) by (auto simp: cut_def listed_cursor [OF last])
  have "older (stamp y) (stamp x)" if "x \<in> set page" "y \<in> set rest" for x y
  proof (cases "x = last page")
    case False
    have "newest_first older (butlast page @ [last page])"
      using all(2) sorted_wrt_take assms(6) by (auto simp: newest_first_def page)
    moreover have "x \<in> set (butlast page)" using that(1) False assms(6)
      by (metis append_butlast_last_id in_set_conv_decomp rotate1.simps(2) set_ConsD set_rotate1)
    ultimately have "older (stamp (last page)) (stamp x)" by (simp add: newest_first_def sorted_wrt_append)
    then show ?thesis using that(2) rest(1) older_trans by blast
  qed (use that(2) rest(1) in auto)
  moreover have "all = page @ rest" if "s' = s"
  proof -
    have "newest_first older (drop (nat n) all)" using all(2) by (simp add: newest_first_def sorted_wrt_drop)
    moreover have "set rest = set (drop (nat n) all)"
      using newest_first_filter [OF all(2), of "nat n"] assms(6) all(1) rest(1) that unfolding page by (metis (mono_tags, lifting) Collect_cong mem_Collect_eq set_filter)
    ultimately have "rest = drop (nat n) all" using newest_first_unique [OF rest(2)] by blast
    then show ?thesis by (simp add: page)
  qed
  ultimately show ?thesis using all page rest(1) by blast
qed

end

section \<open>The PostgreSQL adapter\<close>

text \<open>The cursor compares creation times, then the text of the identifiers.\<close>

definition pg_older :: "ulid_codec \<Rightarrow> stamp \<Rightarrow> stamp \<Rightarrow> bool" where
  "pg_older c p q \<longleftrightarrow> (fst p, to_string c (snd p)) < (fst q, to_string c (snd q))"

lemma history_clauses_of_job:
  "(\<forall>p \<in> set (history_clauses c hf). p (row_of_job c j)) \<longleftrightarrow> listed (pg_older c) hf j"
  by (cases "hf_kind hf"; cases "hf_status hf"; cases "hf_finished_since hf"; cases "hf_finished_until hf";
      cases "job_finished_at j"; cases "hf_created_before hf")
    (simp_all add: history_clauses_def listed_def row_simps pg_older_def stamp_def case_prod_beta)

lemma history_page_cut:
  "history_page c hf st = (case hf_limit hf of None \<Rightarrow> id | Some n \<Rightarrow> take (nat n)) (history_page c (hf\<lparr>hf_limit := None\<rparr>) st)"
  by (simp add: history_page_def Let_def history_clauses_def split: option.split)

lemma pg_query_ok:
  assumes "pg_inv c s" "pg_query_jobs c e hf s = Inr js"
  shows "\<exists>all. set all = {j. \<exists>i. a_job (pg_view c s) i = Some j \<and> listed (pg_older c) hf j} \<and>
    newest_first (pg_older c) all \<and> js = cut (hf_limit hf) all"
proof -
  obtain jl es where rep: "ulid_codec_ok c" "jobs_tbl s = map (row_of_job c) jl" "job_list_ok jl" "pg_view c s = list_view jl es"
    using pg_invE [OF assms(1)] by metis
  let ?P = "\<lambda>r. \<forall>p \<in> set (history_clauses c hf). p r"
  define rows where "rows = history_page c (hf\<lparr>hf_limit := None\<rparr>) s"
  define g where "g = (\<lambda>r. projr (job_from_row c r))"
  have clauses: "history_clauses c (hf\<lparr>hf_limit := None\<rparr>) = history_clauses c hf" by (simp add: history_clauses_def)
  have rows: "rows = rev (sort_key row_key (filter ?P (jobs_tbl s)))"
    unfolding rows_def by (subst history_page_rows) (simp_all add: clauses)
  have g: "g (row_of_job c j) = j" for j by (simp add: g_def rep(1))
  have set_rows: "set rows = row_of_job c ` {j \<in> set jl. listed (pg_older c) hf j}"
    by (simp add: rows rep(2) filter_map comp_def history_clauses_of_job)
  have "sorted_wrt (\<lambda>x y. row_key y < row_key x) rows"
    unfolding rows sorted_wrt_rev
    by (intro sort_key_strict) (use pg_rows_distinct [OF assms(1)] in \<open>auto simp: inj_on_def\<close>)
  then have "sorted_wrt (\<lambda>x y. pg_older c (stamp (g y)) (stamp (g x))) rows"
    by (rule sorted_wrt_mono_rel [rotated]) (auto simp: set_rows g row_key_def row_simps pg_older_def stamp_def)
  then have "newest_first (pg_older c) (map g rows)" by (simp add: newest_first_def sorted_wrt_map)
  moreover have "{j. \<exists>i. a_job (pg_view c s) i = Some j \<and> listed (pg_older c) hf j} = {j \<in> set jl. listed (pg_older c) hf j}"
    using rep(3) by (auto simp: rep(4) list_view_def job_list_ok_def find_by_id dest: find_SomeD)
  then have "set (map g rows) = {j. \<exists>i. a_job (pg_view c s) i = Some j \<and> listed (pg_older c) hf j}"
    by (auto simp: set_rows g image_iff)
  moreover have "js = cut (hf_limit hf) (map g rows)"
  proof -
    have page: "history_page c hf s = (case hf_limit hf of None \<Rightarrow> rows | Some n \<Rightarrow> take (nat n) rows)"
      by (subst history_page_cut) (simp add: rows_def split: option.split)
    have "set (history_page c hf s) \<subseteq> set (jobs_tbl s)"
      by (auto simp: history_page_def Let_def split: option.splits dest!: in_set_takeD)
    from pg_rows_decode [OF assms(1) this]
    have "collect_results (job_from_row c) (history_page c hf s) = Inr (map g (history_page c hf s))" by (simp add: g_def)
    then have "js = map g (history_page c hf s)"
      using assms(2) by (auto simp: pg_query_jobs_def fetch_def split: option.splits fault.splits if_splits)
    then show ?thesis by (simp add: page cut_def take_map split: option.split)
  qed
  ultimately show ?thesis by blast
qed

interpretation pg_history: store_history "pg_ops c" "pg_inv c" "pg_view c" "pg_older c"
  for c
proof unfold_locales
  show "pg_older c p q \<Longrightarrow> pg_older c q r \<Longrightarrow> pg_older c p r" for p q r
    unfolding pg_older_def by (rule order.strict_trans)
qed (simp add: pg_older_def, simp only: pg_ops_def store_ops.select_convs, rule pg_query_ok)

text \<open>
  C26: the history is listed exactly, and paging through it is safe while the queue moves on. An unlimited
  listing holds exactly the jobs the filter selects, newest first; a page is its first \<open>n\<close>; resuming
  after the last job of a page yields exactly the rest. In a later state, whatever happened since,
  it yields only jobs older than every job already seen, so none twice, and misses no selected job that
  lies behind the cursor then.
\<close>

theorem history_pages_are_exact:
  assumes "pg_inv c s" "pg_inv c s'" "hf_limit hf = None" "queue_jobs (pg_ops c) e hf s = Inr all"
    and "queue_jobs (pg_ops c) e1 (hf\<lparr>hf_limit := Some n\<rparr>) s = Inr page" "page \<noteq> []"
    and "queue_jobs (pg_ops c) e2 (hf\<lparr>hf_created_before := Some (stamp (last page))\<rparr>) s' = Inr rest"
  shows "set all = {j. \<exists>i. a_job (pg_view c s) i = Some j \<and> listed (pg_older c) hf j} \<and> newest_first (pg_older c) all \<and>
    page = take (nat n) all \<and> (s' = s \<longrightarrow> all = page @ rest) \<and>
    (\<forall>x \<in> set page. \<forall>y \<in> set rest. pg_older c (stamp y) (stamp x)) \<and>
    (\<forall>i j. a_job (pg_view c s') i = Some j \<and> listed (pg_older c) hf j \<and> pg_older c (stamp j) (stamp (last page)) \<longrightarrow> j \<in> set rest)"
  using pg_history.pages_exact [OF assms(1-3)] assms(4-7) unfolding queue_jobs_def by blast

definition any_job :: history_filter where
  "any_job = \<lparr>hf_kind = None, hf_status = None, hf_finished_since = None, hf_finished_until = None, hf_created_before = None,
     hf_limit = None\<rparr>"

theorem history_pages_are_exact_witness:
  "\<exists>all page rest. queue_jobs (pg_ops binary_codec) (env_at 300) any_job (snd sample_claim) = Inr all \<and>
     queue_jobs (pg_ops binary_codec) (env_at 300) (any_job\<lparr>hf_limit := Some 1\<rparr>) (snd sample_claim) = Inr page \<and>
     all = page @ rest \<and> set all = {sample_job}"
proof -
  let ?s = "snd sample_claim" and ?ops = "pg_ops binary_codec"
  have answers: "\<exists>js. queue_jobs ?ops (env_at 300) hf ?s = Inr js" if "hf_limit hf \<in> {None, Some 1}" for hf
  proof -
    have "set (history_page binary_codec hf ?s) \<subseteq> set (jobs_tbl ?s)"
      by (auto simp: history_page_def Let_def split: option.splits dest!: in_set_takeD)
    from pg_rows_decode [OF sample_claim_inv this]
    show ?thesis using that by (auto simp: queue_jobs_def pg_ops_def pg_query_jobs_def fetch_def)
  qed
  have view: "{j. \<exists>i. a_job (pg_view binary_codec ?s) i = Some j \<and> listed (pg_older binary_codec) hf j} = {sample_job}"
    if "hf = any_job\<lparr>hf_limit := l\<rparr>" for hf l
    by (auto simp: that listed_def any_job_def split: if_splits)
  obtain all page where q: "queue_jobs ?ops (env_at 300) any_job ?s = Inr all"
    "queue_jobs ?ops (env_at 300) (any_job\<lparr>hf_limit := Some 1\<rparr>) ?s = Inr page"
    using answers [of any_job] answers [of "any_job\<lparr>hf_limit := Some 1\<rparr>"] by (auto simp: any_job_def)
  have page: "page \<noteq> []"
    using pg_history.query_ok [OF sample_claim_inv q(2) [unfolded queue_jobs_def]] view [OF refl, of "Some 1"]
    by (auto simp: cut_def)
  obtain rest where rest: "queue_jobs ?ops (env_at 300) (any_job\<lparr>hf_created_before := Some (stamp (last page))\<rparr>) ?s = Inr rest"
    using answers [of "any_job\<lparr>hf_created_before := Some (stamp (last page))\<rparr>"] by (auto simp: any_job_def)
  have unlimited: "hf_limit any_job = None" "any_job\<lparr>hf_limit := None\<rparr> = any_job" by (simp_all add: any_job_def)
  note exact = history_pages_are_exact [OF sample_claim_inv sample_claim_inv unlimited(1) q page rest]
  have "all = page @ rest" by (rule mp [OF exact [THEN conjunct2, THEN conjunct2, THEN conjunct2, THEN conjunct1] refl])
  moreover have "set all = {sample_job}" using exact [THEN conjunct1] unfolding view [OF unlimited(2) [symmetric]] .
  ultimately show ?thesis using q by blast
qed

end
