(* ===== verification/Queue_System.thy ===== *)
theory Queue_System
  imports Queue_Model Worker_Sample
begin

text \<open>
  The whole queue in motion: producers, workers and operators taking turns on one store, each step
  one store call made the way \<^verbatim>\<open>src/queue.rs\<close> and \<^verbatim>\<open>src/worker/mod.rs\<close> make it. A worker holds the
  record it claimed, a recovery holds the record it found stale, and a merge holds the candidate
  it read, while anything else happens in between; calls may fail with or without their effect.
  The invariants relate every job to its journal.
\<close>

section \<open>The step relation\<close>

record 's system =
  sys_store :: 's
  sys_used :: "ulid set"
  sys_runs :: "(string \<times> job_record) set"
  sys_stale :: "job_record set"
  sys_candidates :: "job_record set"

definition sys_init :: "'s \<Rightarrow> 's system" where
  "sys_init s = \<lparr>sys_store = s, sys_used = {}, sys_runs = {}, sys_stale = {}, sys_candidates = {}\<rparr>"

text \<open>What the worker tracks of a claimed job while its handler runs.\<close>

definition tracked :: "job_record \<Rightarrow> inflight_job" where
  "tracked j = \<lparr>inf_id = job_id j, inf_kind = job_kind j, inf_run_no = job_run_count j\<rparr>"

text \<open>The journal entry \<open>apply_merge\<close> writes for a candidate.\<close>

definition merged_entry :: "datetime \<Rightarrow> job_record \<Rightarrow> journal_append" where
  "merged_entry now j =
     \<lparr>app_kind = job_kind j, app_run_no = job_run_count j, app_recorded_at = now,
      app_outcome = JMerged, app_note = Some ''enqueue merged into pending job'',
      app_attachment = None\<rparr>"

definition add_run :: "string \<Rightarrow> job_record option res \<Rightarrow> 's system \<Rightarrow> 's system" where
  "add_run by r sys =
     (case r of Inr (Some j) \<Rightarrow> sys\<lparr>sys_runs := insert (by, j) (sys_runs sys)\<rparr> | _ \<Rightarrow> sys)"

inductive sys_step ::
  "runtime \<Rightarrow> 's store_ops \<Rightarrow> ('S, 's) worker set \<Rightarrow> 's system \<Rightarrow> 's system \<Rightarrow> bool"
  for rt ops fleet where
  step_enqueue:
    "new_id nj \<notin> sys_used sys \<Longrightarrow> so_enqueue ops e nj (sys_store sys) = (r, s') \<Longrightarrow>
      sys_step rt ops fleet sys (sys\<lparr>sys_store := s', sys_used := insert (new_id nj) (sys_used sys)\<rparr>)"
| step_claim:
    "w \<in> fleet \<Longrightarrow>
      so_claim_next ops e ks fl (cfg_lease (w_config w)) (w_identity w) (sys_store sys) = (r, s') \<Longrightarrow>
      sys_step rt ops fleet sys (add_run (w_identity w) r (sys\<lparr>sys_store := s'\<rparr>))"
| step_settle:
    "w \<in> fleet \<Longrightarrow> w_store w = ops \<Longrightarrow> (w_identity w, j) \<in> sys_runs sys \<Longrightarrow>
      settle rt w e now (spawn w j hist cancel elapsed) (sys_store sys) = (r, s') \<Longrightarrow>
      sys_step rt ops fleet sys (sys\<lparr>sys_store := s'\<rparr>)"
| step_release:
    "w \<in> fleet \<Longrightarrow> w_store w = ops \<Longrightarrow> (w_identity w, j) \<in> sys_runs sys \<Longrightarrow>
      release w e now (tracked j) (sys_store sys) = s' \<Longrightarrow>
      sys_step rt ops fleet sys (sys\<lparr>sys_store := s'\<rparr>)"
| step_lease:
    "w \<in> fleet \<Longrightarrow> w_store w = ops \<Longrightarrow> (w_identity w, j) \<in> sys_runs sys \<Longrightarrow>
      apply_task_lease w e j (sys_store sys) = s' \<Longrightarrow>
      sys_step rt ops fleet sys (sys\<lparr>sys_store := s'\<rparr>)"
| step_find_stale:
    "so_find_stale ops e (sys_store sys) = Inr js \<Longrightarrow>
      sys_step rt ops fleet sys (sys\<lparr>sys_stale := sys_stale sys \<union> set js\<rparr>)"
| step_recover:
    "w \<in> fleet \<Longrightarrow> w_store w = ops \<Longrightarrow> j \<in> sys_stale sys \<Longrightarrow>
      recover_one rt w e now j (sys_store sys) = (r, s') \<Longrightarrow>
      sys_step rt ops fleet sys (sys\<lparr>sys_store := s'\<rparr>)"
| step_candidate:
    "so_dedup_candidate ops e k key (sys_store sys) = Inr (Some j) \<Longrightarrow>
      sys_step rt ops fleet sys (sys\<lparr>sys_candidates := insert j (sys_candidates sys)\<rparr>)"
| step_merge:
    "j \<in> sys_candidates sys \<Longrightarrow> merge_valid u \<Longrightarrow>
      so_merge_into ops e (job_id j) u (merged_entry now j) (sys_store sys) = (r, s') \<Longrightarrow>
      sys_step rt ops fleet sys (sys\<lparr>sys_store := s'\<rparr>)"
| step_cleanup:
    "so_cleanup ops e cc (sys_store sys) = (r, s') \<Longrightarrow>
      sys_step rt ops fleet sys (sys\<lparr>sys_store := s'\<rparr>)"

inductive sys_reachable ::
  "runtime \<Rightarrow> 's store_ops \<Rightarrow> ('S, 's) worker set \<Rightarrow> 's \<Rightarrow> 's system \<Rightarrow> bool"
  for rt ops fleet s0 where
  reach_init: "sys_reachable rt ops fleet s0 (sys_init s0)"
| reach_step: "sys_reachable rt ops fleet s0 sys \<Longrightarrow> sys_step rt ops fleet sys sys' \<Longrightarrow>
    sys_reachable rt ops fleet s0 sys'"

inductive_cases sys_stepE: "sys_step rt ops fleet sys sys'"

section \<open>A job and its journal\<close>

definition executions :: "journal_append list \<Rightarrow> journal_append list" where
  "executions J = filter (\<lambda>x. app_outcome x \<noteq> JMerged) J"

definition failures :: "journal_append list \<Rightarrow> nat" where
  "failures J = length (filter (\<lambda>x. is_failure (app_outcome x)) J)"

text \<open>The number of runs that have ended: all of them, but the current one of a claimed job.\<close>

definition ended_runs :: "job_record \<Rightarrow> nat" where
  "ended_runs j = unat (job_run_count j) - (if job_status j = Claimed then 1 else 0)"

definition runs_recorded :: "job_record \<Rightarrow> journal_append list \<Rightarrow> bool" where
  "runs_recorded j J \<longleftrightarrow>
     map (\<lambda>x. unat (app_run_no x)) (executions J) = [1..<ended_runs j + 1] \<and>
     (job_status j = Claimed \<longrightarrow> 1 \<le> unat (job_run_count j))"

definition failures_counted :: "job_record \<Rightarrow> journal_append list \<Rightarrow> bool" where
  "failures_counted j J \<longleftrightarrow> sint (job_failure_count j) = min i32_max (int (failures J))"

definition end_recorded :: "job_record \<Rightarrow> journal_append list \<Rightarrow> bool" where
  "end_recorded j J \<longleftrightarrow>
     (job_status j = Completed \<longleftrightarrow> JCompleted \<in> app_outcome ` set J) \<and>
     (job_status j = Dead \<longleftrightarrow> JDead \<in> app_outcome ` set J)"

definition accounted :: "job_record \<Rightarrow> journal_append list \<Rightarrow> bool" where
  "accounted j J \<longleftrightarrow> runs_recorded j J \<and> failures_counted j J \<and> end_recorded j J"

text \<open>
  A record read earlier, against the job now: its run is not in the future, and if it is still the
  claimed run, no failure was counted since.
\<close>

definition not_ahead :: "job_record \<Rightarrow> job_record \<Rightarrow> bool" where
  "not_ahead old j \<longleftrightarrow>
     unat (job_run_count old) \<le> unat (job_run_count j) \<and>
     (job_run_count j = job_run_count old \<and> job_status j = Claimed \<longrightarrow>
        job_failure_count j = job_failure_count old)"

text \<open>The settlement and its entry belong to the current run of the job.\<close>

definition closes_run :: "settlement \<Rightarrow> journal_append \<Rightarrow> job_record \<Rightarrow> bool" where
  "closes_run stl ja j \<longleftrightarrow>
     app_run_no ja = job_run_count j \<and> app_outcome ja = journal_outcome_for stl \<and>
     (case stl of
        Retry _ n _ \<Rightarrow> n = i32_saturating_add (job_failure_count j) 1
      | GiveUp _ n \<Rightarrow> n = i32_saturating_add (job_failure_count j) 1
      | _ \<Rightarrow> True)"

lemmas accounted_defs = accounted_def runs_recorded_def failures_counted_def end_recorded_def

lemma saturating_failures:
  "sint a = min i32_max (int n) \<Longrightarrow> sint (i32_saturating_add a 1) = min i32_max (int (Suc n))"
  by (simp add: sint_i32_saturating_add int_limits)

lemma unat_i32_one: "sint (1 :: i32) = 1"
  by simp

lemma accounted_fresh: "accounted (fresh_job nj) []"
  by (simp add: accounted_defs fresh_job_def executions_def failures_def ended_runs_def int_limits)

lemma accounted_claim:
  assumes "accounted j J" "job_status j = Pending" "unat (job_run_count j) < u32_max"
  shows "accounted (claim_job t by j) J"
proof -
  have "unat (job_run_count j + 1) = unat (job_run_count j) + 1"
    using assms(3) by (simp add: u32_max_def unat_word_ariths)
  with assms(1,2) show ?thesis
    by (simp add: accounted_defs claim_job_def ended_runs_def)
qed

lemma executions_snoc: "app_outcome ja \<noteq> JMerged \<Longrightarrow> executions (J @ [ja]) = executions J @ [ja]"
  by (simp add: executions_def)

lemma runs_recorded_close:
  assumes "runs_recorded j J" "job_status j = Claimed" "app_outcome ja \<noteq> JMerged"
    and "app_run_no ja = job_run_count j" "job_run_count j' = job_run_count j" "job_status j' \<noteq> Claimed"
  shows "runs_recorded j' (J @ [ja])"
proof -
  obtain n where n: "unat (job_run_count j) = Suc n"
    using assms(1,2) by (auto simp: runs_recorded_def Suc_le_eq gr0_conv_Suc)
  with assms show ?thesis by (simp add: runs_recorded_def executions_snoc ended_runs_def)
qed

lemma accounted_settle:
  assumes "accounted j J" "job_status j = Claimed" "closes_run stl ja j"
  shows "accounted (settle_job stl j) (J @ [ja])"
proof -
  have out: "app_outcome ja = journal_outcome_for stl" using assms(3) by (simp add: closes_run_def)
  have "runs_recorded (settle_job stl j) (J @ [ja])"
    using assms by (intro runs_recorded_close [of j])
      (cases stl; simp add: accounted_def closes_run_def unclaim_def)+
  moreover have "failures_counted (settle_job stl j) (J @ [ja])"
    using assms saturating_failures [of "job_failure_count j" "failures J"]
    by (cases stl) (simp_all add: accounted_def failures_counted_def failures_def closes_run_def unclaim_def)
  moreover have "end_recorded (settle_job stl j) (J @ [ja])"
    using assms by (cases stl) (auto simp: accounted_def end_recorded_def out unclaim_def)
  ultimately show ?thesis by (simp add: accounted_def)
qed

lemma accounted_recover:
  assumes "accounted j J" "job_status j = Claimed" "app_run_no ja = job_run_count j"
    and "app_outcome ja = JStaleRecovered" "n = i32_saturating_add (job_failure_count j) 1"
  shows "accounted (recover_job vis n j) (J @ [ja])"
proof -
  have "runs_recorded (recover_job vis n j) (J @ [ja])"
    using assms by (intro runs_recorded_close [of j]) (simp_all add: accounted_def recover_job_def unclaim_def)
  moreover have "failures_counted (recover_job vis n j) (J @ [ja])"
    using assms saturating_failures [of "job_failure_count j" "failures J"]
    by (simp add: accounted_def failures_counted_def failures_def recover_job_def unclaim_def)
  moreover have "end_recorded (recover_job vis n j) (J @ [ja])"
    using assms by (auto simp: accounted_def end_recorded_def recover_job_def unclaim_def)
  ultimately show ?thesis by (simp add: accounted_def)
qed

lemma accounted_merge:
  "accounted j J \<Longrightarrow> app_outcome ja = JMerged \<Longrightarrow> accounted (merge_job u j) (J @ [ja])"
  by (cases u) (auto simp: accounted_defs executions_def failures_def ended_runs_def merge_job_def)

lemma accounted_extend: "accounted j J \<Longrightarrow> accounted (extend_job t j) J"
  by (simp add: accounted_defs ended_runs_def extend_job_def)

section \<open>Invariant\<close>

definition audit :: "astore \<Rightarrow> ulid set \<Rightarrow> job_record set \<Rightarrow> bool" where
  "audit a used snaps \<longleftrightarrow>
     (\<forall>i j. a_job a i = Some j \<longrightarrow> i \<in> used \<and> accounted j (a_journal a i)) \<and>
     (\<forall>old \<in> snaps. job_id old \<in> used \<and>
        (\<forall>j. a_job a (job_id old) = Some j \<longrightarrow> not_ahead old j))"

definition snapshots :: "'s system \<Rightarrow> job_record set" where
  "snapshots sys = snd ` sys_runs sys \<union> sys_stale sys"

lemma audit_accounted: "audit a used snaps \<Longrightarrow> a_job a i = Some j \<Longrightarrow> accounted j (a_journal a i)"
  by (simp add: audit_def)

lemma audit_unused: "audit a used snaps \<Longrightarrow> i \<notin> used \<Longrightarrow> a_job a i = None"
  by (cases "a_job a i") (auto simp: audit_def)

text \<open>A guarded write that keeps the run number and the account of the job keeps the audit.\<close>

lemma audit_guarded:
  assumes "audit a used snaps"
    and f: "\<And>j. a_job a i = Some j \<Longrightarrow> g j \<Longrightarrow> accounted (f j) (a_journal a i @ es) \<and>
      job_run_count (f j) = job_run_count j \<and>
      (job_status (f j) = Claimed \<longrightarrow> job_status j = Claimed \<and> job_failure_count (f j) = job_failure_count j)"
  shows "audit (snd (guarded g f es i a)) used snaps"
proof (rule guarded_cases [of a i g f es])
  fix j
  assume j: "a_job a i = Some j" "g j" and eq: "guarded g f es i a =
    (True, a\<lparr>a_job := (a_job a)(i \<mapsto> f j), a_journal := (a_journal a)(i := a_journal a i @ es)\<rparr>)"
  have "not_ahead old (f j)" if "not_ahead old j" for old
    using that f [OF j] by (auto simp: not_ahead_def)
  then show "audit (snd (guarded g f es i a)) used snaps"
    using assms(1) j f [OF j] by (auto simp: eq audit_def)
qed (use assms(1) in simp)

lemma audit_enqueue:
  assumes "audit a used snaps" "new_id nj \<notin> used" "a_journal a (new_id nj) = []"
  shows "audit (spec_enqueue nj a) (insert (new_id nj) used) snaps"
  using assms accounted_fresh [of nj] by (auto simp: audit_def spec_enqueue_def)

lemma audit_used: "audit a used snaps \<Longrightarrow> used \<subseteq> used' \<Longrightarrow> audit a used' snaps"
  by (auto simp: audit_def)

lemma audit_cleanup: "audit a used snaps \<Longrightarrow> audit (spec_cleanup cc a) used snaps"
  by (auto simp: audit_def spec_cleanup_def Let_def)

lemma audit_claim:
  assumes "audit a used snaps" "spec_claim busy now ks fl ls by a r a'" "astore_wf a"
  shows "audit a' used snaps" "r = Some j' \<Longrightarrow> audit a' used (insert j' snaps)"
proof -
  have claimed: "audit a' used (insert j' snaps)" if some: "r = Some j'" for j'
  proof -
    obtain i j t where j: "a_job a i = Some j" "job_status j = Pending" "unat (job_run_count j) < u32_max"
      "j' = claim_job t by j" "a' = a\<lparr>a_job := (a_job a)(i \<mapsto> j')\<rparr>"
      using assms(2) some by (auto simp: spec_claim_def claimable_def)
    have id: "job_id j' = i" using assms(3) j(1,4) by (simp add: astore_wf_def)
    have rc: "unat (job_run_count j') = Suc (unat (job_run_count j))"
      using j(3) by (simp add: j(4) job_run_count_claim u32_max_def unat_word_ariths)
    have "not_ahead old j'" if "not_ahead old j" for old
      using that rc by (auto simp: not_ahead_def)
    then show ?thesis
      using assms(1) j(1) accounted_claim [OF audit_accounted [OF assms(1) j(1)] j(2,3), of t "by"] id
      by (auto simp: audit_def j(5) not_ahead_def j(4))
  qed
  then show "r = Some j' \<Longrightarrow> audit a' used (insert j' snaps)" .
  from claimed show "audit a' used snaps"
    using assms(1,2) by (cases r) (auto simp: spec_claim_def audit_def)
qed

lemma settlement_of_closes:
  assumes "fin_run_no fin = job_run_count j" "fin_failure_count fin = job_failure_count j"
  shows "closes_run (fst (settlement_of rt w now fin)) (snd (settlement_of rt w now fin)) j"
  unfolding closes_run_def settlement_of_journal
  by (auto simp: assms settlement_of_fst settlement_for_def retry_or_backstop_eq split: sum.split outcome.split)

lemma settled_not_claimed: "job_status (settle_job stl j) \<noteq> Claimed"
  by (cases stl) (simp_all add: unclaim_def)

text \<open>Only the run the record belongs to can close it, and then its failure count is current.\<close>

lemma audit_settle:
  assumes "audit a used snaps" "old \<in> snaps"
    and "\<And>j. job_failure_count j = job_failure_count old \<Longrightarrow> job_run_count j = job_run_count old \<Longrightarrow>
      closes_run stl ja j"
  shows "audit (snd (spec_settle by (job_run_count old) stl ja (job_id old) a)) used snaps"
  unfolding spec_settle_def
proof (rule audit_guarded [OF assms(1)])
  fix j
  assume j: "a_job a (job_id old) = Some j" "owned by (job_run_count old) j"
  have "not_ahead old j" using assms(1,2) j(1) by (simp add: audit_def)
  then have "closes_run stl ja j" using assms(3) j(2) by (simp add: not_ahead_def owned_def)
  moreover have "job_status j = Claimed" using j(2) by (simp add: owned_def)
  ultimately show "accounted (settle_job stl j) (a_journal a (job_id old) @ [ja]) \<and>
      job_run_count (settle_job stl j) = job_run_count j \<and>
      (job_status (settle_job stl j) = Claimed \<longrightarrow> job_status j = Claimed \<and>
        job_failure_count (settle_job stl j) = job_failure_count j)"
    using accounted_settle [OF audit_accounted [OF assms(1) j(1)]] by (simp add: settled_not_claimed)
qed

lemma audit_recover:
  assumes "audit a used snaps" "old \<in> snaps" "app_run_no ja = job_run_count old"
    and "app_outcome ja = JStaleRecovered" "n = i32_saturating_add (job_failure_count old) 1"
  shows "audit (snd (spec_recover now vis n (job_run_count old) ja (job_id old) a)) used snaps"
  unfolding spec_recover_def
proof (rule audit_guarded [OF assms(1)])
  fix j
  assume j: "a_job a (job_id old) = Some j" "expired now (job_run_count old) j"
  have "not_ahead old j" using assms(1,2) j(1) by (simp add: audit_def)
  then have "job_failure_count j = job_failure_count old" "job_run_count j = job_run_count old" "job_status j = Claimed"
    using j(2) by (simp_all add: not_ahead_def expired_def)
  then show "accounted (recover_job vis n j) (a_journal a (job_id old) @ [ja]) \<and>
      job_run_count (recover_job vis n j) = job_run_count j \<and>
      (job_status (recover_job vis n j) = Claimed \<longrightarrow> job_status j = Claimed \<and>
        job_failure_count (recover_job vis n j) = job_failure_count j)"
    using accounted_recover [OF audit_accounted [OF assms(1) j(1)], of ja n vis] assms(3-5)
    by (simp add: recover_job_def unclaim_def)
qed

lemma audit_merge:
  assumes "audit a used snaps" "app_outcome ja = JMerged"
  shows "audit (snd (spec_merge u ja i a)) used snaps"
  unfolding spec_merge_def
  by (rule audit_guarded [OF assms(1)])
    (use accounted_merge [OF audit_accounted [OF assms(1)] assms(2)] in
      \<open>auto simp: merge_job_def split: option.splits\<close>)

lemma audit_extend:
  assumes "audit a used snaps"
  shows "audit (snd (spec_extend t by rn i a)) used snaps"
  unfolding spec_extend_def
  by (rule audit_guarded [OF assms])
    (use accounted_extend [OF audit_accounted [OF assms]] in \<open>auto simp: extend_job_def\<close>)

section \<open>The abstract queue\<close>

text \<open>
  The same steps on the abstract store, the identifiers in use and the records held by workers: a
  call that failed without effect is a step that only observes.
\<close>

type_synonym queue_view = "astore \<times> ulid set \<times> job_record set"

inductive abs_step :: "queue_view \<Rightarrow> queue_view \<Rightarrow> bool" where
  abs_observe:
    "used \<subseteq> used' \<Longrightarrow> (\<forall>j \<in> seen. a_job a (job_id j) = Some j) \<Longrightarrow>
      abs_step (a, used, snaps) (a, used', snaps \<union> seen)"
| abs_enqueue:
    "new_id nj \<notin> used \<Longrightarrow> new_priority nj \<in> {0, 1, 2} \<Longrightarrow>
      abs_step (a, used, snaps) (spec_enqueue nj a, insert (new_id nj) used, snaps)"
| abs_claim:
    "spec_claim busy now ks fl ls by a r a' \<Longrightarrow> snaps' \<in> {snaps} \<union> {insert j snaps | j. r = Some j} \<Longrightarrow>
      abs_step (a, used, snaps) (a', used, snaps')"
| abs_settle:
    "old \<in> snaps \<Longrightarrow>
      (\<And>j. job_failure_count j = job_failure_count old \<Longrightarrow> job_run_count j = job_run_count old \<Longrightarrow>
        closes_run stl ja j) \<Longrightarrow>
      abs_step (a, used, snaps) (snd (spec_settle by (job_run_count old) stl ja (job_id old) a), used, snaps)"
| abs_recover:
    "old \<in> snaps \<Longrightarrow> app_run_no ja = job_run_count old \<Longrightarrow> app_outcome ja = JStaleRecovered \<Longrightarrow>
      n = i32_saturating_add (job_failure_count old) 1 \<Longrightarrow>
      abs_step (a, used, snaps) (snd (spec_recover now vis n (job_run_count old) ja (job_id old) a), used, snaps)"
| abs_extend:
    "abs_step (a, used, snaps) (snd (spec_extend t by rn i a), used, snaps)"
| abs_merge:
    "app_outcome ja = JMerged \<Longrightarrow> merge_valid u \<Longrightarrow>
      abs_step (a, used, snaps) (snd (spec_merge u ja i a), used, snaps)"
| abs_cleanup:
    "abs_step (a, used, snaps) (spec_cleanup cc a, used, snaps)"

inductive_cases abs_stepE: "abs_step (a, used, snaps) q"

definition sys_view :: "('s \<Rightarrow> astore) \<Rightarrow> 's system \<Rightarrow> queue_view" where
  "sys_view view sys = (view (sys_store sys), sys_used sys, snapshots sys)"

definition wf_audit :: "queue_view \<Rightarrow> bool" where
  "wf_audit q \<longleftrightarrow> astore_wf (fst q) \<and> audit (fst q) (fst (snd q)) (snd (snd q))"

lemma abs_skip: "abs_step (a, used, snaps) (a, used, snaps)"
  using abs_observe [of used used "{}" a snaps] by simp

lemma audit_observe:
  assumes "audit a used snaps" "used \<subseteq> used'" "\<forall>j \<in> seen. a_job a (job_id j) = Some j"
  shows "audit a used' (snaps \<union> seen)"
  using assms by (fastforce simp: audit_def not_ahead_def)

lemma abs_step_audit:
  assumes "abs_step q q'" "wf_audit q"
  shows "wf_audit q'"
  using assms
proof (induction rule: abs_step.induct)
  case (abs_observe used used' seen a snaps)
  then show ?case using audit_observe [of a used snaps used' seen] by (simp add: wf_audit_def)
next
  case (abs_enqueue nj used a snaps)
  then have "a_job a (new_id nj) = None" by (auto simp: wf_audit_def intro: audit_unused)
  then have "a_journal a (new_id nj) = []" using abs_enqueue by (simp add: wf_audit_def astore_wf_def)
  with abs_enqueue show ?case by (simp add: wf_audit_def audit_enqueue astore_wf_spec)
next
  case (abs_claim busy now ks fl ls "by" a r a' snaps' snaps used)
  then have wf: "astore_wf a" "audit a used snaps" by (simp_all add: wf_audit_def)
  with abs_claim(1,2) audit_claim [OF wf(2) abs_claim(1) wf(1)] astore_wf_spec_claim [OF wf(1) abs_claim(1)]
  show ?case by (auto simp: wf_audit_def)
next
  case (abs_settle old snaps stl ja a used "by")
  then show ?case by (simp add: wf_audit_def astore_wf_spec audit_settle)
qed (simp_all add: wf_audit_def astore_wf_spec audit_recover audit_extend audit_merge audit_cleanup)

section \<open>How jobs evolve\<close>

definition terminal :: "job_record \<Rightarrow> bool" where
  "terminal j \<longleftrightarrow> job_status j \<in> {Completed, Dead}"

text \<open>
  A job keeps its identity, its runs only grow, its journal only grows at the end, and once
  terminal nothing about it changes.
\<close>

definition evolves ::
  "job_record \<Rightarrow> journal_append list \<Rightarrow> job_record \<Rightarrow> journal_append list \<Rightarrow> bool" where
  "evolves j J j' J' \<longleftrightarrow>
     job_id j' = job_id j \<and> job_kind j' = job_kind j \<and> job_created_at j' = job_created_at j \<and>
     unat (job_run_count j) \<le> unat (job_run_count j') \<and>
     (\<exists>K. J' = J @ K) \<and> (terminal j \<longrightarrow> j' = j \<and> J' = J)"

definition jobs_kept :: "astore \<Rightarrow> astore \<Rightarrow> bool" where
  "jobs_kept a a' \<longleftrightarrow>
     (\<forall>i j. a_job a i = Some j \<longrightarrow>
        (case a_job a' i of
           None \<Rightarrow> terminal j
         | Some j' \<Rightarrow> evolves j (a_journal a i) j' (a_journal a' i)))"

lemma evolves_refl: "evolves j J j J"
  by (simp add: evolves_def)

lemma jobs_kept_guarded:
  assumes "\<And>j. a_job a i = Some j \<Longrightarrow> g j \<Longrightarrow> \<not> terminal j \<and> job_id (f j) = job_id j \<and> job_kind (f j) = job_kind j \<and>
      job_created_at (f j) = job_created_at j \<and> job_run_count (f j) = job_run_count j"
  shows "jobs_kept a (snd (guarded g f es i a))"
  by (rule guarded_cases [of a i g f es])
    (use assms in \<open>auto simp: jobs_kept_def evolves_def split: option.split\<close>)

lemma job_created_at_transitions [simp]:
  "job_created_at (claim_job e by j) = job_created_at j" "job_created_at (settle_job stl j) = job_created_at j"
  "job_created_at (recover_job v n j) = job_created_at j" "job_created_at (extend_job e j) = job_created_at j"
  "job_created_at (merge_job u j) = job_created_at j"
  by (simp_all add: job_defs split: option.split) (cases stl; simp add: unclaim_def)

lemma abs_step_keeps_jobs:
  assumes "abs_step q q'" "wf_audit q"
  shows "jobs_kept (fst q) (fst q')"
  using assms
proof (induction rule: abs_step.induct)
  case (abs_enqueue nj used a snaps)
  then have "a_job a (new_id nj) = None" by (auto simp: wf_audit_def intro: audit_unused)
  then show ?case by (auto simp: jobs_kept_def spec_enqueue_def evolves_refl split: option.split)
next
  case (abs_claim busy now ks fl ls "by" a r a' snaps' snaps used)
  show ?case
  proof (cases r)
    case None
    with abs_claim(1) show ?thesis by (simp add: spec_claim_def jobs_kept_def evolves_refl)
  next
    case (Some j')
    with abs_claim(1) obtain i j t where j: "a_job a i = Some j" "job_status j = Pending"
      "unat (job_run_count j) < u32_max" "a' = a\<lparr>a_job := (a_job a)(i \<mapsto> claim_job t by j)\<rparr>"
      by (auto simp: spec_claim_def claimable_def)
    have "unat (job_run_count j) \<le> unat (job_run_count j + 1)"
      using j(3) by (simp add: u32_max_def unat_word_ariths)
    with j show ?thesis
      by (auto simp: jobs_kept_def evolves_def terminal_def job_run_count_claim split: option.split)
  qed
next
  case (abs_cleanup a used snaps cc)
  then have "astore_wf a" by (simp add: wf_audit_def)
  then have "terminal j" if "a_job a i = Some j" "sweepable cc j" for i j
    using that by (fastforce simp: astore_wf_def job_wf_def sweepable_def terminal_def)
  then show ?case
    by (auto simp: jobs_kept_def spec_cleanup_def Let_def evolves_refl split: option.split)
qed (auto simp: spec_settle_def spec_recover_def spec_extend_def spec_merge_def jobs_kept_def [of a a for a]
    evolves_refl guard_defs terminal_def intro!: jobs_kept_guarded)

context store_contract
begin

lemma conforms_step:
  assumes "conforms view s out spec" "abs_step (view s, used, snaps) (snd spec, used, snaps)"
  shows "abs_step (view s, used, snaps) (view (snd out), used, snaps)"
  using assms(1) by (rule conforms_cases) (use assms(2) abs_skip in simp_all)

lemma settle_call_step:
  assumes "invar s" "old \<in> snaps"
    and "\<And>j. job_failure_count j = job_failure_count old \<Longrightarrow> job_run_count j = job_run_count old \<Longrightarrow>
      closes_run stl ja j"
    and "so_settle ops e (job_id old) by (job_run_count old) stl ja s = (r, s')"
  shows "invar s' \<and> abs_step (view s, used, snaps) (view s', used, snaps)"
proof -
  have "abs_step (view s, used, snaps)
      (snd (spec_settle by (job_run_count old) stl ja (job_id old) (view s)), used, snaps)"
    using assms(2,3) by (rule abs_settle)
  from conforms_step [OF settle_conforms [OF assms(1)] this, of e] settle_inv [OF assms(1)] show ?thesis
    by (metis assms(4) snd_conv)
qed

lemma enqueue_call_step:
  assumes "invar s" "audit (view s) used snaps" "new_id nj \<notin> used" "so_enqueue ops e nj s = (r, s')"
  shows "invar s' \<and> abs_step (view s, used, snaps) (view s', insert (new_id nj) used, snaps)"
proof -
  have new: "a_job (view s) (new_id nj) = None" using assms(2,3) by (rule audit_unused)
  have skip: "abs_step (view s, used, snaps) (view s, insert (new_id nj) used, snaps)"
    using abs_observe [of used "insert (new_id nj) used" "{}" "view s" snaps] by auto
  have "abs_step (view s, used, snaps) (view s', insert (new_id nj) used, snaps)"
  proof (cases "new_priority nj \<in> {0, 1, 2}")
    case True
    from enqueue_conforms [OF assms(1) True new, of e] show ?thesis
      using abs_enqueue [OF assms(3) True] skip by (auto simp: assms(4) elim!: conforms_cases)
  next
    case False
    then have "s' = s" using enqueue_invalid [OF False, of e s] assms(4) by simp
    then show ?thesis using skip by simp
  qed
  then show ?thesis using enqueue_inv [OF assms(1) new, of e] by (simp add: assms(4))
qed

lemma claim_call_step:
  assumes "invar s" "so_claim_next ops e ks fl ls by s = (r, s')"
  shows "invar s' \<and> abs_step (view s, used, snaps)
    (view s', used, case r of Inr (Some j) \<Rightarrow> insert j snaps | _ \<Rightarrow> snaps)"
proof (cases r)
  case (Inl x)
  with claim_err [OF assms(1)] assms(2)
  have "view s' = view s \<or> (\<exists>q. spec_claim (busy e) (env_now e) ks fl ls by (view s) q (view s'))" by blast
  then show ?thesis
    using claim_inv [OF assms(1), of e ks fl ls "by"]
      abs_claim [of "busy e" "env_now e" ks fl ls "by" "view s" _ "view s'"]
    by (auto simp: Inl assms(2) abs_skip)
next
  case (Inr q)
  with claim_ok [OF assms(1)] assms(2)
  have "spec_claim (busy e) (env_now e) ks fl ls by (view s) q (view s')" by blast
  from abs_claim [OF this] show ?thesis
    using claim_inv [OF assms(1), of e ks fl ls "by"] by (cases q) (auto simp: Inr assms(2))
qed

lemma finished_call_step:
  assumes "invar s" "j \<in> snaps" "w_store w = ops"
    and "settle rt w e now (spawn w j hist cancel elapsed) s = (r, s')"
  shows "invar s' \<and> abs_step (view s, used, snaps) (view s', used, snaps)"
proof -
  let ?fin = "spawn w j hist cancel elapsed"
  let ?stl = "fst (settlement_of rt w now ?fin)" and ?ja = "snd (settlement_of rt w now ?fin)"
  have fin: "fin_id ?fin = job_id j" "fin_run_no ?fin = job_run_count j" "fin_failure_count ?fin = job_failure_count j"
    by (simp_all add: spawn_def Let_def)
  have closes: "closes_run ?stl ?ja l"
    if "job_failure_count l = job_failure_count j" "job_run_count l = job_run_count j" for l
    using that fin by (intro settlement_of_closes) simp_all
  obtain v where "so_settle ops e (job_id j) (w_identity w) (job_run_count j) ?stl ?ja s = (v, s')"
    using assms(3,4) fin by (auto simp: settle_def Let_def split: prod.splits)
  from settle_call_step [OF assms(1,2) closes this] show ?thesis .
qed

lemma release_call_step:
  assumes "invar s" "j \<in> snaps" "w_store w = ops"
  shows "invar (release w e now (tracked j) s) \<and>
    abs_step (view s, used, snaps) (view (release w e now (tracked j) s), used, snaps)"
proof -
  define ja where "ja = \<lparr>app_kind = job_kind j, app_run_no = job_run_count j, app_recorded_at = now,
    app_outcome = JReleased, app_note = Some ''released by graceful shutdown'', app_attachment = None\<rparr>"
  have closes: "closes_run (Release now) ja l"
    if "job_failure_count l = job_failure_count j" "job_run_count l = job_run_count j" for l
    using that by (simp add: closes_run_def ja_def)
  obtain v where "so_settle ops e (job_id j) (w_identity w) (job_run_count j) (Release now) ja s =
      (v, release w e now (tracked j) s)"
    using assms(3) by (auto simp: release_def tracked_def ja_def Let_def prod_eq_iff)
  from settle_call_step [OF assms(1,2) closes this] show ?thesis .
qed

lemma lease_call_step:
  assumes "invar s" "w_store w = ops"
  shows "invar (apply_task_lease w e j s) \<and>
    abs_step (view s, used, snaps) (view (apply_task_lease w e j s), used, snaps)"
proof -
  have extend: "invar s' \<and> abs_step (view s, used, snaps) (view s', used, snaps)"
    if ext: "s' = snd (so_extend_lease ops e (job_id j) (w_identity w) (job_run_count j) ls s)" for ls s'
  proof -
    obtain t where "conforms view s (so_extend_lease ops e (job_id j) (w_identity w) (job_run_count j) ls s)
        (spec_extend t (w_identity w) (job_run_count j) (job_id j) (view s))"
      using extend_conforms [OF assms(1)] by blast
    from conforms_step [OF this abs_extend] extend_inv [OF assms(1)] show ?thesis by (simp add: ext)
  qed
  then show ?thesis
    using assms abs_skip by (auto simp: apply_task_lease_def Let_def split: option.split)
qed

lemma recover_call_step:
  assumes "invar s" "j \<in> snaps" "w_store w = ops" "recover_one rt w e now j s = (r, s')"
  shows "invar s' \<and> abs_step (view s, used, snaps) (view s', used, snaps)"
proof -
  obtain vis n ja where call: "so_recover ops e (job_id j) vis n (job_run_count j) ja s = (r, s')"
    "app_run_no ja = job_run_count j" "app_outcome ja = JStaleRecovered" "n = i32_saturating_add (job_failure_count j) 1"
    using assms(3,4) by (auto simp: recover_one_def Let_def)
  have "abs_step (view s, used, snaps)
      (snd (spec_recover (env_now e) vis n (job_run_count j) ja (job_id j) (view s)), used, snaps)"
    using assms(2) call(2-4) by (rule abs_recover)
  from conforms_step [OF recover_conforms [OF assms(1)] this] recover_inv [OF assms(1)] call(1) show ?thesis
    by (metis snd_conv)
qed

lemma merge_call_step:
  assumes "invar s" "merge_valid u" "so_merge_into ops e i u (merged_entry now j) s = (r, s')"
  shows "invar s' \<and> abs_step (view s, used, snaps) (view s', used, snaps)"
proof -
  have "app_outcome (merged_entry now j) = JMerged" by (simp add: merged_entry_def)
  then have "abs_step (view s, used, snaps) (snd (spec_merge u (merged_entry now j) i (view s)), used, snaps)"
    using assms(2) by (rule abs_merge)
  from conforms_step [OF merge_conforms [OF assms(1,2)] this] merge_inv [OF assms(1,2)] assms(3) show ?thesis
    by (metis snd_conv)
qed

text \<open>Simulation: every step of the queue over a lawful store is a step of the abstract queue.\<close>

lemma sys_step_simulates:
  assumes "sys_step rt ops fleet sys sys'" "invar (sys_store sys)"
    and "audit (view (sys_store sys)) (sys_used sys) (snapshots sys)"
  shows "invar (sys_store sys') \<and> abs_step (sys_view view sys) (sys_view view sys')"
  using assms
proof (induction rule: sys_step.induct)
  case (step_enqueue nj sys e r s')
  from enqueue_call_step [OF step_enqueue(3,4,1,2)] show ?case by (simp add: sys_view_def snapshots_def)
next
  case (step_claim w e ks fl sys r s')
  from claim_call_step [OF step_claim(3,2), of "sys_used sys" "snapshots sys"] show ?case
    by (auto simp: sys_view_def snapshots_def add_run_def split: sum.splits option.splits)
next
  case (step_settle w j sys e now hist cancel elapsed r s')
  have "j \<in> snapshots sys" using step_settle(3) by (force simp: snapshots_def)
  from finished_call_step [OF step_settle(5) this step_settle(2,4)] show ?case
    by (simp add: sys_view_def snapshots_def)
next
  case (step_release w j sys e now s')
  have "j \<in> snapshots sys" using step_release(3) by (force simp: snapshots_def)
  from release_call_step [OF step_release(5) this step_release(2)] step_release(4) show ?case
    by (auto simp: sys_view_def snapshots_def)
next
  case (step_lease w j sys e s')
  from lease_call_step [OF step_lease(5,2)] step_lease(4) show ?case by (auto simp: sys_view_def snapshots_def)
next
  case (step_find_stale e sys js)
  have "\<forall>j \<in> set js. a_job (view (sys_store sys)) (job_id j) = Some j"
    using find_stale_ok [OF step_find_stale(2,1)] by blast
  from abs_observe [OF subset_refl this, of "sys_used sys" "snapshots sys"] step_find_stale(2) show ?case
    by (simp add: sys_view_def snapshots_def Un_assoc)
next
  case (step_recover w j sys e now r s')
  have "j \<in> snapshots sys" using step_recover(3) by (simp add: snapshots_def)
  from recover_call_step [OF step_recover(5) this step_recover(2,4)] show ?case
    by (simp add: sys_view_def snapshots_def)
next
  case (step_candidate e k key sys j)
  then show ?case by (simp add: sys_view_def snapshots_def abs_skip)
next
  case (step_merge j sys u e now r s')
  from merge_call_step [OF step_merge(4,2,3)] show ?case by (simp add: sys_view_def snapshots_def)
next
  case (step_cleanup e cc sys r s')
  from cleanup_effect [OF step_cleanup(2), of e cc] cleanup_inv [OF step_cleanup(2), of e cc] show ?case
    using abs_cleanup abs_skip by (auto simp: step_cleanup(1) sys_view_def snapshots_def)
qed

lemma sys_reachable_audit:
  assumes "sys_reachable rt ops fleet s0 sys" "invar s0" "a_job (view s0) = Map.empty"
  shows "invar (sys_store sys) \<and> wf_audit (sys_view view sys)"
  using assms
proof (induction rule: sys_reachable.induct)
  case reach_init
  then show ?case
    using view_wf [of s0] by (simp add: wf_audit_def sys_view_def sys_init_def audit_def snapshots_def)
next
  case (reach_step sys sys')
  then have "invar (sys_store sys)" "wf_audit (sys_view view sys)" by simp_all
  then show ?case
    using sys_step_simulates [OF reach_step(2)] abs_step_audit by (auto simp: wf_audit_def sys_view_def)
qed

lemma sys_step_keeps_jobs:
  assumes "sys_reachable rt ops fleet s0 sys" "invar s0" "a_job (view s0) = Map.empty"
    and "sys_step rt ops fleet sys sys'"
  shows "jobs_kept (view (sys_store sys)) (view (sys_store sys'))"
proof -
  have "invar (sys_store sys)" "wf_audit (sys_view view sys)"
    using sys_reachable_audit [OF assms(1-3)] by simp_all
  then have "abs_step (sys_view view sys) (sys_view view sys')"
    using sys_step_simulates [OF assms(4)] by (simp add: wf_audit_def sys_view_def)
  from abs_step_keeps_jobs [OF this \<open>wf_audit _\<close>] show ?thesis by (simp add: sys_view_def)
qed

end

section \<open>The PostgreSQL queue\<close>

definition pg_reachable ::
  "runtime \<Rightarrow> ulid_codec \<Rightarrow> ('S, pg_state) worker set \<Rightarrow> pg_state system \<Rightarrow> bool" where
  "pg_reachable rt c fleet sys \<longleftrightarrow> sys_reachable rt (pg_ops c) fleet pg_empty sys"

lemma pg_reachable_audit:
  assumes "ulid_codec_ok c" "pg_reachable rt c fleet sys"
  shows "pg_inv c (sys_store sys)"
    and "a_job (pg_view c (sys_store sys)) i = Some j \<Longrightarrow>
      job_wf j \<and> accounted j (a_journal (pg_view c (sys_store sys)) i)"
proof -
  have "pg_inv c pg_empty" "a_job (pg_view c pg_empty) = Map.empty"
    using assms(1) by (simp_all add: pg_empty_inv pg_empty_view)
  from pg.sys_reachable_audit [OF assms(2) [unfolded pg_reachable_def] this]
  have ok: "pg_inv c (sys_store sys) \<and> wf_audit (sys_view (pg_view c) sys)" .
  then show "pg_inv c (sys_store sys)" by simp
  show "job_wf j \<and> accounted j (a_journal (pg_view c (sys_store sys)) i)"
    if "a_job (pg_view c (sys_store sys)) i = Some j"
    using ok that by (simp add: wf_audit_def sys_view_def astore_wf_def audit_def)
qed

lemma pg_step_keeps_jobs:
  assumes "ulid_codec_ok c" "pg_reachable rt c fleet sys" "sys_step rt (pg_ops c) fleet sys sys'"
  shows "jobs_kept (pg_view c (sys_store sys)) (pg_view c (sys_store sys'))"
  using pg.sys_step_keeps_jobs [OF assms(2) [unfolded pg_reachable_def] _ _ assms(3)] assms(1)
  by (simp add: pg_empty_inv pg_empty_view)

text \<open>A short run of the queue: the sample job enqueued, then claimed by a worker.\<close>

definition sample_enqueued :: "pg_state system" where
  "sample_enqueued =
     \<lparr>sys_store = sample_store, sys_used = {1}, sys_runs = {}, sys_stale = {}, sys_candidates = {}\<rparr>"

definition sample_system :: "pg_state system" where
  "sample_system =
     \<lparr>sys_store = snd sample_claim, sys_used = {1}, sys_runs = {(''host:1'', sample_job)},
      sys_stale = {}, sys_candidates = {}\<rparr>"

lemma sample_enqueued_reachable: "pg_reachable sample_runtime binary_codec {mail_worker} sample_enqueued"
proof -
  have enq: "so_enqueue (pg_ops binary_codec) (env_at 100) sample_new (sys_store (sys_init pg_empty)) =
      (fst (pg_enqueue binary_codec (env_at 100) sample_new pg_empty), sample_store)"
    by (simp add: pg_ops_sel sample_store_def sys_init_def)
  have "sys_step sample_runtime (pg_ops binary_codec) {mail_worker} (sys_init pg_empty) sample_enqueued"
    using step_enqueue [OF _ enq] by (simp add: sys_init_def sample_new_def sample_enqueued_def)
  then show ?thesis unfolding pg_reachable_def by (meson reach_init reach_step)
qed

lemma sample_reachable: "pg_reachable sample_runtime binary_codec {mail_worker} sample_system"
proof -
  have claim: "so_claim_next (pg_ops binary_codec) (env_at 200) [''mail''] 0
      (cfg_lease (w_config mail_worker)) (w_identity mail_worker) (sys_store sample_enqueued) =
      (Inr (Some sample_job), snd sample_claim)"
    using sample_claim_fst by (simp add: sample_claim_def pg_ops_def prod_eq_iff sample_enqueued_def)
  have "sys_step sample_runtime (pg_ops binary_codec) {mail_worker} sample_enqueued sample_system"
    using step_claim [OF _ claim, of "{mail_worker}"] by (simp add: add_run_def sample_system_def sample_enqueued_def)
  with sample_enqueued_reachable show ?thesis unfolding pg_reachable_def by (meson reach_step)
qed

end
