(* ===== verification/Schema.thy ===== *)
theory Schema
  imports Queue_System
begin

text \<open>
  The declared schema (\<^verbatim>\<open>migrations/V1__initial.sql\<close>) as a type of the stored tables: the checks, the primary
  keys and the foreign key of its two \<^verbatim>\<open>CREATE TABLE\<close> statements. The column types and \<^verbatim>\<open>NOT NULL\<close> are those
  of the row records. Every reachable table has this type, and reading a table of this type never
  fails to decode a row.
\<close>

definition jobs_check :: "job_row \<Rightarrow> bool" where
  "jobs_check r \<longleftrightarrow> r_priority r \<in> {0, 1, 2} \<and>
     r_status r \<in> {''pending'', ''claimed'', ''completed'', ''dead''}"

definition journal_check :: "journal_row \<Rightarrow> bool" where
  "journal_check x \<longleftrightarrow> jr_outcome x \<in> {''completed'', ''paused'', ''retried'', ''dead'', ''stale-recovered'', ''released'', ''merged''}"

definition schema_ok :: "pg_state \<Rightarrow> bool" where
  "schema_ok st \<longleftrightarrow>
     distinct (map r_id (jobs_tbl st)) \<and> (\<forall>r \<in> set (jobs_tbl st). jobs_check r) \<and>
     distinct (map jr_id (journal_tbl st)) \<and>
     (\<forall>x \<in> set (journal_tbl st). journal_check x \<and> jr_job_id x \<in> r_id ` set (jobs_tbl st))"

text \<open>The checks are exactly what the row decoder accepts of the checked columns.\<close>

lemma jobs_check_decodes: "jobs_check r \<longleftrightarrow> from_smallint (r_priority r) \<noteq> None \<and> status_from_db (r_status r) \<noteq> None"
  by (auto simp: jobs_check_def from_smallint_def status_from_db_def)

lemma journal_check_decodes: "journal_check x \<longleftrightarrow> outcome_from_db (jr_outcome x) \<noteq> None"
  by (auto simp: journal_check_def outcome_from_db_def)

lemma pg_inv_schema:
  assumes "pg_inv c st"
  shows "schema_ok st"
proof -
  obtain js es where "ulid_codec_ok c" "pg_rep c st js es" using pg_invE [OF assms] by metis
  then have rep: "ulid_codec_ok c" "jobs_tbl st = map (row_of_job c) js"
    "journal_tbl st = map (\<lambda>x. row_of_entry c (fst x) (fst (snd x)) (snd (snd x))) es"
    "job_list_ok js" "entry_list_ok (job_id ` set js) (journal_seq st) es"
    by (simp_all add: pg_rep_def)
  have "distinct (map r_id (jobs_tbl st))"
    using rep(1,4) by (simp add: rep(2) comp_def row_simps job_list_ok_def distinct_map inj_on_def)
  moreover have "\<forall>r \<in> set (jobs_tbl st). jobs_check r"
    using rep(4) by (auto simp: rep(2) jobs_check_decodes row_simps job_list_ok_def job_wf_def from_smallint_None)
  moreover have "distinct (map jr_id (journal_tbl st))"
  proof -
    have "map jr_id (journal_tbl st) = map fst es" by (simp add: rep(3) row_of_entry_def)
    moreover have "sorted_wrt (<) (map fst es)" using rep(5) by (simp add: entry_list_ok_def)
    ultimately show ?thesis by (simp add: strict_sorted_iff)
  qed
  moreover have "\<forall>x \<in> set (journal_tbl st). journal_check x \<and> jr_job_id x \<in> r_id ` set (jobs_tbl st)"
    using rep(5) by (fastforce simp: rep(2,3) journal_check_decodes row_of_entry_def entry_list_ok_def row_simps image_iff)
  ultimately show ?thesis by (simp add: schema_ok_def)
qed

lemma pg_reads_respond:
  assumes "pg_inv c st" "env_fault e = None"
  shows "\<exists>r. pg_job c e i st = Inr r" "\<exists>rs. pg_journal c e i st = Inr rs" "\<exists>js. pg_find_stale c e st = Inr js"
    "\<exists>r. pg_dedup_candidate c e kind key st = Inr r"
proof -
  have one: "\<exists>r. transpose_row c (Some row) = Inr r" if "row \<in> set (jobs_tbl st)" for row
  proof -
    have "collect_results (job_from_row c) [row] = Inr (map (\<lambda>r. projr (job_from_row c r)) [row])"
      using that by (intro pg_rows_decode [OF assms(1)]) simp
    then show ?thesis by (cases "job_from_row c row") (simp_all add: transpose_row_def)
  qed
  show "\<exists>r. pg_job c e i st = Inr r"
    using one by (cases "find (\<lambda>r. r_id r = to_string c i) (jobs_tbl st)")
      (auto simp: pg_job_def fetch_def assms(2) transpose_row_def dest: find_SomeD)
  show "\<exists>rs. pg_journal c e i st = Inr rs"
    by (auto simp: pg_journal_def fetch_def assms(2) intro!: exI pg_entries_decode [OF assms(1)])
  show "\<exists>js. pg_find_stale c e st = Inr js"
    by (auto simp: pg_find_stale_def fetch_def assms(2) dest!: in_set_takeD intro!: exI pg_rows_decode [OF assms(1)])
  show "\<exists>r. pg_dedup_candidate c e kind key st = Inr r"
  proof -
    let ?rows = "sort_key (\<lambda>r. (r_created_at r, env_plan e (r_id r)))
      (filter (\<lambda>r. r_kind r = kind \<and> r_dedup_key r = Some key \<and> r_status r = ''pending'') (jobs_tbl st))"
    have "set ?rows \<subseteq> set (jobs_tbl st)" by auto
    then show ?thesis using one
      by (cases ?rows) (auto simp: pg_dedup_candidate_def fetch_def assms(2) first_row_def transpose_row_def)
  qed
qed

text \<open>
  C16: the tables are always well typed: in every reachable state they satisfy the declared schema (unique keys, the
  checks on priority, status and outcome, and a job for every journal entry), each row decodes to a
  well-formed record, and so no read of a reachable queue ever fails on stored data: while the
  connection is up, jobs, journals, stale claims and deduplication candidates are answered.
\<close>

theorem tables_are_well_typed:
  assumes "ulid_codec_ok c" "pg_reachable rt c fleet sys"
  defines "st \<equiv> sys_store sys"
  shows "schema_ok st \<and>
    (\<forall>r \<in> set (jobs_tbl st). \<exists>j. job_from_row c r = Inr j \<and> job_wf j) \<and>
    (\<forall>x \<in> set (journal_tbl st). \<exists>y. journal_from_row c x = Inr y) \<and>
    (\<forall>e i kind key. env_fault e = None \<longrightarrow> (\<exists>r. pg_job c e i st = Inr r) \<and> (\<exists>rs. pg_journal c e i st = Inr rs) \<and>
      (\<exists>js. pg_find_stale c e st = Inr js) \<and> (\<exists>r. pg_dedup_candidate c e kind key st = Inr r))"
proof -
  have inv: "pg_inv c st" unfolding st_def by (rule pg_reachable_audit(1) [OF assms(1,2)])
  obtain js es where "pg_rep c st js es" using pg_invE [OF inv] by metis
  then have rep: "jobs_tbl st = map (row_of_job c) js" "job_list_ok js"
    "journal_tbl st = map (\<lambda>x. row_of_entry c (fst x) (fst (snd x)) (snd (snd x))) es"
    by (simp_all add: pg_rep_def)
  have "\<forall>r \<in> set (jobs_tbl st). \<exists>j. job_from_row c r = Inr j \<and> job_wf j"
    using rep(2) by (auto simp: rep(1) assms(1) job_list_ok_def)
  moreover have "\<forall>x \<in> set (journal_tbl st). \<exists>y. journal_from_row c x = Inr y" by (auto simp: rep(3) assms(1))
  ultimately show ?thesis using pg_inv_schema [OF inv] pg_reads_respond [OF inv] by blast
qed

theorem tables_are_well_typed_witness:
  "schema_ok (sys_store sample_system) \<and> (\<exists>r. pg_job binary_codec (env_at 300) 1 (sys_store sample_system) = Inr r)"
  using tables_are_well_typed [OF binary_codec_ok sample_reachable] by (metis env_at_sel(2))

end
