(* ===== verification/Worker_Loop.thy ===== *)
theory Worker_Loop
  imports Worker_Sample
begin

text \<open>
  The worker's run loop (\<^verbatim>\<open>Worker::run\<close>, \<^verbatim>\<open>reap\<close>, \<^verbatim>\<open>drain\<close> and \<^verbatim>\<open>force_finish\<close> of
  \<^verbatim>\<open>src/worker/mod.rs\<close>): the set of running handlers, what the worker remembers of each, the
  per-kind counts and the claim counter, as a step relation whose steps are the iterations of the
  loops and the arms of the \<^verbatim>\<open>select!\<close>s. Hash maps keyed by task id are association lists; the
  order in which handlers finish, notifications, timers and the shutdown signal are the
  environment's choice, as is what other clients do to the store between two calls.
\<close>

section \<open>State\<close>

datatype phase = Recovering | Filling | Waiting | Draining | Finishing | Stopped

text \<open>A spawned task yields its result for the cancellation it observes and the time it takes.\<close>

type_synonym task = "bool \<Rightarrow> duration \<Rightarrow> finished_run"

record loop_state =
  running :: "(nat \<times> task) list"
  inflight :: "(nat \<times> inflight_job) list"
  by_kind :: "string \<rightharpoonup> nat"
  claim_counter :: u64
  next_task :: nat
  phase :: phase

definition loop_init :: loop_state where
  "loop_init = \<lparr>running = [], inflight = [], by_kind = Map.empty, claim_counter = 0, next_task = 0,
                phase = Recovering\<rparr>"

section \<open>Operations\<close>

text \<open>One iteration of the filling loop, past its guards: claim, apply the lease, load the history, spawn.\<close>

definition fill_slot ::
  "('S, 's) worker \<Rightarrow> 's calls \<Rightarrow> string list \<Rightarrow> loop_state \<Rightarrow> 's \<Rightarrow> loop_state \<times> 's" where
  "fill_slot w cs ks st s =
     (let counter = claim_counter st + 1;
          pfloor = floor_for counter (cfg_priority_ratio (w_config w));
          st1 = st\<lparr>claim_counter := counter\<rparr>;
          (r, s1) = claim_with_fallback w cs ks pfloor s
      in case r of
           Inr (Some j) \<Rightarrow>
             let s2 = apply_task_lease w (call_at cs 2) j (before_call cs 2 s1);
                 s3 = before_call cs 3 s2;
                 hist = history_for w (call_at cs 3) (job_id j) s3;
                 n = (case by_kind st (job_kind j) of Some n \<Rightarrow> n | None \<Rightarrow> 0);
                 tracked_job = \<lparr>inf_id = job_id j, inf_kind = job_kind j, inf_run_no = job_run_count j\<rparr>;
                 task_id = next_task st
             in (st1\<lparr>by_kind := (by_kind st)(job_kind j \<mapsto> n + 1),
                     running := AList.update task_id (spawn w j hist) (running st),
                     inflight := AList.update task_id tracked_job (inflight st),
                     next_task := task_id + 1\<rparr>, s3)
         | Inr None \<Rightarrow> (st1\<lparr>phase := Waiting\<rparr>, s1)
         | Inl _ \<Rightarrow> (st1\<lparr>phase := Waiting\<rparr>, s1))"

text \<open>
  What \<^verbatim>\<open>join_next_with_id\<close> yields: the result of a finished task, or the id of one that was
  aborted or torn down with the runtime.
\<close>

datatype joined = Finished nat finished_run | Join_error nat

definition forget :: "nat \<Rightarrow> loop_state \<Rightarrow> loop_state" where
  "forget task_id st =
     (case map_of (inflight st) task_id of
        Some job \<Rightarrow> st\<lparr>inflight := AList.delete task_id (inflight st),
                       by_kind := release_slot (by_kind st) (inf_kind job)\<rparr>
      | None \<Rightarrow> st)"

fun reap ::
  "runtime \<Rightarrow> ('S, 's) worker \<Rightarrow> call_env \<Rightarrow> datetime \<Rightarrow> joined \<Rightarrow> loop_state \<Rightarrow> 's \<Rightarrow> loop_state \<times> 's" where
  "reap rt w e now (Finished task_id fin) st s =
     (forget task_id st, snd (settle rt w e now fin s))"
| "reap rt w e now (Join_error task_id) st s = (forget task_id st, s)"

text \<open>The task leaves the join set as it is joined.\<close>

definition unjoin :: "nat \<Rightarrow> loop_state \<Rightarrow> loop_state" where
  "unjoin task_id st = st\<lparr>running := AList.delete task_id (running st)\<rparr>"

fun joined_id :: "joined \<Rightarrow> nat" where
  "joined_id (Finished task_id _) = task_id"
| "joined_id (Join_error task_id) = task_id"

text \<open>The joining arm of \<^verbatim>\<open>drain\<close>'s \<^verbatim>\<open>select!\<close>: the task leaves the set and is reaped.\<close>

definition drain_join ::
  "runtime \<Rightarrow> ('S, 's) worker \<Rightarrow> call_env \<Rightarrow> datetime \<Rightarrow> joined \<Rightarrow> loop_state \<Rightarrow> 's \<Rightarrow> loop_state \<times> 's" where
  [simp]: "drain_join rt w e now jn st s = reap rt w e now jn (unjoin (joined_id jn) st) s"

text \<open>A result of the join set: one of its tasks, run to its end or torn down.\<close>

definition joinable :: "loop_state \<Rightarrow> joined \<Rightarrow> bool" where
  "joinable st jn =
     (case jn of
        Finished task_id fin \<Rightarrow> (\<exists>t cancel elapsed. map_of (running st) task_id = Some t \<and> fin = t cancel elapsed)
      | Join_error task_id \<Rightarrow> map_of (running st) task_id \<noteq> None)"

text \<open>One round of the joining loop of \<^verbatim>\<open>force_finish\<close>: a finished task is settled, an aborted one kept for release.\<close>

fun finish_join ::
  "runtime \<Rightarrow> ('S, 's) worker \<Rightarrow> call_env \<Rightarrow> datetime \<Rightarrow> joined \<Rightarrow> loop_state \<Rightarrow> 's \<Rightarrow> loop_state \<times> 's" where
  "finish_join rt w e now (Finished task_id fin) st s =
     (st\<lparr>inflight := AList.delete task_id (inflight st)\<rparr>, snd (settle rt w e now fin s))"
| "finish_join rt w e now (Join_error task_id) st s = (st, s)"

section \<open>The step relation\<close>

text \<open>\<open>env\<close> says what other clients and the connection may do around a call.\<close>

inductive loop_step ::
  "runtime \<Rightarrow> ('S, 's) worker \<Rightarrow> ('s calls \<Rightarrow> bool) \<Rightarrow> loop_state \<times> 's \<Rightarrow> loop_state \<times> 's \<Rightarrow> bool"
  for rt w env where
  loop_recover:
    "phase st = Recovering \<Longrightarrow> env cs \<Longrightarrow>
      loop_step rt w env (st, s) (st\<lparr>phase := Filling\<rparr>, recover_stale rt w cs now s)"
| loop_full:
    "phase st = Filling \<Longrightarrow> \<not> length (running st) < cfg_concurrency (w_config w) \<Longrightarrow>
      loop_step rt w env (st, s) (st\<lparr>phase := Waiting\<rparr>, s)"
| loop_fill_shutdown:
    "phase st = Filling \<Longrightarrow> length (running st) < cfg_concurrency (w_config w) \<Longrightarrow>
      loop_step rt w env (st, s) (st\<lparr>phase := Draining\<rparr>, s)"
| loop_all_capped:
    "phase st = Filling \<Longrightarrow> length (running st) < cfg_concurrency (w_config w) \<Longrightarrow>
      claimable_kinds w (kinds (w_registry w)) (by_kind st) = [] \<Longrightarrow>
      loop_step rt w env (st, s) (st\<lparr>phase := Waiting\<rparr>, s)"
| loop_fill:
    "phase st = Filling \<Longrightarrow> env cs \<Longrightarrow> length (running st) < cfg_concurrency (w_config w) \<Longrightarrow>
      claimable_kinds w (kinds (w_registry w)) (by_kind st) = ks \<Longrightarrow> ks \<noteq> [] \<Longrightarrow>
      loop_step rt w env (st, s) (fill_slot w cs ks st s)"
| loop_wake:
    "phase st = Waiting \<Longrightarrow> loop_step rt w env (st, s) (st\<lparr>phase := Recovering\<rparr>, s)"
| loop_wait_shutdown:
    "phase st = Waiting \<Longrightarrow> loop_step rt w env (st, s) (st\<lparr>phase := Draining\<rparr>, s)"
| loop_join:
    "phase st = Waiting \<Longrightarrow> env cs \<Longrightarrow> joinable st jn \<Longrightarrow>
      reap rt w (call_at cs 0) now jn (unjoin (joined_id jn) st) (before_call cs 0 s) = (st', s') \<Longrightarrow>
      loop_step rt w env (st, s) (st'\<lparr>phase := Recovering\<rparr>, s')"
| loop_drain_join:
    "phase st = Draining \<Longrightarrow> env cs \<Longrightarrow> joinable st jn \<Longrightarrow>
      drain_join rt w (call_at cs 0) now jn st (before_call cs 0 s) = (st', s') \<Longrightarrow>
      loop_step rt w env (st, s) (st', s')"
| loop_drain_end:
    "phase st = Draining \<Longrightarrow> loop_step rt w env (st, s) (st\<lparr>phase := Finishing\<rparr>, s)"
| loop_finish_join:
    "phase st = Finishing \<Longrightarrow> env cs \<Longrightarrow> joinable st jn \<Longrightarrow>
      finish_join rt w (call_at cs 0) now jn (unjoin (joined_id jn) st) (before_call cs 0 s) = (st', s') \<Longrightarrow>
      loop_step rt w env (st, s) (st', s')"
| loop_finish_release:
    "phase st = Finishing \<Longrightarrow> env cs \<Longrightarrow> running st = [] \<Longrightarrow> inflight st = (task_id, job) # rest \<Longrightarrow>
      loop_step rt w env (st, s)
        (st\<lparr>inflight := rest\<rparr>, release w (call_at cs 0) now job (before_call cs 0 s))"
| loop_stop:
    "phase st = Finishing \<Longrightarrow> running st = [] \<Longrightarrow> inflight st = [] \<Longrightarrow>
      loop_step rt w env (st, s) (st\<lparr>phase := Stopped\<rparr>, s)"

inductive loop_reachable ::
  "runtime \<Rightarrow> ('S, 's) worker \<Rightarrow> ('s calls \<Rightarrow> bool) \<Rightarrow> 's \<Rightarrow> loop_state \<times> 's \<Rightarrow> bool" for rt w env s0 where
  loop_start: "kinds (w_registry w) \<noteq> [] \<Longrightarrow> loop_reachable rt w env s0 (loop_init, s0)"
| loop_next: "loop_reachable rt w env s0 c \<Longrightarrow> loop_step rt w env c c' \<Longrightarrow> loop_reachable rt w env s0 c'"

text \<open>A more permissive environment allows more steps.\<close>

lemma loop_step_weaken:
  assumes "loop_step rt w env q q'" "\<And>cs. env cs \<Longrightarrow> env' cs"
  shows "loop_step rt w env' q q'"
  using assms(1) by (induction rule: loop_step.induct) (auto intro: loop_step.intros assms(2))

section \<open>Bookkeeping invariant\<close>

definition kind_count :: "string \<Rightarrow> (nat \<times> inflight_job) list \<Rightarrow> nat" where
  "kind_count k xs = length (filter (\<lambda>x. inf_kind (snd x) = k) xs)"

definition counts_ok :: "(string \<rightharpoonup> nat) \<Rightarrow> (nat \<times> inflight_job) list \<Rightarrow> bool" where
  "counts_ok bk xs \<longleftrightarrow>
     (\<forall>k. bk k = (if kind_count k xs = 0 then None else Some (kind_count k xs)))"

definition ids_ok :: "loop_state \<Rightarrow> bool" where
  "ids_ok st \<longleftrightarrow>
     distinct (map fst (running st)) \<and> distinct (map fst (inflight st)) \<and>
     (\<forall>i \<in> fst ` set (running st) \<union> fst ` set (inflight st). i < next_task st) \<and>
     fst ` set (running st) \<subseteq> fst ` set (inflight st) \<and>
     (phase st \<in> {Recovering, Filling, Waiting, Draining} \<longrightarrow>
        fst ` set (inflight st) = fst ` set (running st) \<and> counts_ok (by_kind st) (inflight st))"

definition within_limits :: "('S, 's) worker \<Rightarrow> loop_state \<Rightarrow> bool" where
  "within_limits w st \<longleftrightarrow>
     length (running st) \<le> cfg_concurrency (w_config w) \<and>
     (\<forall>k n. cap_of (w_registry w) k = Some n \<longrightarrow> kind_count k (inflight st) \<le> n)"

lemma kind_count_delete:
  assumes "distinct (map fst xs)" "map_of xs i = Some job"
  shows "kind_count k xs = kind_count k (AList.delete i xs) + (if inf_kind job = k then 1 else 0)"
  using assms
proof (induction xs)
  case (Cons x xs)
  show ?case
  proof (cases "fst x = i")
    case True
    then have "AList.delete i xs = xs" using Cons.prems(1) by (intro delete_id) auto
    with True Cons.prems show ?thesis by (cases x) (auto simp: kind_count_def)
  next
    case False
    with Cons show ?thesis by (cases x) (auto simp: kind_count_def)
  qed
qed simp

lemma kind_count_delete_le: "kind_count k (AList.delete i xs) \<le> kind_count k xs"
  by (induction xs) (auto simp: kind_count_def)

lemma delete_dom: "fst ` set (AList.delete i xs) = fst ` set xs - {i}"
  by (metis delete_keys list.set_map set_removeAll)

lemma update_fresh: "i \<notin> fst ` set xs \<Longrightarrow> AList.update i v xs = xs @ [(i, v)]"
  by (induction xs) (auto split: prod.splits)

lemma counts_ok_release:
  assumes "counts_ok bk xs" "distinct (map fst xs)" "map_of xs i = Some job"
  shows "counts_ok (release_slot bk (inf_kind job)) (AList.delete i xs)"
proof -
  let ?ys = "AList.delete i xs"
  have count: "kind_count k xs = kind_count k ?ys + (if inf_kind job = k then 1 else 0)" for k
    using assms(2,3) by (rule kind_count_delete)
  have bk: "bk k = (if kind_count k xs = 0 then None else Some (kind_count k xs))" for k
    using assms(1) by (simp add: counts_ok_def)
  show ?thesis unfolding counts_ok_def by (auto simp: release_slot_def bk count Let_def)
qed

lemma counts_ok_insert:
  assumes "counts_ok bk xs"
  shows "counts_ok (bk(inf_kind job \<mapsto> (case bk (inf_kind job) of Some n \<Rightarrow> n | None \<Rightarrow> 0) + 1)) (xs @ [(i, job)])"
proof -
  have bk: "bk k = (if kind_count k xs = 0 then None else Some (kind_count k xs))" for k
    using assms by (simp add: counts_ok_def)
  show ?thesis unfolding counts_ok_def by (auto simp: bk kind_count_def)
qed

lemma forget_sel [simp]:
  "running (forget i st) = running st" "phase (forget i st) = phase st" "next_task (forget i st) = next_task st"
  "claim_counter (forget i st) = claim_counter st"
  by (simp_all add: forget_def split: option.split)

lemma inflight_forget: "inflight (forget i st) = AList.delete i (inflight st)"
proof (cases "map_of (inflight st) i")
  case None
  then have "AList.delete i (inflight st) = inflight st" by (intro delete_id) (simp add: map_of_eq_None_iff)
  with None show ?thesis by (simp add: forget_def)
qed (simp add: forget_def)

lemma unjoin_phase [simp]: "phase (unjoin i st) = phase st"
  by (simp add: unjoin_def)

lemma reap_fst: "fst (reap rt w e now jn st s) = forget (joined_id jn) st"
  by (cases jn) simp_all

lemma joinable_running: "joinable st jn \<Longrightarrow> joined_id jn \<in> fst ` set (running st)"
  by (cases jn) (auto simp: joinable_def dest: map_of_SomeD intro: rev_image_eqI)

text \<open>Joining a task drops it from both tables and gives its slot back.\<close>

lemma join_ids_ok:
  assumes "ids_ok st" "phase st \<in> {Waiting, Draining}" "i \<in> fst ` set (running st)"
  shows "ids_ok (forget i (unjoin i st))"
proof -
  have dom: "fst ` set (inflight st) = fst ` set (running st)" "counts_ok (by_kind st) (inflight st)"
    "distinct (map fst (inflight st))" "distinct (map fst (running st))"
    using assms(1,2) by (auto simp: ids_ok_def)
  obtain job where job: "map_of (inflight st) i = Some job"
    using assms(3) dom(1) by (metis map_of_eq_None_iff not_None_eq)
  have "counts_ok (by_kind (forget i (unjoin i st))) (AList.delete i (inflight st))"
    using counts_ok_release [OF dom(2,3) job] by (simp add: forget_def unjoin_def job)
  then show ?thesis
    using assms(1) dom by (auto simp: ids_ok_def inflight_forget unjoin_def delete_dom distinct_delete)
qed

lemma join_within_limits:
  assumes "within_limits w st"
  shows "within_limits w (forget i (unjoin i st))"
proof -
  have "length (AList.delete i (running st)) \<le> cfg_concurrency (w_config w)"
    using assms length_delete_le [of i "running st"] by (simp add: within_limits_def)
  moreover have "kind_count k (AList.delete i (inflight st)) \<le> n" if "cap_of (w_registry w) k = Some n" for k n
    using assms that kind_count_delete_le [of k i "inflight st"] by (fastforce simp: within_limits_def)
  ultimately show ?thesis by (simp add: within_limits_def inflight_forget unjoin_def)
qed

text \<open>Spawning a claimed job of a kind below its cap into a free slot.\<close>

lemma spawn_ok:
  fixes c :: u64 and t :: task
  assumes "ids_ok st" "within_limits w st" "phase st = Filling"
    and "length (running st) < cfg_concurrency (w_config w)"
    and "inf_kind job \<in> set (claimable_kinds w ks (by_kind st))"
  defines "st' \<equiv> st\<lparr>claim_counter := c,
    by_kind := (by_kind st)(inf_kind job \<mapsto> (case by_kind st (inf_kind job) of Some n \<Rightarrow> n | None \<Rightarrow> 0) + 1),
    running := AList.update (next_task st) t (running st),
    inflight := AList.update (next_task st) job (inflight st), next_task := next_task st + 1\<rparr>"
  shows "ids_ok st' \<and> within_limits w st'"
proof -
  have fresh: "next_task st \<notin> fst ` set (running st)" "next_task st \<notin> fst ` set (inflight st)"
    using assms(1) unfolding ids_ok_def by (metis UnCI less_irrefl)+
  have ok: "counts_ok (by_kind st) (inflight st)" using assms(1,3) by (simp add: ids_ok_def)
  have "ids_ok st'"
    using assms(1,3) fresh counts_ok_insert [OF ok, of job "next_task st"]
    by (auto simp: ids_ok_def st'_def update_fresh less_SucI)
  moreover have "kind_count k (inflight st @ [(next_task st, job)]) \<le> n" if "cap_of (w_registry w) k = Some n" for k n
  proof (cases "inf_kind job = k")
    case True
    then have "kind_count k (inflight st) < n"
      using assms(5) that ok by (auto simp: claimable_kinds_def counts_ok_def split: if_splits)
    then show ?thesis by (simp add: kind_count_def True)
  next
    case False
    then show ?thesis using assms(2) that by (simp add: kind_count_def within_limits_def)
  qed
  ultimately show ?thesis using assms(4) fresh by (simp add: within_limits_def st'_def update_fresh)
qed

section \<open>The invariant holds\<close>

definition loop_ok :: "('S, 's) worker \<Rightarrow> loop_state \<Rightarrow> bool" where
  "loop_ok w st \<longleftrightarrow> ids_ok st \<and> within_limits w st"

text \<open>Other clients keep the store lawful between this worker's calls.\<close>

definition lawful_calls :: "('s \<Rightarrow> bool) \<Rightarrow> 's calls \<Rightarrow> bool" where
  "lawful_calls ok cs \<longleftrightarrow> (\<forall>n s. ok s \<longrightarrow> ok (before_call cs n s))"

lemma join_ok:
  assumes "loop_ok w st" "phase st \<in> {Waiting, Draining}" "joinable st jn"
  shows "loop_ok w (fst (reap rt w e now jn (unjoin (joined_id jn) st) s))"
  using assms join_ids_ok [OF _ assms(2) joinable_running [OF assms(3)]] join_within_limits
  unfolding loop_ok_def reap_fst by blast

lemma finish_join_ok:
  assumes "loop_ok w st" "phase st = Finishing" "joinable st jn"
  shows "loop_ok w (fst (finish_join rt w e now jn (unjoin (joined_id jn) st) s))"
proof -
  have "within_limits w (forget (joined_id jn) (unjoin (joined_id jn) st))"
    using assms(1) by (intro join_within_limits) (simp add: loop_ok_def)
  then show ?thesis
    using assms(1,2) length_delete_le [of "joined_id jn" "running st"]
    by (cases jn) (auto simp: loop_ok_def ids_ok_def within_limits_def inflight_forget unjoin_def delete_dom
        distinct_delete)
qed

lemma release_ok:
  assumes "loop_ok w st" "phase st = Finishing" "running st = []" "inflight st = x # rest"
  shows "loop_ok w (st\<lparr>inflight := rest\<rparr>)"
proof -
  have "kind_count k rest \<le> n" if "cap_of (w_registry w) k = Some n" for k n
  proof -
    have "kind_count k (x # rest) \<le> n" using assms(1,4) that by (simp add: loop_ok_def within_limits_def)
    then show ?thesis by (simp add: kind_count_def split: if_splits)
  qed
  then show ?thesis using assms by (auto simp: loop_ok_def ids_ok_def within_limits_def)
qed

lemma phase_ok: "loop_ok w st \<Longrightarrow> phase st \<in> {Recovering, Filling, Waiting, Draining} \<Longrightarrow> loop_ok w (st\<lparr>phase := p\<rparr>)"
  by (auto simp: loop_ok_def ids_ok_def within_limits_def)

context store_contract
begin

lemma claim_call_kind:
  assumes "invar s" "so_claim_next ops e ks fl ls by s = (r, s')"
  shows "invar s' \<and> (\<forall>j. r = Inr (Some j) \<longrightarrow> job_kind j \<in> set ks)"
proof (intro conjI allI impI)
  show "invar s'" using claim_inv [OF assms(1), of e ks fl ls "by"] by (simp add: assms(2))
  fix j
  assume "r = Inr (Some j)"
  with claim_ok [OF assms(1)] assms(2)
  have "spec_claim (busy e) (env_now e) ks fl ls by (view s) (Some j) (view s')" by blast
  then show "job_kind j \<in> set ks" by (auto simp: spec_claim_def claimable_def)
qed

lemma claim_with_fallback_ok:
  assumes "w_store w = ops" "invar s" "lawful_calls invar cs"
    and "claim_with_fallback w cs ks fl s = (r, s')"
  shows "invar s' \<and> (\<forall>j. r = Inr (Some j) \<longrightarrow> job_kind j \<in> set ks)"
proof -
  obtain q t where first: "so_claim_next ops (call_at cs 0) ks fl (cfg_lease (w_config w)) (w_identity w)
      (before_call cs 0 s) = (q, t)" by fastforce
  have s0: "invar (before_call cs 0 s)" using assms(2,3) by (simp add: lawful_calls_def)
  note t = claim_call_kind [OF s0 first]
  then have s1: "invar (before_call cs 1 t)" using assms(3) by (simp add: lawful_calls_def)
  show ?thesis
  proof (cases "\<exists>x. q = Inl x")
    case True
    with assms(1,4) first t show ?thesis by (auto simp: claim_with_fallback_def Let_def)
  next
    case False
    then obtain claimed where q: "q = Inr claimed" by (cases q) auto
    show ?thesis
    proof (cases "claimed \<noteq> None \<or> fl = FLOOR_ALL")
      case True
      with assms(1,4) first t q show ?thesis by (auto simp: claim_with_fallback_def Let_def)
    next
      case False
      with assms(1,4) first q have "so_claim_next ops (call_at cs 1) ks FLOOR_ALL (cfg_lease (w_config w)) (w_identity w)
          (before_call cs 1 t) = (r, s')" by (simp add: claim_with_fallback_def Let_def)
      from claim_call_kind [OF s1 this] show ?thesis .
    qed
  qed
qed

lemma fill_slot_ok:
  assumes "loop_ok w st" "w_store w = ops" "invar s" "lawful_calls invar cs" "phase st = Filling"
    and "length (running st) < cfg_concurrency (w_config w)"
    and "claimable_kinds w ks0 (by_kind st) = ks"
  shows "loop_ok w (fst (fill_slot w cs ks st s))"
proof -
  let ?fl = "floor_for (claim_counter st + 1) (cfg_priority_ratio (w_config w))"
  obtain r s1 where claim: "claim_with_fallback w cs ks ?fl s = (r, s1)" by fastforce
  note kind = claim_with_fallback_ok [OF assms(2-4) claim]
  show ?thesis
  proof (cases "\<exists>j. r = Inr (Some j)")
    case True
    then obtain j where r: "r = Inr (Some j)" by blast
    define job where "job = \<lparr>inf_id = job_id j, inf_kind = job_kind j, inf_run_no = job_run_count j\<rparr>"
    have "inf_kind job \<in> set (claimable_kinds w ks0 (by_kind st))" using kind r assms(7) by (simp add: job_def)
    then show ?thesis
      using spawn_ok [of st w job ks0] assms(1,5,6)
      by (simp add: fill_slot_def claim r Let_def loop_ok_def job_def)
  next
    case False
    have "loop_ok w (st\<lparr>claim_counter := claim_counter st + 1, phase := Waiting\<rparr>)"
      using assms(1,5) by (auto simp: loop_ok_def ids_ok_def within_limits_def)
    with False show ?thesis by (auto simp: fill_slot_def claim Let_def split: sum.split option.split)
  qed
qed

lemma settle_call_inv:
  assumes "w_store w = ops" "invar s"
  shows "invar (snd (settle rt w e now fin s))"
  using settle_inv [OF assms(2)] assms(1) by (simp add: settle_def Let_def split: prod.split) (metis snd_conv)

lemma release_inv: "w_store w = ops \<Longrightarrow> invar s \<Longrightarrow> invar (release w e now job s)"
  by (simp add: release_def Let_def settle_inv)

lemma recover_stale_inv:
  assumes "w_store w = ops" "lawful_calls invar cs" "invar s"
  shows "invar (recover_stale rt w cs now s)"
proof -
  have "invar (recover_all rt w cs now n js t)" if "invar t" for n js t
    using that
  proof (induction js arbitrary: n t)
    case (Cons j js)
    then have "invar (before_call cs n t)" using assms(2) by (simp add: lawful_calls_def)
    then show ?case using Cons assms(1) by (simp add: recover_one_def Let_def recover_inv)
  qed simp
  then show ?thesis using assms by (simp add: recover_stale_def Let_def lawful_calls_def split: sum.split)
qed

lemma apply_task_lease_inv: "w_store w = ops \<Longrightarrow> invar s \<Longrightarrow> invar (apply_task_lease w e j s)"
  by (simp add: apply_task_lease_def Let_def extend_inv split: option.split)

lemma fill_slot_inv:
  assumes "w_store w = ops" "invar s" "lawful_calls invar cs"
  shows "invar (snd (fill_slot w cs ks st s))"
proof -
  let ?fl = "floor_for (claim_counter st + 1) (cfg_priority_ratio (w_config w))"
  obtain r s1 where claim: "claim_with_fallback w cs ks ?fl s = (r, s1)" by fastforce
  have "invar s1" using claim_with_fallback_ok [OF assms claim] by simp
  then show ?thesis
    using assms(1,3) by (auto simp: fill_slot_def claim Let_def lawful_calls_def apply_task_lease_inv
        split: sum.split option.split)
qed

lemma reap_inv:
  assumes "w_store w = ops" "lawful_calls invar cs" "invar s"
  shows "invar (snd (reap rt w e now jn st (before_call cs n s)))"
    and "invar (snd (finish_join rt w e now jn st (before_call cs n s)))"
proof -
  have "invar (before_call cs n s)" using assms(2,3) by (simp add: lawful_calls_def)
  then show "invar (snd (reap rt w e now jn st (before_call cs n s)))"
    "invar (snd (finish_join rt w e now jn st (before_call cs n s)))"
    using settle_call_inv [OF assms(1)] by (cases jn; simp)+
qed

text \<open>Every step keeps the bookkeeping and leaves the store lawful.\<close>

lemma loop_step_ok:
  assumes "loop_step rt w (lawful_calls invar) (st, s) (st', s')" "w_store w = ops"
    and "loop_ok w st" "invar s"
  shows "loop_ok w st' \<and> invar s'"
  using assms
proof (induction "(st, s)" "(st', s')" rule: loop_step.induct)
  case (loop_fill cs ks)
  then show ?case
    using fill_slot_ok [of w st s cs "kinds (w_registry w)" ks] fill_slot_inv [of w s cs ks st] by simp
next
  case (loop_join cs jn now st1)
  from join_ok [OF loop_join(7) _ loop_join(3)] loop_join(1,4) have "loop_ok w st1" by (metis fst_conv insertI1)
  moreover have "phase st1 = Waiting" using loop_join(1,4) reap_fst by (metis fst_conv forget_sel(2) unjoin_phase)
  ultimately have "loop_ok w st'" using phase_ok loop_join(5) by fastforce
  then show ?case using reap_inv(1) [OF loop_join(6,2,8)] loop_join(4) by (metis snd_conv)
next
  case (loop_drain_join cs jn now)
  from join_ok [OF loop_drain_join(6) _ loop_drain_join(3)] loop_drain_join(1,4) have "loop_ok w st'"
    unfolding drain_join_def by (metis fst_conv insertI1 insertI2)
  then show ?case using reap_inv(1) [OF loop_drain_join(5,2,7)] loop_drain_join(4) unfolding drain_join_def by (metis snd_conv)
next
  case (loop_finish_join cs jn now)
  then show ?case
    using finish_join_ok [OF loop_finish_join(6,1,3)] reap_inv(2) [OF loop_finish_join(5,2,7)] by (metis fst_conv snd_conv)
next
  case (loop_finish_release cs task_id job rest now)
  then show ?case using release_ok [of w st "(task_id, job)" rest] by (auto simp: lawful_calls_def release_inv)
next
  case loop_stop
  then show ?case by (auto simp: loop_ok_def ids_ok_def within_limits_def)
qed (auto intro: phase_ok recover_stale_inv)

end

section \<open>Concurrency limits\<close>

lemma loop_reachable_ok:
  assumes "loop_reachable rt w (lawful_calls (pg_inv c)) s0 (st, s)" "w_store w = pg_ops c" "pg_inv c s0"
  shows "loop_ok w st \<and> pg_inv c s"
  using assms
proof (induction "(st, s)" arbitrary: st s rule: loop_reachable.induct)
  case loop_start
  then show ?case
    by (auto simp: loop_init_def loop_ok_def ids_ok_def within_limits_def counts_ok_def kind_count_def)
next
  case (loop_next q)
  obtain st0 t where q: "q = (st0, t)" by fastforce
  have "loop_ok w st0 \<and> pg_inv c t" using loop_next q by simp
  then show ?case using pg.loop_step_ok [of rt w c st0 t st s] loop_next q by simp
qed

text \<open>
  C9: at every moment of every execution of the loop, the worker runs at most as many handlers as its
  concurrency allows and of each capped kind at most its cap, and up to the final teardown its
  per-kind counters are exactly the numbers of jobs in flight: a slot is neither leaked nor given
  back twice, however handlers finish, fail, or are torn down and whatever the store answers.
\<close>

theorem worker_respects_concurrency_limits:
  assumes "loop_reachable rt w (lawful_calls (pg_inv c)) s0 (st, s)" "w_store w = pg_ops c" "pg_inv c s0"
  shows "length (running st) \<le> cfg_concurrency (w_config w) \<and>
    (\<forall>k n. cap_of (w_registry w) k = Some n \<longrightarrow> kind_count k (inflight st) \<le> n) \<and>
    (phase st \<in> {Recovering, Filling, Waiting, Draining} \<longrightarrow>
      fst ` set (running st) = fst ` set (inflight st) \<and>
      (\<forall>k. (case by_kind st k of Some n \<Rightarrow> n | None \<Rightarrow> 0) = kind_count k (inflight st)))"
  using loop_reachable_ok [OF assms] by (auto simp: loop_ok_def within_limits_def ids_ok_def counts_ok_def)

lemma mail_worker_fill:
  assumes "phase st = Filling" "running st = []" "inflight st = []" "by_kind st = Map.empty" "claim_counter st = 0"
  shows "map fst (running (fst (fill_slot mail_worker (quiet_calls 200) [''mail''] st sample_store))) = [next_task st]"
    and "inflight (fst (fill_slot mail_worker (quiet_calls 200) [''mail''] st sample_store)) =
      [(next_task st, \<lparr>inf_id = job_id sample_job, inf_kind = job_kind sample_job, inf_run_no = job_run_count sample_job\<rparr>)]"
    and "phase (fst (fill_slot mail_worker (quiet_calls 200) [''mail''] st sample_store)) = Filling"
proof -
  have fl: "floor_for (0 + 1) (Some 4) = 0" by code_simp
  have "claim_with_fallback mail_worker (quiet_calls 200) [''mail''] 0 sample_store = (Inr (Some sample_job), snd sample_claim)"
    using sample_claim_fst
    by (auto simp: claim_with_fallback_def pg_ops_def sample_claim_def Let_def worker_consts split: prod.split)
  then show "map fst (running (fst (fill_slot mail_worker (quiet_calls 200) [''mail''] st sample_store))) = [next_task st]"
    "inflight (fst (fill_slot mail_worker (quiet_calls 200) [''mail''] st sample_store)) =
      [(next_task st, \<lparr>inf_id = job_id sample_job, inf_kind = job_kind sample_job, inf_run_no = job_run_count sample_job\<rparr>)]"
    "phase (fst (fill_slot mail_worker (quiet_calls 200) [''mail''] st sample_store)) = Filling"
    using assms fl by (simp_all add: fill_slot_def Let_def)
qed

lemma sample_no_stale: "pg_find_stale binary_codec (env_at t) sample_store = Inr []"
  by (simp add: pg_find_stale_def fetch_def sample_tbl expired_row_def row_of_job_sel fresh_job_def)

text \<open>The loop after its first claim on the sample store.\<close>

definition sample_filled :: "loop_state \<times> pg_state" where
  "sample_filled = fill_slot mail_worker (quiet_calls 200) [''mail''] (loop_init\<lparr>phase := Filling\<rparr>) sample_store"

lemma sample_filled_sel:
  "map fst (running (fst sample_filled)) = [0]" "phase (fst sample_filled) = Filling"
  "inflight (fst sample_filled) =
    [(0, \<lparr>inf_id = job_id sample_job, inf_kind = job_kind sample_job, inf_run_no = job_run_count sample_job\<rparr>)]"
  using mail_worker_fill [of "loop_init\<lparr>phase := Filling\<rparr>"] by (simp_all add: sample_filled_def loop_init_def)

lemma sample_filled_reachable:
  assumes "\<And>t. env (quiet_calls t)"
  shows "loop_reachable sample_runtime mail_worker env sample_store sample_filled"
proof -
  let ?reach = "loop_reachable sample_runtime mail_worker env sample_store"
  let ?st = "loop_init\<lparr>phase := Filling\<rparr>"
  have "recover_stale sample_runtime mail_worker (quiet_calls 200) 200 sample_store = sample_store"
    by (simp add: recover_stale_def Let_def pg_ops_sel sample_no_stale)
  then have "loop_step sample_runtime mail_worker env (loop_init, sample_store) (?st, sample_store)"
    using loop_recover [of loop_init env "quiet_calls 200" sample_runtime mail_worker sample_store 200] assms
    by (simp add: loop_init_def)
  moreover have "?reach (loop_init, sample_store)" by (rule loop_start) simp
  ultimately have one: "?reach (?st, sample_store)" by (meson loop_next)
  have "claimable_kinds mail_worker (kinds (w_registry mail_worker)) (by_kind ?st) = [''mail'']"
    by (simp add: claimable_kinds_def loop_init_def mail_worker_def cap_of_def build_def set_lease_def
        register_capped_def builder_def registry_new_def registry_lookup kinds_def register_def text_task_def)
  then have "loop_step sample_runtime mail_worker env (?st, sample_store) sample_filled"
    unfolding sample_filled_def by (intro loop_fill) (simp_all add: loop_init_def assms)
  with one show ?thesis by (meson loop_next)
qed

lemma quiet_lawful: "lawful_calls ok (quiet_calls t)"
  by (simp add: lawful_calls_def)

theorem worker_respects_concurrency_limits_witness:
  "loop_reachable sample_runtime mail_worker (lawful_calls (pg_inv binary_codec)) sample_store
     (fst sample_filled, snd sample_filled) \<and>
   length (running (fst sample_filled)) = 1 \<and> length (running (fst sample_filled)) \<le> cfg_concurrency (w_config mail_worker)"
proof -
  have reach: "loop_reachable sample_runtime mail_worker (lawful_calls (pg_inv binary_codec)) sample_store
      (fst sample_filled, snd sample_filled)"
    using sample_filled_reachable [of "lawful_calls (pg_inv binary_codec)"] by (simp add: quiet_lawful)
  moreover have "length (running (fst sample_filled)) = 1" using sample_filled_sel(1) by (metis length_map length_Cons list.size(3) One_nat_def)
  ultimately show ?thesis
    using worker_respects_concurrency_limits [OF reach _ sample_inv, THEN conjunct1] by simp
qed

section \<open>Shutdown\<close>

text \<open>What is left to do once the shutdown signal was seen.\<close>

definition shutdown_work :: "loop_state \<Rightarrow> nat" where
  "shutdown_work st =
     (case phase st of Draining \<Rightarrow> 2 | Finishing \<Rightarrow> 1 | _ \<Rightarrow> 0) + length (running st) + length (inflight st)"

lemma length_delete_less: "i \<in> fst ` set xs \<Longrightarrow> length (AList.delete i xs) < length xs"
proof (induction xs)
  case (Cons x xs)
  then show ?case using length_delete_le [of i xs] by (cases "fst x = i") auto
qed simp

lemma finish_join_sel:
  "running (fst (finish_join rt w e now jn st s)) = running st" "phase (fst (finish_join rt w e now jn st s)) = phase st"
  "length (inflight (fst (finish_join rt w e now jn st s))) \<le> length (inflight st)"
  by (cases jn; simp add: length_delete_le)+

lemma shutdown_step:
  assumes "loop_step rt w env (st, s) (st', s')" "phase st \<in> {Draining, Finishing}"
  shows "(phase st' \<in> {Draining, Finishing} \<or> phase st' = Stopped \<and> running st' = [] \<and> inflight st' = []) \<and>
    shutdown_work st' < shutdown_work st"
  using assms
proof (induction "(st, s)" "(st', s')" rule: loop_step.induct)
  case (loop_drain_join cs jn now)
  have st': "st' = forget (joined_id jn) (unjoin (joined_id jn) st)"
    using loop_drain_join(4) reap_fst unfolding drain_join_def by (metis fst_conv)
  have "length (AList.delete (joined_id jn) (running st)) < length (running st)"
    using loop_drain_join(3) by (intro length_delete_less joinable_running)
  then show ?case
    using length_delete_le [of "joined_id jn" "inflight st"] loop_drain_join(1)
    by (simp add: st' shutdown_work_def inflight_forget unjoin_def)
next
  case (loop_finish_join cs jn now)
  have "length (AList.delete (joined_id jn) (running st)) < length (running st)"
    using loop_finish_join(3) by (intro length_delete_less joinable_running)
  then show ?case
    using finish_join_sel [of rt w "call_at cs 0" now jn "unjoin (joined_id jn) st" "before_call cs 0 s"] loop_finish_join(1,4)
    by (simp add: shutdown_work_def unjoin_def)
qed (auto simp: shutdown_work_def)



end
