(* ===== verification/Worker_Fairness.thy ===== *)
theory Worker_Fairness
  imports Worker_Loop Worker_Store
begin

text \<open>
  Anti-starvation of the run loop: the rotation of priority floors (\<^verbatim>\<open>floor_for\<close>), the counter that
  \<^verbatim>\<open>Worker::run\<close> advances with every claim, and the order in which the store hands out jobs, put together
  along executions of the loop.
\<close>

section \<open>The claim counter\<close>

lemma counter_unjoin [simp]: "claim_counter (unjoin i st) = claim_counter st"
  by (simp add: unjoin_def)

lemma counter_finish [simp]: "claim_counter (fst (finish_join rt w e now jn st s)) = claim_counter st"
  by (cases jn) simp_all

lemma counter_reap [simp]: "claim_counter (fst (reap rt w e now jn st s)) = claim_counter st"
  by (cases jn) simp_all

lemma counter_fill: "claim_counter (fst (fill_slot w cs ks st s)) = claim_counter st + 1"
  by (simp add: fill_slot_def Let_def split: prod.split sum.split option.split)

text \<open>Only a claim attempt advances the counter, and by one.\<close>

lemma loop_step_counter:
  assumes "loop_step rt w env (st, s) (st', s')" "claim_counter st' \<noteq> claim_counter st"
  obtains cs where "env cs" "phase st = Filling"
    "(st', s') = fill_slot w cs (claimable_kinds w (kinds (w_registry w)) (by_kind st)) st s"
  using assms(1)
proof cases
  case (loop_fill cs ks)
  then show thesis using that by blast
next
  case (loop_join cs jn now st1)
  then have "claim_counter st1 = claim_counter st" by (metis counter_reap counter_unjoin fst_conv)
  with loop_join assms(2) show thesis by simp
next
  case (loop_drain_join cs jn now)
  then have "claim_counter st' = claim_counter st" unfolding drain_join_def by (metis counter_reap counter_unjoin fst_conv)
  with assms(2) show thesis by simp
next
  case (loop_finish_join cs jn now)
  then have "claim_counter st' = claim_counter st" by (metis counter_finish counter_unjoin fst_conv)
  with assms(2) show thesis by simp
qed (use assms(2) in simp_all)

text \<open>A counter that moves in steps of one passes every value between its ends.\<close>

lemma counter_crosses:
  fixes f :: "nat \<Rightarrow> u64"
  assumes "\<And>n. n < N \<Longrightarrow> f (Suc n) = f n \<or> f (Suc n) = f n + 1" "unat (f 0) < T" "T \<le> unat (f N)"
  shows "\<exists>n < N. f (Suc n) = f n + 1 \<and> unat (f n + 1) = T"
  using assms
proof (induction N)
  case (Suc N)
  show ?case
  proof (cases "T \<le> unat (f N)")
    case True
    then obtain n where "n < N" "f (Suc n) = f n + 1" "unat (f n + 1) = T"
      using Suc.IH Suc.prems(1,2) by (metis less_Suc_eq)
    then show ?thesis using less_Suc_eq by blast
  next
    case False
    then have "f (Suc N) = f N + 1" using Suc.prems(1) [of N] Suc.prems(3) by auto
    moreover have "unat (f N + 1) \<le> unat (f N) + 1" by (simp add: unat_word_ariths)
    ultimately have "f (Suc N) = f N + 1 \<and> unat (f N + 1) = T" using False Suc.prems(3) by auto
    then show ?thesis by blast
  qed
qed simp

lemma next_multiple:
  assumes "0 < (q :: nat)"
  shows "\<exists>t. q dvd t \<and> a < t \<and> t \<le> a + q"
proof (intro exI conjI)
  show "q dvd (a div q + 1) * q" by simp
  show "a < (a div q + 1) * q" using dividend_less_div_times [OF assms, of a] by simp
  show "(a div q + 1) * q \<le> a + q" by simp
qed

section \<open>A reserved claim\<close>

text \<open>
  While a job waits: other clients keep the store lawful and leave the job alone before the claim, the
  connection is up for it, nobody holds the row locked, and the job is due.
\<close>

definition patient_calls :: "ulid_codec \<Rightarrow> ulid \<Rightarrow> job_record \<Rightarrow> pg_state calls \<Rightarrow> bool" where
  "patient_calls c i j cs \<longleftrightarrow> lawful_calls (pg_inv c) cs \<and> env_fault (call_at cs 0) = None \<and>
     \<not> env_locked (call_at cs 0) (to_string c i) \<and> job_visible_at j \<le> env_now (call_at cs 0) \<and>
     (\<forall>s. pg_inv c s \<and> a_job (pg_view c s) i = Some j \<longrightarrow> a_job (pg_view c (before_call cs 0 s)) i = Some j)"

text \<open>A filling step that claims a job and starts its handler.\<close>

definition serves :: "('S, 's) worker \<Rightarrow> loop_state \<times> 's \<Rightarrow> loop_state \<times> 's \<Rightarrow> job_record \<Rightarrow> bool" where
  "serves w x y j \<longleftrightarrow> (\<exists>cs ks fl s1. y = fill_slot w cs ks (fst x) (snd x) \<and>
     claim_with_fallback w cs ks fl (snd x) = (Inr (Some j), s1) \<and>
     map_of (inflight (fst y)) (next_task (fst x)) =
       Some \<lparr>inf_id = job_id j, inf_kind = job_kind j, inf_run_no = job_run_count j\<rparr>)"

lemma fill_slot_serves:
  assumes "claim_with_fallback w cs ks (floor_for (claim_counter st + 1) (cfg_priority_ratio (w_config w))) s = (Inr (Some j), s1)"
  shows "serves w (st, s) (fill_slot w cs ks st s) j"
  unfolding serves_def
  by (intro exI [of _ cs] exI [of _ ks] exI [of _ "floor_for (claim_counter st + 1) (cfg_priority_ratio (w_config w))"] exI [of _ s1])
    (simp add: assms fill_slot_def Let_def update_conv)

lemma reserved_claim_is_fair:
  assumes "w_store w = pg_ops c" "pg_inv c s" "patient_calls c i j cs" "a_job (pg_view c s) i = Some j"
    and "job_status j = Pending" "job_priority j = FLOOR_LOW" "job_kind j \<in> set ks"
  shows "(\<exists>l s1. claim_with_fallback w cs ks FLOOR_LOW s = (Inr (Some l), s1) \<and> job_priority l = FLOOR_LOW \<and>
      job_created_at l \<le> job_created_at j) \<or>
    (\<exists>k l. a_job (pg_view c (before_call cs 0 s)) k = Some l \<and> job_priority l = FLOOR_LOW \<and>
      job_created_at l \<le> job_created_at j \<and> sint (job_run_count l) = i32_max)"
proof -
  let ?s = "before_call cs 0 s" and ?e = "call_at cs 0"
  have s: "pg_inv c ?s" "a_job (pg_view c ?s) i = Some j" "env_fault ?e = None" "\<not> env_locked ?e (to_string c i)"
    using assms(2-4) by (simp_all add: patient_calls_def lawful_calls_def)
  have due: "claimable (env_now ?e) ks FLOOR_LOW j"
    using assms(3,5-7) by (simp add: claimable_def patient_calls_def)
  have low: "job_priority l = FLOOR_LOW \<and> job_created_at l \<le> job_created_at j"
    if "claimable (env_now ?e) ks FLOOR_LOW l" "claim_key l \<le> claim_key j" for l
    using that assms(6) by (auto simp: claimable_def claim_key_def)
  show ?thesis
  proof (rule pg_claim_takes [OF s(1,3,2) due s(4), of "cfg_lease (w_config w)" "w_identity w"])
    fix l s1
    assume claim: "pg_claim_next c ?e ks FLOOR_LOW (cfg_lease (w_config w)) (w_identity w) ?s = (Inr (Some l), s1)"
    then have call: "so_claim_next (pg_ops c) ?e ks FLOOR_LOW (cfg_lease (w_config w)) (w_identity w) ?s = (Inr (Some l), s1)"
      by (simp add: pg_ops_def)
    obtain l' t where l': "claimable (env_now ?e) ks FLOOR_LOW l'" "claim_key l' \<le> claim_key j" "l = claim_job t (w_identity w) l'"
      using pg.claim_ok [OF s(1) call] s(2,4) due unfolding spec_claim_def option.case by blast
    have "job_priority l = FLOOR_LOW \<and> job_created_at l \<le> job_created_at j" using low [OF l'(1,2)] by (simp add: l'(3) claim_job_def)
    moreover have "claim_with_fallback w cs ks FLOOR_LOW s = (Inr (Some l), s1)"
      by (simp add: claim_with_fallback_def assms(1) call)
    ultimately show ?thesis by blast
  qed (use low in blast)
qed

section \<open>Executions\<close>

lemma path_ok:
  assumes "\<And>n. n < N \<Longrightarrow> loop_step rt w (lawful_calls (pg_inv c)) (\<sigma> n) (\<sigma> (Suc n))" "w_store w = pg_ops c"
    and "loop_ok w (fst (\<sigma> 0))" "pg_inv c (snd (\<sigma> 0))" "n \<le> N"
  shows "loop_ok w (fst (\<sigma> n)) \<and> pg_inv c (snd (\<sigma> n))"
  using assms(5)
proof (induction n)
  case (Suc n)
  then have "loop_step rt w (lawful_calls (pg_inv c)) (fst (\<sigma> n), snd (\<sigma> n)) (fst (\<sigma> (Suc n)), snd (\<sigma> (Suc n)))"
    using assms(1) by simp
  from pg.loop_step_ok [OF this assms(2)] Suc show ?case by simp
qed (use assms(3,4) in simp)

text \<open>
  C13: low-priority work is not starved. Let a due job of the lowest tier wait, unlocked, with its kind
  registered and uncapped, while the loop makes \<open>r\<^sup>2\<close> claim attempts (\<open>r\<close> the configured ratio). Then one of these attempts
  claims and starts a job of the lowest tier at least as old as the waiting one, however much urgent work is
  queued: the only exception is an equally old low job whose run number can no longer be incremented. So
  only older jobs of its own tier can delay it, each by at most \<open>r\<^sup>2\<close> claims.
\<close>

theorem low_priority_work_is_not_starved:
  assumes "cfg_priority_ratio (w_config w) = Some r" "2 \<le> r" "w_store w = pg_ops c"
    and "\<forall>n < N. loop_step rt w (patient_calls c i j) (\<sigma> n) (\<sigma> (Suc n))"
    and "loop_ok w (fst (\<sigma> 0))" "pg_inv c (snd (\<sigma> 0))"
    and "\<forall>n < N. a_job (pg_view c (snd (\<sigma> n))) i = Some j"
    and "job_status j = Pending" "job_priority j = FLOOR_LOW"
    and "job_kind j \<in> set (kinds (w_registry w))" "cap_of (w_registry w) (job_kind j) = None"
    and "unat (claim_counter (fst (\<sigma> 0))) + unat r * unat r \<le> unat (claim_counter (fst (\<sigma> N)))"
  shows "\<exists>n < N. \<exists>l. job_priority l = FLOOR_LOW \<and> job_created_at l \<le> job_created_at j \<and>
    (serves w (\<sigma> n) (\<sigma> (Suc n)) l \<or>
     sint (job_run_count l) = i32_max \<and>
       (\<exists>cs k. patient_calls c i j cs \<and> a_job (pg_view c (before_call cs 0 (snd (\<sigma> n)))) k = Some l))"
proof -
  let ?q = "unat r * unat r" and ?f = "\<lambda>n. claim_counter (fst (\<sigma> n))"
  have "unat (2 :: u32) \<le> unat r" using assms(2) by (simp add: word_le_nat_alt)
  then have "0 < ?q" by simp
  then obtain T where T: "?q dvd T" "unat (?f 0) < T" and le: "T \<le> unat (?f 0) + ?q"
    using next_multiple [of ?q "unat (?f 0)"] by blast
  have reach: "T \<le> unat (?f N)" using le assms(12) by linarith
  have step: "loop_step rt w (patient_calls c i j) (fst (\<sigma> n), snd (\<sigma> n)) (fst (\<sigma> (Suc n)), snd (\<sigma> (Suc n)))" if "n < N" for n
    using assms(4) that by simp
  have moves: "?f (Suc n) = ?f n \<or> ?f (Suc n) = ?f n + 1" if "n < N" for n
    using loop_step_counter [OF step [OF that]] counter_fill by (metis fst_conv)
  obtain n where n: "n < N" "?f (Suc n) = ?f n + 1" "unat (?f n + 1) = T"
    using counter_crosses [OF moves T(2) reach] by blast
  let ?st = "fst (\<sigma> n)" and ?s = "snd (\<sigma> n)"
  have "?f (Suc n) \<noteq> ?f n" using n(2) by simp
  from loop_step_counter [OF step [OF n(1)] this]
  obtain cs where cs: "patient_calls c i j cs"
    "\<sigma> (Suc n) = fill_slot w cs (claimable_kinds w (kinds (w_registry w)) (by_kind ?st)) ?st ?s"
    by (metis prod.collapse)
  have "T < 2 ^ 64" using n(3) unsigned_less [where 'a = nat, of "?f n + 1"] by simp
  then have floor: "floor_for (?f n + 1) (cfg_priority_ratio (w_config w)) = FLOOR_LOW"
    using floor_for_nat [OF _ assms(2), of T] T(1) by (simp add: assms(1) flip: n(3))
  have lawful: "loop_step rt w (lawful_calls (pg_inv c)) (\<sigma> m) (\<sigma> (Suc m))" if "m < N" for m
    using assms(4) that by (auto elim!: loop_step_weaken simp: patient_calls_def)
  have inv: "pg_inv c ?s"
    using path_ok [where \<sigma> = \<sigma> and N = N and n = n, OF lawful assms(3,5,6)] n(1) by simp
  have "job_kind j \<in> set (claimable_kinds w (kinds (w_registry w)) (by_kind ?st))"
    using assms(10,11) by (simp add: claimable_kinds_def)
  with reserved_claim_is_fair [OF assms(3) inv cs(1) _ assms(8,9)] assms(7) n(1)
  consider l s1 where "job_priority l = FLOOR_LOW" "job_created_at l \<le> job_created_at j"
      "claim_with_fallback w cs (claimable_kinds w (kinds (w_registry w)) (by_kind ?st)) FLOOR_LOW ?s = (Inr (Some l), s1)"
    | l k where "job_priority l = FLOOR_LOW" "job_created_at l \<le> job_created_at j" "sint (job_run_count l) = i32_max"
      "a_job (pg_view c (before_call cs 0 ?s)) k = Some l"
    by blast
  then show ?thesis
  proof cases
    case 1
    then have "serves w (\<sigma> n) (\<sigma> (Suc n)) l" using fill_slot_serves [of w cs _ ?st ?s] by (simp add: floor cs(2))
    with 1 n(1) show ?thesis by blast
  next
    case 2
    with cs(1) n(1) show ?thesis by blast
  qed
qed

section \<open>A run of the rotation\<close>

text \<open>
  A low job waits behind normal work that other clients keep making due: three claims take normal jobs,
  the fourth one is reserved for the low tier.
\<close>

definition low_new :: new_job where
  "low_new = sample_new\<lparr>new_id := 2, new_priority := 2\<rparr>"

definition busy_store :: pg_state where
  "busy_store = snd (pg_enqueue binary_codec (env_at 100) low_new sample_store)"

definition busy_calls :: "pg_state calls" where
  "busy_calls = (\<lambda>n. (if n = 0 then \<lambda>_. busy_store else id, env_at 200))"

definition fair_worker :: "(unit, pg_state) worker" where
  "fair_worker = build (Some ''host'') 1 (set_priority_ratio (Some 2) (set_concurrency 4
     (wb_register text_task (\<lambda>_ _ _. Inl Panic_Other) (builder (Some 4) () (pg_ops binary_codec)))))"

definition fair_path :: "nat \<Rightarrow> loop_state \<times> pg_state" where
  "fair_path n = ((\<lambda>(st, s). fill_slot fair_worker busy_calls [''mail''] st s) ^^ n) (loop_init\<lparr>phase := Filling\<rparr>, busy_store)"

lemma fair_worker_sel [simp]:
  "w_store fair_worker = pg_ops binary_codec" "cfg_priority_ratio (w_config fair_worker) = Some 2"
  "cfg_concurrency (w_config fair_worker) = 4" "kinds (w_registry fair_worker) = [''mail'']"
  "cap_of (w_registry fair_worker) k = None" "lease_for (w_registry fair_worker) k p = None"
  by (simp_all add: fair_worker_def build_def builder_def set_priority_ratio_def set_concurrency_def wb_register_def
      registry_new_def register_def kinds_def text_task_def cap_of_def lease_for_def erased_lease_def split: sum.split json.split)

lemma busy_calls_sel [simp]: "before_call busy_calls n s = (if n = 0 then busy_store else s)" "call_at busy_calls n = env_at 200"
  by (simp_all add: busy_calls_def before_call_def call_at_def)

lemma busy_inv: "pg_inv binary_codec busy_store"
  unfolding busy_store_def by (intro pg_enqueue_inv sample_inv)

lemma busy_view: "a_job (pg_view binary_codec busy_store) = [1 \<mapsto> fresh_job sample_new, 2 \<mapsto> fresh_job low_new]"
proof -
  have "conforms (pg_view binary_codec) sample_store (pg_enqueue binary_codec (env_at 100) low_new sample_store)
      ((), spec_enqueue low_new (pg_view binary_codec sample_store))"
    by (rule pg_enqueue_conforms) (simp_all add: sample_inv low_new_def sample_new_def)
  moreover have "fst (pg_enqueue binary_codec (env_at 100) low_new sample_store) = Inr ()"
    by (rule pg_enqueue_responds) (simp_all add: sample_inv low_new_def sample_new_def)
  ultimately show ?thesis by (simp add: conforms_def busy_store_def spec_enqueue_def low_new_def)
qed

lemma busy_calls_patient: "patient_calls binary_codec 2 (fresh_job low_new) busy_calls"
  by (simp add: patient_calls_def lawful_calls_def busy_inv busy_view fresh_job_def low_new_def sample_new_def)

lemma busy_claim:
  assumes "fl \<le> 1"
  obtains l s1 where "claim_with_fallback fair_worker busy_calls [''mail''] fl s = (Inr (Some l), s1)"
    "a_job (pg_view binary_codec s1) 2 = Some (fresh_job low_new)"
proof -
  let ?by = "w_identity fair_worker" and ?ls = "cfg_lease (w_config fair_worker)"
  have job: "a_job (pg_view binary_codec busy_store) 1 = Some (fresh_job sample_new)" by (simp add: busy_view)
  have due: "claimable 200 [''mail''] fl (fresh_job sample_new)"
    using assms by (simp add: claimable_def fresh_job_def sample_new_def)
  then obtain l s1 where "pg_claim_next binary_codec (env_at 200) [''mail''] fl ?ls ?by busy_store = (Inr (Some l), s1)"
    by (rule_tac pg_claim_takes [OF busy_inv _ job, of "env_at 200" "[''mail'']" fl ?ls ?by])
      (auto simp: busy_view fresh_job_def int_limits split: if_splits)
  then have call: "so_claim_next (pg_ops binary_codec) (env_at 200) [''mail''] fl ?ls ?by busy_store = (Inr (Some l), s1)"
    by (simp add: pg_ops_def)
  obtain k j' t where "a_job (pg_view binary_codec busy_store) k = Some j'" "claim_key j' \<le> claim_key (fresh_job sample_new)"
    "pg_view binary_codec s1 = (pg_view binary_codec busy_store)\<lparr>a_job := (a_job (pg_view binary_codec busy_store))(k \<mapsto> t)\<rparr>"
    using pg.claim_ok [OF busy_inv call] job due env_at_sel(3) unfolding spec_claim_def option.case env_at_sel(1) by blast
  then have "a_job (pg_view binary_codec s1) 2 = Some (fresh_job low_new)"
    by (auto simp: busy_view claim_key_def fresh_job_def low_new_def sample_new_def split: if_splits)
  moreover have "claim_with_fallback fair_worker busy_calls [''mail''] fl s = (Inr (Some l), s1)"
    by (simp add: claim_with_fallback_def call)
  ultimately show thesis using that by blast
qed

lemma fair_path_ok:
  "n \<le> 3 \<Longrightarrow> claim_counter (fst (fair_path n)) = of_nat n \<and> phase (fst (fair_path n)) = Filling \<and>
     length (running (fst (fair_path n))) \<le> n \<and> a_job (pg_view binary_codec (snd (fair_path n))) 2 = Some (fresh_job low_new)"
proof (induction n)
  case 0
  then show ?case by (simp add: fair_path_def loop_init_def busy_view)
next
  case (Suc n)
  let ?fl = "floor_for (claim_counter (fst (fair_path n)) + 1) (Some 2)"
  have "\<not> 4 dvd Suc n" using Suc.prems dvd_imp_le [of 4 "Suc n"] by auto
  moreover have "?fl = floor_for (of_nat (Suc n)) (Some 2)" using Suc by (simp add: add.commute)
  ultimately have "?fl \<le> 1" using floor_for_nat [of "Suc n" 2] Suc.prems by (simp add: worker_consts)
  then obtain l s1 where claim: "claim_with_fallback fair_worker busy_calls [''mail''] ?fl (snd (fair_path n)) = (Inr (Some l), s1)"
    "a_job (pg_view binary_codec s1) 2 = Some (fresh_job low_new)"
    by (rule busy_claim)
  have "fair_path (Suc n) = fill_slot fair_worker busy_calls [''mail''] (fst (fair_path n)) (snd (fair_path n))"
    by (simp add: fair_path_def case_prod_beta)
  moreover have "length (AList.update i t xs) \<le> Suc (length xs)" for i :: nat and t :: task and xs
    by (induction xs) auto
  ultimately show ?case using Suc claim
    by (simp add: fill_slot_def Let_def apply_task_lease_def add.commute) (meson Suc_le_mono le_trans)
qed

lemma fair_path_step:
  assumes "n < 4"
  shows "loop_step rt fair_worker (patient_calls binary_codec 2 (fresh_job low_new)) (fair_path n) (fair_path (Suc n))"
proof -
  have "n \<le> 3" using assms by simp
  note ok = fair_path_ok [OF this]
  have "loop_step rt fair_worker (patient_calls binary_codec 2 (fresh_job low_new)) (fst (fair_path n), snd (fair_path n))
      (fill_slot fair_worker busy_calls [''mail''] (fst (fair_path n)) (snd (fair_path n)))"
    using ok assms by (intro loop_step.loop_fill busy_calls_patient) (simp_all add: claimable_kinds_def)
  then show ?thesis by (simp add: fair_path_def case_prod_beta)
qed

theorem low_priority_work_is_not_starved_witness:
  "\<exists>n < 4. \<exists>l. job_priority l = FLOOR_LOW \<and> job_created_at l \<le> 100 \<and>
     (serves fair_worker (fair_path n) (fair_path (Suc n)) l \<or>
      sint (job_run_count l) = i32_max \<and> (\<exists>cs k. patient_calls binary_codec 2 (fresh_job low_new) cs \<and>
        a_job (pg_view binary_codec (before_call cs 0 (snd (fair_path n)))) k = Some l))"
proof -
  have start: "loop_ok fair_worker (fst (fair_path 0))" "pg_inv binary_codec (snd (fair_path 0))"
    by (simp_all add: fair_path_def loop_ok_def ids_ok_def within_limits_def counts_ok_def kind_count_def loop_init_def busy_inv)
  have low: "job_status (fresh_job low_new) = Pending" "job_priority (fresh_job low_new) = FLOOR_LOW"
    "job_kind (fresh_job low_new) = ''mail''" "job_created_at (fresh_job low_new) = 100"
    by (simp_all add: fresh_job_def low_new_def sample_new_def worker_consts)
  have "claim_counter (fst (fair_path 4)) = claim_counter (fst (fair_path 3)) + 1"
    using counter_fill [of fair_worker busy_calls] by (simp add: fair_path_def eval_nat_numeral case_prod_beta)
  then have count: "unat (claim_counter (fst (fair_path 0))) + unat (2 :: u32) * unat (2 :: u32) \<le> unat (claim_counter (fst (fair_path 4)))"
    using fair_path_ok [of 3] fair_path_ok [of 0] by simp
  show ?thesis
    using low_priority_work_is_not_starved [where w = fair_worker and r = 2 and c = binary_codec and N = 4 and \<sigma> = fair_path
        and i = 2 and j = "fresh_job low_new", OF _ _ _ _ start _ low(1,2) _ _ count]
      fair_path_step fair_path_ok low by simp
qed

end
