(* ===== verification/Worker_System.thy ===== *)
theory Worker_System
  imports Worker_Loop Queue_System
begin

text \<open>
  The run loop inside the whole queue. Every task in the worker's join set runs a job the worker
  claimed, and the tracking entry of a task names the job it runs; from this, every execution of the
  loop is an execution of the system of \<^verbatim>\<open>Queue_System\<close>, and a forced shutdown leaves no claim of the
  worker behind.
\<close>

section \<open>Tasks and their jobs\<close>

definition task_of :: "('S, 's) worker \<Rightarrow> job_record \<Rightarrow> task \<Rightarrow> bool" where
  "task_of w j t \<longleftrightarrow> (\<exists>hist. t = spawn w j hist)"

text \<open>Every task runs a job, every tracking entry names one, and they agree.\<close>

definition tracks ::
  "('S, 's) worker \<Rightarrow> (job_record \<Rightarrow> bool) \<Rightarrow> (nat \<times> task) list \<Rightarrow> (nat \<times> inflight_job) list \<Rightarrow> bool" where
  "tracks w K R I \<longleftrightarrow>
     (\<forall>i t. (i, t) \<in> set R \<longrightarrow> (\<exists>j. K j \<and> task_of w j t \<and> (i, tracked j) \<in> set I)) \<and>
     (\<forall>i job. (i, job) \<in> set I \<longrightarrow> (\<exists>j. K j \<and> job = tracked j))"

definition tasks_tracked :: "('S, 's) worker \<Rightarrow> (job_record \<Rightarrow> bool) \<Rightarrow> loop_state \<Rightarrow> bool" where
  "tasks_tracked w K st \<longleftrightarrow> tracks w K (running st) (inflight st)"

lemma tasks_tracked_mono: "tasks_tracked w K st \<Longrightarrow> (\<And>j. K j \<Longrightarrow> L j) \<Longrightarrow> tasks_tracked w L st"
  unfolding tasks_tracked_def tracks_def by meson

lemma tasks_tracked_phase [simp]: "tasks_tracked w K (st\<lparr>phase := p\<rparr>) = tasks_tracked w K st"
  "tasks_tracked w K (st\<lparr>claim_counter := n\<rparr>) = tasks_tracked w K st"
  by (simp_all add: tasks_tracked_def)

lemma tasks_tracked_init: "tasks_tracked w K loop_init"
  by (simp add: tasks_tracked_def tracks_def loop_init_def)

lemma in_delete: "(k, v) \<in> set (AList.delete i xs) \<longleftrightarrow> (k, v) \<in> set xs \<and> k \<noteq> i"
  by (auto simp: AList.delete_eq)

lemma tracks_delete:
  "tracks w K R I \<Longrightarrow> tracks w K (AList.delete i R) (AList.delete i I)"
  "tracks w K R I \<Longrightarrow> tracks w K (AList.delete i R) I"
  unfolding tracks_def in_delete by meson+

lemma tracks_snoc:
  assumes "tracks w K R I" "K j" "task_of w j t"
  shows "tracks w K (R @ [(n, t)]) (I @ [(n, tracked j)])"
  unfolding tracks_def
proof (intro conjI allI impI)
  fix i u
  assume "(i, u) \<in> set (R @ [(n, t)])"
  then consider "(i, u) \<in> set R" | "i = n" "u = t" by auto
  then show "\<exists>j'. K j' \<and> task_of w j' u \<and> (i, tracked j') \<in> set (I @ [(n, tracked j)])"
    by cases (use assms in \<open>auto simp: tracks_def\<close>, blast)
qed (use assms in \<open>auto simp: tracks_def\<close>)

lemma tasks_tracked_forget: "tasks_tracked w K st \<Longrightarrow> tasks_tracked w K (forget i (unjoin i st))"
  by (simp add: tasks_tracked_def inflight_forget tracks_delete unjoin_def)

lemma tasks_tracked_finish:
  "tasks_tracked w K st \<Longrightarrow> tasks_tracked w K (fst (finish_join rt w e now jn (unjoin (joined_id jn) st) s))"
  by (cases jn) (simp_all add: tasks_tracked_def tracks_delete unjoin_def)

lemma tasks_tracked_spawn:
  assumes "tasks_tracked w K st" "ids_ok st" "K j"
  shows "tasks_tracked w K (st\<lparr>claim_counter := n, by_kind := bk,
    running := AList.update (next_task st) (spawn w j hist) (running st),
    inflight := AList.update (next_task st) (tracked j) (inflight st), next_task := m\<rparr>)"
proof -
  have fresh: "next_task st \<notin> fst ` set (running st)" "next_task st \<notin> fst ` set (inflight st)"
    using assms(2) unfolding ids_ok_def by (metis UnCI less_irrefl)+
  have "task_of w j (spawn w j hist)" by (auto simp: task_of_def)
  then show ?thesis
    using assms(1,3) by (simp add: tasks_tracked_def update_fresh [OF fresh(1)] update_fresh [OF fresh(2)] tracks_snoc)
qed

text \<open>A joined result is the run of the job its task was spawned for.\<close>

lemma joined_run:
  assumes "tasks_tracked w K st" "joinable st (Finished i fin)"
  obtains j hist cancel elapsed where "K j" "fin = spawn w j hist cancel elapsed" "(i, tracked j) \<in> set (inflight st)"
proof -
  obtain t cancel elapsed where t: "map_of (running st) i = Some t" "fin = t cancel elapsed"
    using assms(2) by (auto simp: joinable_def)
  then have "(i, t) \<in> set (running st)" by (simp add: map_of_SomeD)
  then obtain j where "K j" "task_of w j t" "(i, tracked j) \<in> set (inflight st)"
    using assms(1) unfolding tasks_tracked_def tracks_def by blast
  then show thesis using that t(2) by (auto simp: task_of_def)
qed

lemma fill_slot_tracked:
  assumes "tasks_tracked w K st" "ids_ok st"
    and "\<And>j s1. claim_with_fallback w cs ks (floor_for (claim_counter st + 1) (cfg_priority_ratio (w_config w))) s =
      (Inr (Some j), s1) \<Longrightarrow> K j"
  shows "tasks_tracked w K (fst (fill_slot w cs ks st s))"
proof -
  let ?fl = "floor_for (claim_counter st + 1) (cfg_priority_ratio (w_config w))"
  obtain r s1 where claim: "claim_with_fallback w cs ks ?fl s = (r, s1)" by fastforce
  show ?thesis
  proof (cases "\<exists>j. r = Inr (Some j)")
    case True
    then obtain j where r: "r = Inr (Some j)" by blast
    with assms(3) claim have "K j" by blast
    from tasks_tracked_spawn [OF assms(1,2) this] show ?thesis
      by (simp add: fill_slot_def claim r Let_def flip: tracked_def)
  next
    case False
    with assms(1) show ?thesis by (auto simp: fill_slot_def claim Let_def split: sum.split option.split)
  qed
qed

lemma loop_step_tracked:
  assumes "loop_step rt w env (st, s) (st', s')" "tasks_tracked w (\<lambda>_. True) st" "ids_ok st"
  shows "tasks_tracked w (\<lambda>_. True) st'"
  using assms
proof (induction "(st, s)" "(st', s')" rule: loop_step.induct)
  case (loop_fill cs ks)
  then show ?case using fill_slot_tracked [of w "\<lambda>_. True" st cs ks s] by simp
next
  case (loop_join cs jn now st1)
  then have "st1 = forget (joined_id jn) (unjoin (joined_id jn) st)" using reap_fst by (metis fst_conv)
  then show ?case using loop_join by (auto simp: tasks_tracked_forget)
next
  case (loop_drain_join cs jn now)
  then have "st' = forget (joined_id jn) (unjoin (joined_id jn) st)" using reap_fst by (metis drain_join_def fst_conv)
  then show ?case using loop_drain_join by (simp add: tasks_tracked_forget)
next
  case (loop_finish_join cs jn now)
  then show ?case using tasks_tracked_finish by (metis fst_conv)
next
  case (loop_finish_release cs task_id job rest now)
  then have "tasks_tracked w (\<lambda>_. True) (st\<lparr>inflight := rest\<rparr>)" by (auto simp: tasks_tracked_def tracks_def)
  then show ?case using loop_finish_release(5) by simp
qed auto

lemma loop_reachable_tracked:
  assumes "loop_reachable rt w (lawful_calls (pg_inv c)) s0 (st, s)" "w_store w = pg_ops c" "pg_inv c s0"
  shows "tasks_tracked w (\<lambda>_. True) st"
  using assms
proof (induction "(st, s)" arbitrary: st s rule: loop_reachable.induct)
  case loop_start
  then show ?case by (simp add: tasks_tracked_init)
next
  case (loop_next q)
  obtain st0 t where q: "q = (st0, t)" by fastforce
  have "ids_ok st0" using loop_reachable_ok [of rt w c s0 st0 t] loop_next q by (simp add: loop_ok_def)
  then show ?case using loop_step_tracked [of rt w _ st0 t st s] loop_next q by simp
qed

section \<open>Forced shutdown\<close>

text \<open>The claim of a run has ended: nobody holds the job under that identity at that run.\<close>

definition claim_ended :: "astore \<Rightarrow> string \<Rightarrow> inflight_job \<Rightarrow> bool" where
  "claim_ended a by job \<longleftrightarrow> (\<forall>j. a_job a (inf_id job) = Some j \<longrightarrow> \<not> owned by (inf_run_no job) j)"

text \<open>A healthy database, other clients that keep the store lawful and claim nothing under this identity.\<close>

definition orderly_calls :: "('s \<Rightarrow> bool) \<Rightarrow> ('s \<Rightarrow> astore) \<Rightarrow> string \<Rightarrow> 's calls \<Rightarrow> bool" where
  "orderly_calls ok view by cs \<longleftrightarrow>
     lawful_calls ok cs \<and> (\<forall>n. env_fault (call_at cs n) = None) \<and>
     (\<forall>n s job. ok s \<longrightarrow> claim_ended (view s) by job \<longrightarrow> claim_ended (view (before_call cs n s)) by job)"

context store_contract
begin

lemma settle_ends_claim:
  assumes "invar s" "env_fault e = None" "app_run_no ja = inf_run_no job"
  shows "claim_ended (view (snd (so_settle ops e (inf_id job) by (inf_run_no job) stl ja s))) by job"
proof (cases "\<exists>j. a_job (view s) (inf_id job) = Some j \<and> owned by (inf_run_no job) j")
  case True
  then obtain j where j: "a_job (view s) (inf_id job) = Some j" "owned by (inf_run_no job) j" by blast
  then have rn: "inf_run_no job = job_run_count j" by (simp add: owned_def)
  obtain v where "fst (so_settle ops e (inf_id job) by (inf_run_no job) stl ja s) = Inr v"
    using settle_responds [OF assms(1,2) j(1)] assms(3) unfolding rn by metis
  then have "view (snd (so_settle ops e (inf_id job) by (inf_run_no job) stl ja s)) =
      snd (spec_settle by (inf_run_no job) stl ja (inf_id job) (view s))"
    using settle_conforms [OF assms(1), of e "inf_id job" "by" "inf_run_no job" stl ja] by (simp add: conforms_def)
  then show ?thesis
    using j settled_not_claimed by (simp add: claim_ended_def spec_settle_def guarded_def owned_def)
next
  case False
  then have "snd (spec_settle by (inf_run_no job) stl ja (inf_id job) (view s)) = view s"
    by (auto simp: spec_settle_def guarded_def split: option.split)
  with settle_conforms [OF assms(1), of e "inf_id job" "by" "inf_run_no job" stl ja]
  have "view (snd (so_settle ops e (inf_id job) by (inf_run_no job) stl ja s)) = view s"
    by (auto elim: conforms_cases)
  with False show ?thesis by (auto simp: claim_ended_def)
qed

lemma settle_keeps_ended:
  assumes "invar s" "claim_ended (view s) by job"
  shows "claim_ended (view (snd (so_settle ops e i by' rn stl ja s))) by job"
proof -
  have "claim_ended (snd (spec_settle by' rn stl ja i (view s))) by job"
    using assms(2) settled_not_claimed by (auto simp: claim_ended_def spec_settle_def guarded_def owned_def split: option.split)
  with assms(2) show ?thesis by (rule_tac conforms_cases [OF settle_conforms [OF assms(1), of e i by' rn stl ja]]) simp_all
qed

end

text \<open>What is left of the jobs in flight: still tracked, or their claim has ended.\<close>

definition handed_back :: "astore \<Rightarrow> string \<Rightarrow> (nat \<times> inflight_job) list \<Rightarrow> loop_state \<Rightarrow> bool" where
  "handed_back a by jobs st \<longleftrightarrow> (\<forall>x \<in> set jobs. x \<in> set (inflight st) \<or> claim_ended a by (snd x))"

lemma handed_back_step:
  assumes "handed_back a by jobs st"
    and "\<And>x. x \<in> set (inflight st) \<Longrightarrow> x \<in> set (inflight st') \<or> claim_ended a' by (snd x)"
    and "\<And>job. claim_ended a by job \<Longrightarrow> claim_ended a' by job"
  shows "handed_back a' by jobs st'"
  using assms unfolding handed_back_def by metis

context store_contract
begin

lemma settle_run_snd:
  "snd (settle rt w e now fin s) = snd (so_settle (w_store w) e (fin_id fin) (w_identity w) (fin_run_no fin)
    (fst (settlement_of rt w now fin)) (snd (settlement_of rt w now fin)) s)"
  by (simp add: settle_def Let_def case_prod_beta)

text \<open>Joining a finished run ends its claim and no other.\<close>

lemma finish_join_hands_back:
  fixes rt :: runtime and now :: datetime
  assumes "w_store w = ops" "invar s" "env_fault e = None" "tasks_tracked w K st" "ids_ok st" "joinable st jn"
    and "handed_back (view s) (w_identity w) jobs st"
  defines "out \<equiv> finish_join rt w e now jn (unjoin (joined_id jn) st) s"
  shows "handed_back (view (snd out)) (w_identity w) jobs (fst out)"
proof (cases jn)
  case (Finished i fin)
  from joined_run [OF assms(4) assms(6) [unfolded Finished]] obtain j hist cancel elapsed where
    j: "fin = spawn w j hist cancel elapsed" "(i, tracked j) \<in> set (inflight st)" by metis
  have call: "snd out = snd (so_settle ops e (inf_id (tracked j)) (w_identity w) (inf_run_no (tracked j))
      (fst (settlement_of rt w now fin)) (snd (settlement_of rt w now fin)) s)"
    by (simp add: out_def Finished settle_run_snd assms(1) j(1) spawn_sel tracked_def)
  have ended: "claim_ended (view (snd out)) (w_identity w) (tracked j)"
    unfolding call by (rule settle_ends_claim [OF assms(2,3)]) (simp add: settlement_of_journal j(1) spawn_sel tracked_def)
  have inflight: "inflight (fst out) = AList.delete i (inflight st)" by (simp add: out_def Finished unjoin_def)
  have "x \<in> set (inflight (fst out)) \<or> claim_ended (view (snd out)) (w_identity w) (snd x)" if "x \<in> set (inflight st)" for x
  proof (cases "fst x = i")
    case True
    have "distinct (map fst (inflight st))" using assms(5) by (simp add: ids_ok_def)
    with True that j(2) have "snd x = tracked j" by (metis eq_key_imp_eq_value prod.collapse)
    with ended show ?thesis by simp
  next
    case False
    with that have "x \<in> set (AList.delete i (inflight st))" by (metis in_delete prod.collapse)
    then show ?thesis by (simp add: inflight)
  qed
  moreover have "claim_ended (view (snd out)) (w_identity w) job" if "claim_ended (view s) (w_identity w) job" for job
    unfolding call using assms(2) that by (rule settle_keeps_ended)
  ultimately show ?thesis by (intro handed_back_step [OF assms(7)])
next
  case (Join_error i)
  with assms(7) show ?thesis by (simp add: out_def handed_back_def unjoin_def)
qed

lemma release_hands_back:
  assumes "w_store w = ops" "invar s" "env_fault e = None" "inflight st = (i, job) # rest"
    and "handed_back (view s) (w_identity w) jobs st"
  shows "handed_back (view (release w e now job s)) (w_identity w) jobs (st\<lparr>inflight := rest\<rparr>)"
proof -
  obtain ja where ja: "app_run_no ja = inf_run_no job"
    "release w e now job s = snd (so_settle ops e (inf_id job) (w_identity w) (inf_run_no job) (Release now) ja s)"
    using assms(1) by (simp add: release_def Let_def) (metis journal_append.select_convs(2))
  show ?thesis
    using assms(5)
  proof (rule handed_back_step)
    fix x
    assume "x \<in> set (inflight st)"
    then show "x \<in> set (inflight (st\<lparr>inflight := rest\<rparr>)) \<or> claim_ended (view (release w e now job s)) (w_identity w) (snd x)"
      using settle_ends_claim [OF assms(2,3) ja(1)] assms(4) by (auto simp: ja(2))
  qed (simp add: ja(2) settle_keeps_ended [OF assms(2)])
qed

lemma interference_hands_back:
  assumes "orderly_calls invar view by cs" "invar s" "handed_back (view s) by jobs st"
  shows "handed_back (view (before_call cs n s)) by jobs st"
  using assms unfolding orderly_calls_def handed_back_def by blast

lemma finishing_step:
  assumes "loop_step rt w (orderly_calls invar view (w_identity w)) (st, s) (st', s')" "w_store w = ops"
    and "loop_ok w st" "invar s" "tasks_tracked w (\<lambda>_. True) st"
    and "phase st \<in> {Finishing, Stopped}" "handed_back (view s) (w_identity w) jobs st"
    and "phase st = Stopped \<longrightarrow> inflight st = []"
  shows "handed_back (view s') (w_identity w) jobs st' \<and> phase st' \<in> {Finishing, Stopped} \<and>
    (phase st' = Stopped \<longrightarrow> inflight st' = [])"
  using assms
proof (induction "(st, s)" "(st', s')" rule: loop_step.induct)
  case (loop_finish_join cs jn now)
  let ?s = "before_call cs 0 s"
  have s: "invar ?s" "env_fault (call_at cs 0) = None"
    using loop_finish_join(2,7) by (simp_all add: orderly_calls_def lawful_calls_def)
  have "handed_back (view ?s) (w_identity w) jobs st"
    using loop_finish_join(2,7,10) by (rule interference_hands_back)
  from finish_join_hands_back [OF loop_finish_join(5) s loop_finish_join(8) _ loop_finish_join(3) this, of rt now]
  have "handed_back (view s') (w_identity w) jobs st'"
    using loop_finish_join(4,6) by (simp add: loop_ok_def)
  moreover have "phase st' = Finishing"
    using loop_finish_join(1,4) finish_join_sel(2) by (metis fst_conv unjoin_phase)
  ultimately show ?case by simp
next
  case (loop_finish_release cs task_id job rest now)
  let ?s = "before_call cs 0 s"
  have s: "invar ?s" "env_fault (call_at cs 0) = None"
    using loop_finish_release(2,9) by (simp_all add: orderly_calls_def lawful_calls_def)
  have "handed_back (view ?s) (w_identity w) jobs st"
    using loop_finish_release(2,9,12) by (rule interference_hands_back)
  from release_hands_back [OF loop_finish_release(7) s loop_finish_release(4) this] loop_finish_release(1,5,6)
  show ?case by auto
qed (auto simp: handed_back_def)

end

lemma orderly_lawful: "orderly_calls ok view by cs \<Longrightarrow> lawful_calls ok cs"
  by (simp add: orderly_calls_def)

text \<open>
  C11: a shutdown leaves nothing claimed: from the moment the worker starts its forced teardown, with a
  healthy database and whatever other clients do (short of claiming under this worker's own
  identity), every job it had in flight has its claim ended when the worker stops. It was settled if
  its handler finished before the abort, and released otherwise, and never stays claimed until
  its lease expires.
\<close>

theorem shutdown_hands_back_every_job:
  assumes "loop_reachable rt w (lawful_calls (pg_inv c)) s0 (st, s)" "w_store w = pg_ops c" "pg_inv c s0"
    and "phase st = Finishing" "phase st' = Stopped"
    and "rtranclp (loop_step rt w (orderly_calls (pg_inv c) (pg_view c) (w_identity w))) (st, s) (st', s')"
  shows "\<forall>x \<in> set (inflight st). claim_ended (pg_view c s') (w_identity w) (snd x)"
proof -
  let ?env = "orderly_calls (pg_inv c) (pg_view c) (w_identity w)"
  let ?good = "\<lambda>q. loop_ok w (fst q) \<and> pg_inv c (snd q) \<and> tasks_tracked w (\<lambda>_. True) (fst q) \<and>
    handed_back (pg_view c (snd q)) (w_identity w) (inflight st) (fst q) \<and> phase (fst q) \<in> {Finishing, Stopped} \<and>
    (phase (fst q) = Stopped \<longrightarrow> inflight (fst q) = [])"
  have "?good (st, s)"
    using loop_reachable_ok [OF assms(1-3)] loop_reachable_tracked [OF assms(1-3)] assms(4)
    by (simp add: handed_back_def)
  with assms(6) have "?good (st', s')"
  proof (induction rule: rtranclp_induct)
    case (step q q')
    obtain sta sa stb sb where q: "q = (sta, sa)" "q' = (stb, sb)" by (metis prod.collapse)
    have lawful: "loop_step rt w (lawful_calls (pg_inv c)) (sta, sa) (stb, sb)"
      using loop_step_weaken [OF step(2), of "lawful_calls (pg_inv c)"] orderly_lawful q by metis
    have g: "loop_ok w sta" "pg_inv c sa" "tasks_tracked w (\<lambda>_. True) sta"
      "handed_back (pg_view c sa) (w_identity w) (inflight st) sta" "phase sta \<in> {Finishing, Stopped}"
      "phase sta = Stopped \<longrightarrow> inflight sta = []"
      using step(3,4) q by simp_all
    have "loop_ok w stb \<and> pg_inv c sb" using pg.loop_step_ok [OF lawful assms(2) g(1,2)] .
    moreover have "tasks_tracked w (\<lambda>_. True) stb"
      using loop_step_tracked [OF lawful g(3)] g(1) by (simp add: loop_ok_def)
    moreover have "loop_step rt w ?env (sta, sa) (stb, sb)" using step(2) q by simp
    note pg.finishing_step [OF this assms(2) g(1-3,5,4,6)]
    ultimately show ?case by (simp add: q)
  qed simp
  with assms(5) show ?thesis by (auto simp: handed_back_def)
qed

lemma quiet_orderly: "orderly_calls ok view by (quiet_calls t)"
  by (simp add: orderly_calls_def quiet_lawful)

text \<open>The worker is told to stop right after its first claim and aborts the handler.\<close>

theorem shutdown_hands_back_every_job_witness:
  "\<exists>st' s'. rtranclp (loop_step sample_runtime mail_worker (orderly_calls (pg_inv binary_codec) (pg_view binary_codec) ''host:1''))
       ((fst sample_filled)\<lparr>phase := Finishing\<rparr>, snd sample_filled) (st', s') \<and> phase st' = Stopped \<and>
     claim_ended (pg_view binary_codec s') ''host:1'' (tracked sample_job)"
proof -
  let ?env = "orderly_calls (pg_inv binary_codec) (pg_view binary_codec) ''host:1''"
  let ?step = "loop_step sample_runtime mail_worker ?env"
  let ?law = "loop_step sample_runtime mail_worker (lawful_calls (pg_inv binary_codec))"
  define st where "st = fst sample_filled"
  define s where "s = snd sample_filled"
  have reach: "loop_reachable sample_runtime mail_worker (lawful_calls (pg_inv binary_codec)) sample_store (st, s)"
    using sample_filled_reachable [of "lawful_calls (pg_inv binary_codec)"] by (simp add: quiet_lawful st_def s_def)
  obtain t where run: "running st = [(0, t)]"
    using sample_filled_sel(1) by (auto simp: st_def map_eq_Cons_conv)
  have inf: "inflight st = [(0, tracked sample_job)]" "phase st = Filling"
    using sample_filled_sel(2,3) by (simp_all add: st_def tracked_def)
  have "?law (st, s) (st\<lparr>phase := Draining\<rparr>, s)" by (rule loop_fill_shutdown) (simp_all add: inf run)
  moreover have "?law (st\<lparr>phase := Draining\<rparr>, s) (st\<lparr>phase := Draining\<rparr>\<lparr>phase := Finishing\<rparr>, s)"
    by (rule loop_drain_end) simp
  ultimately have fin: "loop_reachable sample_runtime mail_worker (lawful_calls (pg_inv binary_codec)) sample_store
      (st\<lparr>phase := Finishing\<rparr>, s)"
    using loop_next [OF loop_next [OF reach]] by simp
  let ?st1 = "unjoin 0 (st\<lparr>phase := Finishing\<rparr>)"
  have one: "?step (st\<lparr>phase := Finishing\<rparr>, s) (?st1, s)"
    by (rule loop_finish_join [where cs = "quiet_calls 300" and jn = "Join_error 0"])
      (simp_all add: quiet_orderly joinable_def run)
  define s2 where "s2 = release mail_worker (env_at 300) 300 (tracked sample_job) s"
  have two: "?step (?st1, s) (?st1\<lparr>inflight := []\<rparr>, s2)"
    using loop_finish_release [of ?st1 ?env "quiet_calls 300" 0 "tracked sample_job" "[]" sample_runtime mail_worker s 300]
    by (simp add: quiet_orderly s2_def unjoin_def run inf)
  have three: "?step (?st1\<lparr>inflight := []\<rparr>, s2) (?st1\<lparr>inflight := []\<rparr>\<lparr>phase := Stopped\<rparr>, s2)"
    by (rule loop_stop) (simp_all add: unjoin_def run)
  from one two three have steps: "rtranclp ?step (st\<lparr>phase := Finishing\<rparr>, s) (?st1\<lparr>inflight := []\<rparr>\<lparr>phase := Stopped\<rparr>, s2)"
    by (meson converse_rtranclp_into_rtranclp rtranclp.rtrancl_refl)
  with shutdown_hands_back_every_job [OF fin _ sample_inv, of "?st1\<lparr>inflight := []\<rparr>\<lparr>phase := Stopped\<rparr>" s2]
  have "claim_ended (pg_view binary_codec s2) ''host:1'' (tracked sample_job)" by (simp add: inf)
  with steps show ?thesis unfolding st_def s_def by fastforce
qed

section \<open>The loop is a client of the system\<close>

text \<open>Between two calls, the other clients take steps of the system.\<close>

definition system_calls ::
  "runtime \<Rightarrow> 's store_ops \<Rightarrow> ('S, 's) worker set \<Rightarrow> 's \<Rightarrow> 's calls \<Rightarrow> bool" where
  "system_calls rt ops fleet s0 cs \<longleftrightarrow>
     (\<forall>n sys. sys_reachable rt ops fleet s0 sys \<longrightarrow>
        (\<exists>sys'. rtranclp (sys_step rt ops fleet) sys sys' \<and> sys_store sys' = before_call cs n (sys_store sys)))"

text \<open>\<open>sys'\<close> is a reachable system over store \<open>s\<close> that has forgotten nothing \<open>sys\<close> knew.\<close>

definition leads ::
  "runtime \<Rightarrow> 's store_ops \<Rightarrow> ('S, 's) worker set \<Rightarrow> 's \<Rightarrow> 's system \<Rightarrow> 's \<Rightarrow> 's system \<Rightarrow> bool" where
  "leads rt ops fleet s0 sys s sys' \<longleftrightarrow>
     sys_reachable rt ops fleet s0 sys' \<and> sys_store sys' = s \<and>
     sys_runs sys \<subseteq> sys_runs sys' \<and> sys_stale sys \<subseteq> sys_stale sys'"

lemma sys_step_remembers:
  "sys_step rt ops fleet sys sys' \<Longrightarrow> sys_runs sys \<subseteq> sys_runs sys' \<and> sys_stale sys \<subseteq> sys_stale sys'"
  by (induction rule: sys_step.induct) (auto simp: add_run_def split: sum.splits option.splits)

lemma leads_refl: "sys_reachable rt ops fleet s0 sys \<Longrightarrow> leads rt ops fleet s0 sys (sys_store sys) sys"
  by (simp add: leads_def)

lemma leads_trans:
  "leads rt ops fleet s0 sys s sys' \<Longrightarrow> leads rt ops fleet s0 sys' s' sys'' \<Longrightarrow> leads rt ops fleet s0 sys s' sys''"
  by (auto simp: leads_def)

lemma leads_step:
  assumes "sys_reachable rt ops fleet s0 sys" "sys_step rt ops fleet sys sys'"
  shows "leads rt ops fleet s0 sys (sys_store sys') sys'"
  using reach_step [OF assms] sys_step_remembers [OF assms(2)] by (simp add: leads_def)

lemma leads_interference:
  assumes "system_calls rt ops fleet s0 cs" "sys_reachable rt ops fleet s0 sys"
  shows "\<exists>sys'. leads rt ops fleet s0 sys (before_call cs n (sys_store sys)) sys'"
proof -
  obtain sys' where steps: "rtranclp (sys_step rt ops fleet) sys sys'" "sys_store sys' = before_call cs n (sys_store sys)"
    using assms by (auto simp: system_calls_def)
  from steps(1) have "leads rt ops fleet s0 sys (sys_store sys') sys'"
  proof (induction rule: rtranclp_induct)
    case base
    then show ?case using assms(2) by (rule leads_refl)
  next
    case (step mid new)
    then have "sys_reachable rt ops fleet s0 mid" by (simp add: leads_def)
    with step show ?case by (meson leads_step leads_trans)
  qed
  with steps(2) show ?thesis by metis
qed

lemma leads_claim:
  assumes "w \<in> fleet" "sys_reachable rt ops fleet s0 sys"
    and "so_claim_next ops e ks fl (cfg_lease (w_config w)) (w_identity w) (sys_store sys) = (r, s')"
  shows "\<exists>sys'. leads rt ops fleet s0 sys s' sys' \<and> (\<forall>j. r = Inr (Some j) \<longrightarrow> (w_identity w, j) \<in> sys_runs sys')"
proof -
  let ?sys' = "add_run (w_identity w) r (sys\<lparr>sys_store := s'\<rparr>)"
  have "sys_store ?sys' = s'" by (auto simp: add_run_def split: sum.split option.split)
  with leads_step [OF assms(2) step_claim [OF assms(1,3)]] have "leads rt ops fleet s0 sys s' ?sys'" by simp
  moreover have "\<forall>j. r = Inr (Some j) \<longrightarrow> (w_identity w, j) \<in> sys_runs ?sys'" by (simp add: add_run_def)
  ultimately show ?thesis by blast
qed

lemma leads_claim_with_fallback:
  assumes "w \<in> fleet" "w_store w = ops" "system_calls rt ops fleet s0 cs" "sys_reachable rt ops fleet s0 sys"
    and "claim_with_fallback w cs ks fl (sys_store sys) = (r, s')"
  shows "\<exists>sys'. leads rt ops fleet s0 sys s' sys' \<and> (\<forall>j. r = Inr (Some j) \<longrightarrow> (w_identity w, j) \<in> sys_runs sys')"
proof -
  let ?claim = "\<lambda>n fl s. so_claim_next ops (call_at cs n) ks fl (cfg_lease (w_config w)) (w_identity w) s"
  obtain sys1 where sys1: "leads rt ops fleet s0 sys (before_call cs 0 (sys_store sys)) sys1"
    using leads_interference [OF assms(3,4)] by blast
  then have r1: "sys_reachable rt ops fleet s0 sys1" "sys_store sys1 = before_call cs 0 (sys_store sys)"
    by (simp_all add: leads_def)
  obtain q t where first: "?claim 0 fl (sys_store sys1) = (q, t)" by fastforce
  obtain sys2 where sys2: "leads rt ops fleet s0 sys1 t sys2" "\<forall>j. q = Inr (Some j) \<longrightarrow> (w_identity w, j) \<in> sys_runs sys2"
    using leads_claim [OF assms(1) r1(1) first] by blast
  show ?thesis
  proof (cases "q = Inr None \<and> fl \<noteq> FLOOR_ALL")
    case False
    with assms(2,5) first have "r = q \<and> s' = t"
      by (cases q) (auto simp: claim_with_fallback_def Let_def r1(2) split: if_splits)
    with sys1 sys2 show ?thesis by (meson leads_trans)
  next
    case True
    have r2: "sys_reachable rt ops fleet s0 sys2" "sys_store sys2 = t" using sys2(1) by (simp_all add: leads_def)
    obtain sys3 where sys3: "leads rt ops fleet s0 sys2 (before_call cs 1 t) sys3"
      using leads_interference [OF assms(3) r2(1), of 1] r2(2) by auto
    then have r3: "sys_reachable rt ops fleet s0 sys3" "sys_store sys3 = before_call cs 1 t" by (simp_all add: leads_def)
    have "?claim 1 FLOOR_ALL (sys_store sys3) = (r, s')"
      using True assms(2,5) first by (simp add: claim_with_fallback_def Let_def r1(2) r3(2))
    from leads_claim [OF assms(1) r3(1) this] sys1 sys2(1) sys3 show ?thesis by (meson leads_trans)
  qed
qed

lemma leads_settle:
  assumes "w \<in> fleet" "w_store w = ops" "sys_reachable rt ops fleet s0 sys" "(w_identity w, j) \<in> sys_runs sys"
  shows "\<exists>sys'. leads rt ops fleet s0 sys (snd (settle rt w e now (spawn w j hist cancel elapsed) (sys_store sys))) sys'"
    and "\<exists>sys'. leads rt ops fleet s0 sys (release w e now (tracked j) (sys_store sys)) sys'"
    and "\<exists>sys'. leads rt ops fleet s0 sys (apply_task_lease w e j (sys_store sys)) sys'"
proof -
  obtain r s' where out: "settle rt w e now (spawn w j hist cancel elapsed) (sys_store sys) = (r, s')" by fastforce
  from leads_step [OF assms(3) step_settle [OF assms(1,2,4) out]] out
  show "\<exists>sys'. leads rt ops fleet s0 sys (snd (settle rt w e now (spawn w j hist cancel elapsed) (sys_store sys))) sys'"
    by auto
  from leads_step [OF assms(3) step_release [OF assms(1,2,4) refl]]
  show "\<exists>sys'. leads rt ops fleet s0 sys (release w e now (tracked j) (sys_store sys)) sys'" by auto
  from leads_step [OF assms(3) step_lease [OF assms(1,2,4) refl]]
  show "\<exists>sys'. leads rt ops fleet s0 sys (apply_task_lease w e j (sys_store sys)) sys'" by auto
qed

lemma leads_recover_all:
  assumes "w \<in> fleet" "w_store w = ops" "system_calls rt ops fleet s0 cs"
    and "sys_reachable rt ops fleet s0 sys" "set js \<subseteq> sys_stale sys"
  shows "\<exists>sys'. leads rt ops fleet s0 sys (recover_all rt w cs now n js (sys_store sys)) sys'"
  using assms(4,5)
proof (induction js arbitrary: n sys)
  case Nil
  then show ?case using leads_refl [OF Nil(1)] by (auto intro: exI [of _ sys])
next
  case (Cons j js)
  obtain sys1 where sys1: "leads rt ops fleet s0 sys (before_call cs n (sys_store sys)) sys1"
    using leads_interference [OF assms(3) Cons(2)] by blast
  then have r1: "sys_reachable rt ops fleet s0 sys1" "sys_store sys1 = before_call cs n (sys_store sys)" "j \<in> sys_stale sys1"
    "set js \<subseteq> sys_stale sys1"
    using Cons(3) by (auto simp: leads_def)
  obtain r s' where out: "recover_one rt w (call_at cs n) now j (sys_store sys1) = (r, s')" by fastforce
  let ?sys2 = "sys1\<lparr>sys_store := s'\<rparr>"
  have sys2: "leads rt ops fleet s0 sys1 s' ?sys2"
    using leads_step [OF r1(1) step_recover [OF assms(1,2) r1(3) out]] by simp
  then have "\<exists>sys'. leads rt ops fleet s0 ?sys2 (recover_all rt w cs now (n + 1) js (sys_store ?sys2)) sys'"
    using r1(4) by (intro Cons.IH) (simp_all add: leads_def)
  moreover have "recover_all rt w cs now n (j # js) (sys_store sys) = recover_all rt w cs now (n + 1) js (sys_store ?sys2)"
    using out by (simp add: r1(2))
  ultimately show ?case using sys1 sys2 by (metis leads_trans)
qed

lemma leads_recover_stale:
  assumes "w \<in> fleet" "w_store w = ops" "system_calls rt ops fleet s0 cs" "sys_reachable rt ops fleet s0 sys"
  shows "\<exists>sys'. leads rt ops fleet s0 sys (recover_stale rt w cs now (sys_store sys)) sys'"
proof -
  obtain sys1 where sys1: "leads rt ops fleet s0 sys (before_call cs 0 (sys_store sys)) sys1"
    using leads_interference [OF assms(3,4)] by blast
  then have r1: "sys_reachable rt ops fleet s0 sys1" "sys_store sys1 = before_call cs 0 (sys_store sys)"
    by (simp_all add: leads_def)
  show ?thesis
  proof (cases "so_find_stale ops (call_at cs 0) (sys_store sys1)")
    case (Inl x)
    then show ?thesis using sys1 assms(2) by (auto simp: recover_stale_def Let_def r1(2))
  next
    case (Inr js)
    let ?sys2 = "sys1\<lparr>sys_stale := sys_stale sys1 \<union> set js\<rparr>"
    have sys2: "leads rt ops fleet s0 sys1 (sys_store sys1) ?sys2"
      using leads_step [OF r1(1) step_find_stale [OF Inr]] by simp
    then have "\<exists>sys'. leads rt ops fleet s0 ?sys2 (recover_all rt w cs now 1 js (sys_store ?sys2)) sys'"
      using assms(1-3) by (intro leads_recover_all) (simp_all add: leads_def)
    moreover have "recover_stale rt w cs now (sys_store sys) = recover_all rt w cs now 1 js (sys_store ?sys2)"
      using Inr assms(2) by (simp add: recover_stale_def Let_def r1(2))
    ultimately show ?thesis using sys1 sys2 by (metis leads_trans)
  qed
qed

lemma leads_fill_slot:
  assumes "w \<in> fleet" "w_store w = ops" "system_calls rt ops fleet s0 cs" "sys_reachable rt ops fleet s0 sys"
    and "tasks_tracked w (\<lambda>j. (w_identity w, j) \<in> sys_runs sys) st" "ids_ok st"
  shows "\<exists>sys'. leads rt ops fleet s0 sys (snd (fill_slot w cs ks st (sys_store sys))) sys' \<and>
    tasks_tracked w (\<lambda>j. (w_identity w, j) \<in> sys_runs sys') (fst (fill_slot w cs ks st (sys_store sys)))"
proof -
  let ?fl = "floor_for (claim_counter st + 1) (cfg_priority_ratio (w_config w))"
  let ?out = "fill_slot w cs ks st (sys_store sys)"
  obtain r s1 where claim: "claim_with_fallback w cs ks ?fl (sys_store sys) = (r, s1)" by fastforce
  obtain sys1 where sys1: "leads rt ops fleet s0 sys s1 sys1" "\<forall>j. r = Inr (Some j) \<longrightarrow> (w_identity w, j) \<in> sys_runs sys1"
    using leads_claim_with_fallback [OF assms(1-4) claim] by blast
  have tracked: "tasks_tracked w (\<lambda>j. (w_identity w, j) \<in> sys_runs sys') (fst ?out)" if "leads rt ops fleet s0 sys1 s sys'" for s sys'
  proof (rule fill_slot_tracked [OF tasks_tracked_mono [OF assms(5)] assms(6)])
    show "(w_identity w, j) \<in> sys_runs sys'" if "(w_identity w, j) \<in> sys_runs sys" for j
      using that sys1(1) \<open>leads rt ops fleet s0 sys1 s sys'\<close> by (auto simp: leads_def)
    show "(w_identity w, j) \<in> sys_runs sys'" if "claim_with_fallback w cs ks ?fl (sys_store sys) = (Inr (Some j), s2)" for j s2
      using that claim sys1(2) \<open>leads rt ops fleet s0 sys1 s sys'\<close> by (auto simp: leads_def)
  qed
  have r1: "sys_reachable rt ops fleet s0 sys1" "sys_store sys1 = s1" using sys1(1) by (simp_all add: leads_def)
  show ?thesis
  proof (cases "\<exists>j. r = Inr (Some j)")
    case False
    then have "snd ?out = s1" by (auto simp: fill_slot_def claim Let_def split: sum.split option.split)
    with sys1(1) tracked [OF leads_refl [OF r1(1)]] show ?thesis by auto
  next
    case True
    then obtain j where j: "r = Inr (Some j)" by blast
    obtain sys2 where sys2: "leads rt ops fleet s0 sys1 (before_call cs 2 s1) sys2"
      using leads_interference [OF assms(3) r1(1), of 2] r1(2) by auto
    have r2: "sys_reachable rt ops fleet s0 sys2" "sys_store sys2 = before_call cs 2 s1" "(w_identity w, j) \<in> sys_runs sys2"
      using sys1(2) j sys2 by (auto simp: leads_def)
    obtain sys3 where sys3: "leads rt ops fleet s0 sys2 (apply_task_lease w (call_at cs 2) j (before_call cs 2 s1)) sys3"
      using leads_settle(3) [OF assms(1,2) r2(1,3), of "call_at cs 2"] r2(2) by auto
    then have r3: "sys_reachable rt ops fleet s0 sys3"
      "sys_store sys3 = apply_task_lease w (call_at cs 2) j (before_call cs 2 s1)" by (simp_all add: leads_def)
    obtain sys4 where sys4: "leads rt ops fleet s0 sys3 (before_call cs 3 (sys_store sys3)) sys4"
      using leads_interference [OF assms(3) r3(1)] by blast
    have "snd ?out = before_call cs 3 (sys_store sys3)" by (simp add: fill_slot_def claim j Let_def r3(2))
    moreover have from1: "leads rt ops fleet s0 sys1 (before_call cs 3 (sys_store sys3)) sys4"
      using sys2 sys3 sys4 by (meson leads_trans)
    ultimately show ?thesis using tracked [OF from1] leads_trans [OF sys1(1) from1] by auto
  qed
qed

text \<open>The store of a loop configuration is that of a reachable system which knows the loop's runs.\<close>

definition embedded ::
  "runtime \<Rightarrow> 's store_ops \<Rightarrow> ('S, 's) worker set \<Rightarrow> 's \<Rightarrow> ('S, 's) worker \<Rightarrow> loop_state \<Rightarrow> 's \<Rightarrow> 's system \<Rightarrow> bool" where
  "embedded rt ops fleet s0 w st s sys \<longleftrightarrow>
     sys_reachable rt ops fleet s0 sys \<and> sys_store sys = s \<and>
     tasks_tracked w (\<lambda>j. (w_identity w, j) \<in> sys_runs sys) st"

lemma embedded_leads:
  assumes "leads rt ops fleet s0 sys s' sys'" "tasks_tracked w (\<lambda>j. (w_identity w, j) \<in> sys_runs sys) st'"
  shows "embedded rt ops fleet s0 w st' s' sys'"
  using assms(1) tasks_tracked_mono [OF assms(2), of "\<lambda>j. (w_identity w, j) \<in> sys_runs sys'"]
  by (auto simp: leads_def embedded_def)

lemma embedded_join:
  assumes "w \<in> fleet" "w_store w = ops" "system_calls rt ops fleet s0 cs" "embedded rt ops fleet s0 w st s sys"
    and "joinable st jn"
  shows "\<exists>sys'. leads rt ops fleet s0 sys (snd (reap rt w (call_at cs n) now jn st' (before_call cs n s))) sys'"
    and "\<exists>sys'. leads rt ops fleet s0 sys (snd (finish_join rt w (call_at cs n) now jn st' (before_call cs n s))) sys'"
proof -
  have sys: "sys_reachable rt ops fleet s0 sys" "sys_store sys = s" "tasks_tracked w (\<lambda>j. (w_identity w, j) \<in> sys_runs sys) st"
    using assms(4) by (simp_all add: embedded_def)
  obtain sys1 where sys1: "leads rt ops fleet s0 sys (before_call cs n s) sys1"
    using leads_interference [OF assms(3) sys(1), of n] sys(2) by auto
  then have r1: "sys_reachable rt ops fleet s0 sys1" "sys_store sys1 = before_call cs n s" by (simp_all add: leads_def)
  have "\<exists>sys'. leads rt ops fleet s0 sys (snd (settle rt w (call_at cs n) now fin (before_call cs n s))) sys'"
    if jn: "jn = Finished i fin" for i fin
  proof -
    from joined_run [OF sys(3) assms(5) [unfolded jn]] obtain j hist cancel elapsed where
      j: "(w_identity w, j) \<in> sys_runs sys" "fin = spawn w j hist cancel elapsed" by metis
    have "(w_identity w, j) \<in> sys_runs sys1" using j(1) sys1 by (auto simp: leads_def)
    from leads_settle(1) [OF assms(1,2) r1(1) this, of "call_at cs n" now hist cancel elapsed] sys1 show ?thesis
      unfolding j(2) r1(2) by (meson leads_trans)
  qed
  then show "\<exists>sys'. leads rt ops fleet s0 sys (snd (reap rt w (call_at cs n) now jn st' (before_call cs n s))) sys'"
    "\<exists>sys'. leads rt ops fleet s0 sys (snd (finish_join rt w (call_at cs n) now jn st' (before_call cs n s))) sys'"
    using sys1 by (cases jn; auto)+
qed

lemma leads_release:
  assumes "w \<in> fleet" "w_store w = ops" "system_calls rt ops fleet s0 cs" "sys_reachable rt ops fleet s0 sys"
    and "(w_identity w, j) \<in> sys_runs sys"
  shows "\<exists>sys'. leads rt ops fleet s0 sys (release w (call_at cs n) now (tracked j) (before_call cs n (sys_store sys))) sys'"
proof -
  obtain sys1 where sys1: "leads rt ops fleet s0 sys (before_call cs n (sys_store sys)) sys1"
    using leads_interference [OF assms(3,4), of n] by auto
  then have "sys_reachable rt ops fleet s0 sys1" "sys_store sys1 = before_call cs n (sys_store sys)"
    "(w_identity w, j) \<in> sys_runs sys1"
    using assms(5) by (auto simp: leads_def)
  from leads_settle(2) [OF assms(1,2) this(1,3), of "call_at cs n" now] sys1 this(2) show ?thesis by (metis leads_trans)
qed

lemma embedded_step:
  assumes "loop_step rt w (system_calls rt ops fleet s0) (st, s) (st', s')" "w \<in> fleet" "w_store w = ops"
    and "embedded rt ops fleet s0 w st s sys" "ids_ok st"
  shows "\<exists>sys'. embedded rt ops fleet s0 w st' s' sys'"
proof -
  let ?K = "\<lambda>j. (w_identity w, j) \<in> sys_runs sys"
  have sys: "sys_reachable rt ops fleet s0 sys" "sys_store sys = s" "tasks_tracked w ?K st"
    using assms(4) by (simp_all add: embedded_def)
  note settle = embedded_join [OF assms(2,3) _ assms(4)]
  show ?thesis
    using assms(1)
  proof cases
    case (loop_recover cs now)
    then obtain sys' where "leads rt ops fleet s0 sys s' sys'"
      using leads_recover_stale [OF assms(2,3) _ sys(1), of cs now] sys(2) by auto
    from embedded_leads [OF this, of w st'] loop_recover(1) sys(3) show ?thesis by auto
  next
    case (loop_fill cs ks)
    then have "st' = fst (fill_slot w cs ks st s)" "s' = snd (fill_slot w cs ks st s)" by (metis fst_conv, metis snd_conv)
    with leads_fill_slot [OF assms(2,3) loop_fill(3) sys(1,3) assms(5), of ks] sys(2) show ?thesis
      by (auto simp: embedded_def leads_def)
  next
    case (loop_join cs jn now st1)
    from settle(1) [OF loop_join(3,4), of 0 now] loop_join(5)
    obtain sys' where "leads rt ops fleet s0 sys s' sys'" by (metis snd_conv)
    moreover have "st1 = forget (joined_id jn) (unjoin (joined_id jn) st)" using loop_join(5) reap_fst by (metis fst_conv)
    then have "tasks_tracked w ?K st'" using sys(3) loop_join(1) by (simp add: tasks_tracked_forget)
    ultimately have "embedded rt ops fleet s0 w st' s' sys'" by (rule embedded_leads)
    then show ?thesis ..
  next
    case (loop_drain_join cs jn now)
    from settle(1) [OF loop_drain_join(2,3), of 0 now] loop_drain_join(4)
    obtain sys' where "leads rt ops fleet s0 sys s' sys'" unfolding drain_join_def by (metis snd_conv)
    moreover have "st' = forget (joined_id jn) (unjoin (joined_id jn) st)"
      using loop_drain_join(4) reap_fst unfolding drain_join_def by (metis fst_conv)
    then have "tasks_tracked w ?K st'" using sys(3) by (simp add: tasks_tracked_forget)
    ultimately have "embedded rt ops fleet s0 w st' s' sys'" by (rule embedded_leads)
    then show ?thesis ..
  next
    case (loop_finish_join cs jn now)
    from settle(2) [OF loop_finish_join(2,3), of 0 now] loop_finish_join(4)
    obtain sys' where "leads rt ops fleet s0 sys s' sys'" by (metis snd_conv)
    moreover have "tasks_tracked w ?K st'" using tasks_tracked_finish [OF sys(3)] loop_finish_join(4) by (metis fst_conv)
    ultimately have "embedded rt ops fleet s0 w st' s' sys'" by (rule embedded_leads)
    then show ?thesis ..
  next
    case (loop_finish_release cs task_id job rest now)
    then obtain j where j: "job = tracked j" "?K j" using sys(3) by (auto simp: tasks_tracked_def tracks_def)
    obtain sys' where "leads rt ops fleet s0 sys s' sys'"
      using leads_release [OF assms(2,3) loop_finish_release(4) sys(1) j(2)] sys(2) loop_finish_release(2) j(1) by metis
    moreover have "tasks_tracked w ?K st'" using sys(3) loop_finish_release(1,5,6) by (auto simp: tasks_tracked_def tracks_def)
    ultimately have "embedded rt ops fleet s0 w st' s' sys'" by (rule embedded_leads)
    then show ?thesis ..
  qed (use sys in \<open>auto simp: embedded_def intro!: exI [of _ sys]\<close>)
qed

section \<open>Executions of the loop\<close>

lemma loop_reachable_weaken:
  assumes "loop_reachable rt w env s0 q" "\<And>cs. env cs \<Longrightarrow> env' cs"
  shows "loop_reachable rt w env' s0 q"
  using assms(1) by (induction rule: loop_reachable.induct)
    (auto intro: loop_reachable.intros loop_step_weaken assms(2))

lemma loop_reachable_embedded:
  assumes "loop_reachable rt w (\<lambda>cs. system_calls rt (pg_ops c) fleet pg_empty cs \<and> lawful_calls (pg_inv c) cs)
      (sys_store sys0) (st, s)"
    and "ulid_codec_ok c" "w \<in> fleet" "w_store w = pg_ops c" "pg_reachable rt c fleet sys0"
  shows "\<exists>sys. embedded rt (pg_ops c) fleet pg_empty w st s sys"
  using assms(1)
proof (induction "(st, s)" arbitrary: st s rule: loop_reachable.induct)
  case loop_start
  then show ?case using assms(5) by (auto simp: embedded_def pg_reachable_def tasks_tracked_init)
next
  case (loop_next q)
  obtain sta sa where q: "q = (sta, sa)" by fastforce
  then obtain sys where sys: "embedded rt (pg_ops c) fleet pg_empty w sta sa sys" using loop_next by blast
  have "loop_reachable rt w (lawful_calls (pg_inv c)) (sys_store sys0) (sta, sa)"
    using loop_next(1) q by (auto intro: loop_reachable_weaken)
  from loop_reachable_ok [OF this assms(4)] pg_reachable_audit(1) [OF assms(2,5)]
  have "ids_ok sta" by (simp add: loop_ok_def)
  moreover have "loop_step rt w (system_calls rt (pg_ops c) fleet pg_empty) (sta, sa) (st, s)"
    using loop_next(3) q by (auto intro: loop_step_weaken)
  from embedded_step [OF this assms(3,4) sys] calculation show ?case by blast
qed

end
