(* ===== verification/Observability.thy ===== *)
theory Observability
  imports Queue_Model Worker_System
begin

text \<open>
  Lifecycle instrumentation (\<^verbatim>\<open>src/observability.rs\<close>) and its call sites in the queue handle and the
  worker. The \<^verbatim>\<open>tracing\<close> and \<^verbatim>\<open>metrics\<close> facades are third-party: what is modelled is the stream of
  events, counter increments and histogram samples the crate hands to them. The flag \<open>m\<close> is the \<^verbatim>\<open>metrics\<close> feature,
  \<open>rnd\<close> the rounding of floating-point results. The warnings that the worker logs about failing calls are
  not lifecycle events and are left out.
\<close>

section \<open>Emissions\<close>

datatype level = Debug | Info | Warn

datatype field = Text string | Number u64 | Size nat

datatype emission =
    Event level "(string \<times> field) list" string
  | Increment string "(string \<times> string) list" nat
  | Sample string "(string \<times> string) list" real

text \<open>\<^verbatim>\<open>Duration::as_millis() as u64\<close> truncates; \<^verbatim>\<open>Duration::as_secs_f64\<close> rounds each of its steps.\<close>

definition as_millis_u64 :: "duration \<Rightarrow> u64" where
  "as_millis_u64 d = of_nat (d div 10 ^ 6)"

definition as_secs_f64 :: "(real \<Rightarrow> real) \<Rightarrow> duration \<Rightarrow> real" where
  "as_secs_f64 rnd d = rnd (rnd (real (d div 10 ^ 9)) + rnd (rnd (real (d mod 10 ^ 9)) / 10 ^ 9))"

definition enqueued :: "bool \<Rightarrow> string \<Rightarrow> emission list" where
  "enqueued m kind =
     Event Debug [(''kind'', Text kind)] ''job enqueued'' #
     (if m then [Increment ''venturi_jobs_enqueued_total'' [(''kind'', kind)] 1] else [])"

definition merged :: "bool \<Rightarrow> string \<Rightarrow> emission list" where
  "merged m kind =
     Event Debug [(''kind'', Text kind)] ''enqueue merged into a pending job'' #
     (if m then [Increment ''venturi_jobs_merged_total'' [(''kind'', kind)] 1] else [])"

definition claimed :: "bool \<Rightarrow> (real \<Rightarrow> real) \<Rightarrow> string \<Rightarrow> duration \<Rightarrow> emission list" where
  "claimed m rnd kind wait =
     Event Debug [(''kind'', Text kind), (''wait_ms'', Number (as_millis_u64 wait))] ''job claimed'' #
     (if m then [Increment ''venturi_jobs_claimed_total'' [(''kind'', kind)] 1,
                 Sample ''venturi_claim_latency_seconds'' [(''kind'', kind)] (as_secs_f64 rnd wait)]
      else [])"

definition settled :: "bool \<Rightarrow> (real \<Rightarrow> real) \<Rightarrow> string \<Rightarrow> journal_outcome \<Rightarrow> duration \<Rightarrow> emission list" where
  "settled m rnd kind outcome handler_duration =
     Event Debug [(''kind'', Text kind), (''outcome'', Text (outcome_as_str outcome)),
                  (''handler_ms'', Number (as_millis_u64 handler_duration))] ''job settled'' #
     (if m then [Increment ''venturi_jobs_settled_total'' [(''kind'', kind), (''outcome'', outcome_as_str outcome)] 1,
                 Sample ''venturi_handler_duration_seconds'' [(''kind'', kind)] (as_secs_f64 rnd handler_duration)]
      else [])"

definition recovered :: "bool \<Rightarrow> string \<Rightarrow> emission list" where
  "recovered m kind =
     Event Warn [(''kind'', Text kind)] ''stale claim recovered'' #
     (if m then [Increment ''venturi_jobs_recovered_total'' [(''kind'', kind)] 1] else [])"

definition shutdown_drain :: "nat \<Rightarrow> emission list" where
  "shutdown_drain in_flight =
     [Event Info [(''in_flight'', Size in_flight)] ''graceful shutdown: draining in-flight handlers'']"

text \<open>The value of a counter, summed over the series that carry the given labels.\<close>

fun amount :: "string \<Rightarrow> (string \<times> string) list \<Rightarrow> emission \<Rightarrow> nat" where
  "amount name labels (Increment name' labels' n) = (if name' = name \<and> set labels \<subseteq> set labels' then n else 0)"
| "amount name labels _ = 0"

definition total :: "string \<Rightarrow> (string \<times> string) list \<Rightarrow> emission list \<Rightarrow> nat" where
  "total name labels es = sum_list (map (amount name labels) es)"

abbreviation enqueued_total where "enqueued_total \<equiv> total ''venturi_jobs_enqueued_total''"
abbreviation merged_total where "merged_total \<equiv> total ''venturi_jobs_merged_total''"
abbreviation claimed_total where "claimed_total \<equiv> total ''venturi_jobs_claimed_total''"
abbreviation settled_total where "settled_total \<equiv> total ''venturi_jobs_settled_total''"
abbreviation recovered_total where "recovered_total \<equiv> total ''venturi_jobs_recovered_total''"

lemma total_append [simp]: "total n ls (es @ fs) = total n ls es + total n ls fs" "total n ls [] = 0"
  by (simp_all add: total_def)

lemmas emits_def = enqueued_def merged_def claimed_def settled_def recovered_def shutdown_drain_def

lemma enqueue_totals [simp]:
  "enqueued_total [(''kind'', k)] (enqueued True k') = (if k = k' then 1 else 0)" "merged_total ls (enqueued True k') = 0"
  "merged_total [(''kind'', k)] (merged True k') = (if k = k' then 1 else 0)" "enqueued_total ls (merged True k') = 0"
  by (simp_all add: emits_def total_def)

lemma claimed_totals [simp]:
  "claimed_total [(''kind'', k)] (claimed True rnd k' d) = (if k = k' then 1 else 0)"
  "settled_total ls (claimed True rnd k' d) = 0" "recovered_total ls (claimed True rnd k' d) = 0"
  by (simp_all add: emits_def total_def)

lemma settled_totals [simp]:
  "settled_total [(''kind'', k)] (settled True rnd k' out d) = (if k = k' then 1 else 0)"
  "settled_total [(''kind'', k), (''outcome'', o')] (settled True rnd k' out d) = (if k = k' \<and> o' = outcome_as_str out then 1 else 0)"
  "claimed_total ls (settled True rnd k' out d) = 0" "recovered_total ls (settled True rnd k' out d) = 0"
  by (simp_all add: emits_def total_def)

lemma recovered_totals [simp]:
  "recovered_total [(''kind'', k)] (recovered True k') = (if k = k' then 1 else 0)"
  "claimed_total ls (recovered True k') = 0" "settled_total ls (recovered True k') = 0"
  by (simp_all add: emits_def total_def)

lemma shutdown_totals [simp]: "total n ls (shutdown_drain k) = 0"
  by (simp add: emits_def total_def)

section \<open>The queue handle\<close>

text \<open>
  \<^verbatim>\<open>Queue::insert\<close>, \<^verbatim>\<open>apply_merge\<close> and \<^verbatim>\<open>submit\<close> with their emissions: the event follows the store call and is
  skipped when the call returns early with an error.
\<close>

definition insert_emitting ::
  "bool \<Rightarrow> 's store_ops \<Rightarrow> ('t, 'c) task_def \<Rightarrow> 's calls \<Rightarrow> nat \<Rightarrow> ulid \<Rightarrow> 't \<Rightarrow> datetime \<Rightarrow> datetime
    \<Rightarrow> string option \<Rightarrow> 's \<Rightarrow> ulid res \<times> 's \<times> emission list" where
  "insert_emitting m ops T cs n uid task created_at visible_at key s =
     (let (r, s') = queue_insert ops T cs n uid task created_at visible_at key s
      in (r, s', case r of Inr _ \<Rightarrow> enqueued m (KIND T) | Inl _ \<Rightarrow> []))"

definition apply_merge_emitting ::
  "bool \<Rightarrow> 's store_ops \<Rightarrow> ('t, 'c) task_def \<Rightarrow> 's calls \<Rightarrow> nat \<Rightarrow> ulid \<Rightarrow> datetime \<Rightarrow> job_record
    \<Rightarrow> merge_payload option \<Rightarrow> 't \<Rightarrow> datetime \<Rightarrow> datetime \<Rightarrow> string \<Rightarrow> 's \<Rightarrow> ulid res \<times> 's \<times> emission list" where
  "apply_merge_emitting m ops T cs n uid now candidate update incoming created_at visible_at key s =
     (let journal = \<lparr>app_kind = job_kind candidate, app_run_no = job_run_count candidate,
                     app_recorded_at = now, app_outcome = JMerged,
                     app_note = Some ''enqueue merged into pending job'', app_attachment = None\<rparr>;
          (r, s1) = so_merge_into ops (call_at cs n) (job_id candidate) update journal
                      (before_call cs n s)
      in case r of
           Inl x \<Rightarrow> (Inl x, s1, [])
         | Inr done_ \<Rightarrow>
             if done_ then (Inr (job_id candidate), s1, merged m (job_kind candidate))
             else insert_emitting m ops T cs (n + 1) uid incoming created_at visible_at (Some key) s1)"

definition submit_emitting ::
  "bool \<Rightarrow> 's store_ops \<Rightarrow> ('t, 'c) task_def \<Rightarrow> 's calls \<Rightarrow> ulid \<Rightarrow> datetime \<Rightarrow> 't \<Rightarrow> datetime \<Rightarrow> datetime
    \<Rightarrow> 's \<Rightarrow> ulid res \<times> 's \<times> emission list" where
  "submit_emitting m ops T cs uid now task created_at visible_at s =
     (case task_dedup_key T task of
        None \<Rightarrow> insert_emitting m ops T cs 0 uid task created_at visible_at None s
      | Some dedup_key \<Rightarrow>
          let key = as_str dedup_key;
              s0 = before_call cs 0 s
          in case so_dedup_candidate ops (call_at cs 0) (KIND T) key s0 of
               Inl x \<Rightarrow> (Inl x, s0, [])
             | Inr None \<Rightarrow> insert_emitting m ops T cs 1 uid task created_at visible_at (Some key) s0
             | Inr (Some candidate) \<Rightarrow>
            (case from_serde (from_value T (job_payload candidate)) of
               Inl x \<Rightarrow> (Inl x, s0, [])
             | Inr existing_payload \<Rightarrow>
            (case (if is_null (job_carry candidate) then Inr (carry_default T)
                   else from_serde (carry_from_value T (job_carry candidate))) of
               Inl x \<Rightarrow> (Inl x, s0, [])
             | Inr existing_carry \<Rightarrow>
            (let s1 = before_call cs 1 s0 in
             case so_journal ops (call_at cs 1) (job_id candidate) s1 of
               Inl x \<Rightarrow> (Inl x, s1, [])
             | Inr records \<Rightarrow>
                 let pend = pending_new existing_payload existing_carry (job_run_count candidate)
                              (map from_record records)
                 in case task_merge T task pend of
                      Independent \<Rightarrow>
                        insert_emitting m ops T cs 2 uid task created_at visible_at (Some key) s1
                    | Keep \<Rightarrow>
                        apply_merge_emitting m ops T cs 2 uid now candidate None task created_at visible_at key s1
                    | Replace \<Rightarrow>
                        (case merge_update T task (carry_default T) of
                           Inl x \<Rightarrow> (Inl x, s1, [])
                         | Inr update \<Rightarrow>
                             apply_merge_emitting m ops T cs 2 uid now candidate (Some update) task created_at
                               visible_at key s1)
                    | With both carry \<Rightarrow>
                        (case merge_update T both carry of
                           Inl x \<Rightarrow> (Inl x, s1, [])
                         | Inr update \<Rightarrow>
                             apply_merge_emitting m ops T cs 2 uid now candidate (Some update) task created_at
                               visible_at key s1)))))"

definition silent :: "'r \<times> 's \<times> emission list \<Rightarrow> 'r \<times> 's" where
  "silent x = (fst x, fst (snd x))"

lemma silent_simp [simp]: "silent (r, s, es) = (r, s)"
  by (simp add: silent_def)

text \<open>Taking the emissions away leaves the operations of \<^verbatim>\<open>Queue_Model\<close>.\<close>

lemma insert_silent [simp]: "silent (insert_emitting m ops T cs n uid task cr vis key s) = queue_insert ops T cs n uid task cr vis key s"
  by (simp add: insert_emitting_def split: prod.split)

lemma merge_silent [simp]:
  "silent (apply_merge_emitting m ops T cs n uid now cand u task cr vis key s) = apply_merge ops T cs n uid now cand u task cr vis key s"
  by (simp add: apply_merge_emitting_def apply_merge_def Let_def split: prod.split sum.split)

lemma submit_silent: "silent (submit_emitting m ops T cs uid now task cr vis s) = submit ops T cs uid now task cr vis s"
  by (simp add: submit_emitting_def submit_def Let_def split: option.split sum.split merge_decision.split)

text \<open>What an enqueue emitted tells which way it went.\<close>

lemma insert_emits:
  assumes "insert_emitting m ops T cs n uid task cr vis key s = (r, s', es)"
  shows "es = (case r of Inr _ \<Rightarrow> enqueued m (KIND T) | Inl _ \<Rightarrow> [])"
    "queue_insert ops T cs n uid task cr vis key s = (r, s')"
  using assms by (auto simp: insert_emitting_def split: prod.splits)

lemma merge_emits_error:
  "apply_merge_emitting m ops T cs n uid now cand u task cr vis key s = (Inl x, s', es) \<Longrightarrow> es = []"
  by (auto simp: apply_merge_emitting_def Let_def dest: insert_emits split: prod.splits sum.splits if_splits)

lemma submit_emits_error:
  assumes "submit_emitting m ops T cs uid now task cr vis s = (Inl x, s', es)"
  shows "es = []"
  using assms
  by (auto simp: submit_emitting_def Let_def dest: insert_emits merge_emits_error
      split: option.splits sum.splits merge_decision.splits)

context store_writes
begin

lemma insert_success:
  assumes "fair_calls invar view uid cs" "invar s" "a_job (view s) uid = None"
    and "key = map_option as_str (task_dedup_key T task)"
    and "insert_emitting m ops T cs n uid task cr vis key s = (Inr i, s', es)"
  shows "es = enqueued m (KIND T) \<and> stored_fresh T uid task cr vis i (view s')"
  using insert_emits [OF assms(5)] queue_insert_outcome [OF assms(1-4) insert_emits(2) [OF assms(5)]] by simp

lemma merge_emits:
  assumes "fair_calls invar view uid cs" "invar s" "a_job (view s) uid = None"
    and "merge_valid u" "task_dedup_key T task = Some dk"
    and "apply_merge_emitting m ops T cs n uid now cand u task cr vis (as_str dk) s = (Inr i, s', es)"
  shows "es = enqueued m (KIND T) \<and> stored_fresh T uid task cr vis i (view s') \<or>
    es = merged m (job_kind cand) \<and> a_journal (view s') i \<noteq> []"
proof -
  let ?s = "before_call cs n s"
  let ?ja = "\<lparr>app_kind = job_kind cand, app_run_no = job_run_count cand, app_recorded_at = now,
    app_outcome = JMerged, app_note = Some ''enqueue merged into pending job'', app_attachment = None\<rparr>"
  have s: "invar ?s" "a_job (view ?s) uid = None" using assms(1-3) by (simp_all add: fair_calls_def)
  obtain b s1 where call: "so_merge_into ops (call_at cs n) (job_id cand) u ?ja ?s = (Inr b, s1)"
    using assms(6) by (auto simp: apply_merge_emitting_def Let_def split: prod.splits sum.splits)
  have inv1: "invar s1" using merge_inv [OF s(1) assms(4)] call by (metis snd_conv)
  have spec: "b = fst (spec_merge u ?ja (job_id cand) (view ?s))" "view s1 = snd (spec_merge u ?ja (job_id cand) (view ?s))"
    using merge_conforms [OF s(1) assms(4), of "call_at cs n" "job_id cand" ?ja]
    by (simp_all add: call conforms_Inr)
  show ?thesis
  proof (cases b)
    case True
    with assms(6) call have "i = job_id cand" "s' = s1" "es = merged m (job_kind cand)"
      by (simp_all add: apply_merge_emitting_def)
    then show ?thesis using spec True by (auto simp: spec_merge_def guarded_def split: option.splits if_splits)
  next
    case False
    with spec have new1: "a_job (view s1) uid = None" using s(2) by (auto simp: spec_merge_def guarded_def split: option.splits if_splits)
    have "insert_emitting m ops T cs (n + 1) uid task cr vis (Some (as_str dk)) s1 = (Inr i, s', es)"
      using False assms(6) call by (simp add: apply_merge_emitting_def)
    from insert_success [OF assms(1) inv1 new1 _ this] show ?thesis using assms(5) by simp
  qed
qed

lemma submit_emits:
  assumes fair: "fair_calls invar view uid cs" and inv: "invar s" and new: "a_job (view s) uid = None"
    and out: "submit_emitting m ops T cs uid now task cr vis s = (Inr i, s', es)"
  shows "es = enqueued m (KIND T) \<and> stored_fresh T uid task cr vis i (view s') \<or>
    es = merged m (KIND T) \<and> a_journal (view s') i \<noteq> []"
proof (cases "task_dedup_key T task")
  case None
  with out have "insert_emitting m ops T cs 0 uid task cr vis None s = (Inr i, s', es)" by (simp add: submit_emitting_def)
  from insert_success [OF fair inv new _ this] show ?thesis using None by simp
next
  case dk: (Some dk)
  let ?s0 = "before_call cs 0 s"
  let ?s1 = "before_call cs 1 ?s0"
  have s0: "invar ?s0" "a_job (view ?s0) uid = None" using fair inv new by (simp_all add: fair_calls_def)
  then have s1: "invar ?s1" "a_job (view ?s1) uid = None" using fair by (simp_all add: fair_calls_def)
  have ins: "es = enqueued m (KIND T) \<and> stored_fresh T uid task cr vis i (view s')"
    if "insert_emitting m ops T cs n uid task cr vis (Some (as_str dk)) t = (Inr i, s', es)"
      "invar t" "a_job (view t) uid = None" for n t
    using insert_success [OF fair that(2,3) _ that(1)] dk by simp
  obtain r where r: "so_dedup_candidate ops (call_at cs 0) (KIND T) (as_str dk) ?s0 = Inr r"
    using out by (auto simp: submit_emitting_def dk Let_def split: sum.splits)
  show ?thesis
  proof (cases r)
    case None
    with out r ins [OF _ s0] show ?thesis by (simp add: submit_emitting_def dk Let_def)
  next
    case (Some cand)
    then have kind: "job_kind cand = KIND T" using dedup_some [OF s0(1)] r by blast
    obtain ep ec records where dec: "from_serde (from_value T (job_payload cand)) = Inr ep"
      "(if is_null (job_carry cand) then Inr (carry_default T)
        else from_serde (carry_from_value T (job_carry cand))) = Inr ec"
      "so_journal ops (call_at cs 1) (job_id cand) ?s1 = Inr records"
      using out by (auto simp: submit_emitting_def dk Let_def r Some split: sum.splits)
    note mrg = merge_emits [OF fair s1 _ dk, where cand = cand, unfolded kind]
    have none: "merge_valid None" by (simp add: merge_valid_def)
    show ?thesis
      using out unfolding submit_emitting_def dk Let_def r Some dec option.case sum.case
      by (cases "task_merge T task (pending_new ep ec (job_run_count cand) (map from_record records))")
        (auto dest: ins [OF _ s1] mrg [OF none] mrg [OF merge_update_valid] simp del: One_nat_def split: sum.splits)
  qed
qed

end

text \<open>
  C27: the enqueue counters tell what happened. An enqueue that succeeds is counted exactly once under its
  kind: as enqueued when a fresh job was stored, as merged when it was coalesced into a pending job; one that
  fails is not counted. The instrumentation does not change what the enqueue does.
\<close>

theorem enqueue_is_counted_as_what_it_did:
  assumes "fair_calls (pg_inv c) (pg_view c) uid cs" "pg_inv c s" "a_job (pg_view c s) uid = None"
    and "submit_emitting True (pg_ops c) T cs uid now task cr vis s = (r, s', es)"
  shows "submit (pg_ops c) T cs uid now task cr vis s = (r, s') \<and>
    (case r of
       Inl _ \<Rightarrow> es = []
     | Inr i \<Rightarrow> enqueued_total [(''kind'', KIND T)] es + merged_total [(''kind'', KIND T)] es = 1 \<and>
         (if enqueued_total [(''kind'', KIND T)] es = 1 then stored_fresh T uid task cr vis i (pg_view c s')
          else stored_merged T task i (pg_view c s')))"
proof (cases r)
  case (Inl x)
  with assms(4) submit_emits_error submit_silent [of True "pg_ops c" T cs uid now task cr vis s] show ?thesis by fastforce
next
  case (Inr i)
  have plain: "submit (pg_ops c) T cs uid now task cr vis s = (Inr i, s')"
    using submit_silent [of True "pg_ops c" T cs uid now task cr vis s] assms(4) Inr by simp
  have emits: "es = enqueued True (KIND T) \<and> stored_fresh T uid task cr vis i (pg_view c s') \<or>
      es = merged True (KIND T) \<and> a_journal (pg_view c s') i \<noteq> []"
    by (rule pg.submit_emits [OF assms(1-3) assms(4) [unfolded Inr]])
  have "stored_fresh T uid task cr vis i (pg_view c s') \<or> stored_merged T task i (pg_view c s')"
    using pg.submit_outcome [OF assms(1-3) plain] by blast
  moreover have "\<not> stored_fresh T uid task cr vis i (pg_view c s')" if "a_journal (pg_view c s') i \<noteq> []"
    using that by (auto simp: stored_fresh_def)
  ultimately show ?thesis using emits plain Inr by auto
qed

theorem enqueue_is_counted_as_what_it_did_witness:
  "\<exists>r s' es. submit_emitting True (pg_ops binary_codec) text_task (quiet_calls 150) 2 150 ''again'' 150 150 sample_store = (r, s', es) \<and>
     submit (pg_ops binary_codec) text_task (quiet_calls 150) 2 150 ''again'' 150 150 sample_store = (r, s') \<and>
     (\<forall>i. r = Inr i \<longrightarrow> enqueued_total [(''kind'', ''mail'')] es + merged_total [(''kind'', ''mail'')] es = 1)"
proof -
  obtain r s' es where out: "submit_emitting True (pg_ops binary_codec) text_task (quiet_calls 150) 2 150 ''again'' 150 150 sample_store = (r, s', es)"
    using prod_cases3 by blast
  have "fair_calls (pg_inv binary_codec) (pg_view binary_codec) 2 (quiet_calls 150)" by (simp add: fair_calls_def)
  from enqueue_is_counted_as_what_it_did [OF this sample_inv _ out] out show ?thesis
    by (auto simp: text_task_def split: sum.splits)
qed

section \<open>The worker\<close>

text \<open>\<open>now\<close> is the worker's clock right after the claim.\<close>

definition claim_emits :: "bool \<Rightarrow> runtime \<Rightarrow> datetime \<Rightarrow> job_record \<Rightarrow> emission list" where
  "claim_emits m rt now j =
     (let wait = (case to_std (rt_chrono rt) (now - job_created_at j) of Some d \<Rightarrow> d | None \<Rightarrow> 0)
      in claimed m (rt_rounding rt) (job_kind j) wait)"

definition fill_slot_emitting ::
  "bool \<Rightarrow> runtime \<Rightarrow> ('S, 's) worker \<Rightarrow> 's calls \<Rightarrow> string list \<Rightarrow> datetime \<Rightarrow> loop_state \<Rightarrow> 's
    \<Rightarrow> loop_state \<times> 's \<times> emission list" where
  "fill_slot_emitting m rt w cs ks now st s =
     (let pfloor = floor_for (claim_counter st + 1) (cfg_priority_ratio (w_config w));
          (st', s') = fill_slot w cs ks st s
      in (st', s', case fst (claim_with_fallback w cs ks pfloor s) of
                     Inr (Some j) \<Rightarrow> claim_emits m rt now j
                   | _ \<Rightarrow> []))"

text \<open>The run is reported as settled before the store is asked to settle it.\<close>

definition settle_emitting ::
  "bool \<Rightarrow> runtime \<Rightarrow> ('S, 's) worker \<Rightarrow> call_env \<Rightarrow> datetime \<Rightarrow> finished_run \<Rightarrow> 's
    \<Rightarrow> unit res \<times> 's \<times> emission list" where
  "settle_emitting m rt w e now fin s =
     (let outcome = journal_outcome_for (fst (settlement_of rt w now fin));
          handler_duration = (case fin_report fin of Inl _ \<Rightarrow> 0 | Inr rep \<Rightarrow> rep_duration rep);
          es = settled m (rt_rounding rt) (fin_kind fin) outcome handler_duration;
          (r, s') = settle rt w e now fin s
      in (r, s', es))"

fun recover_all_emitting ::
  "bool \<Rightarrow> runtime \<Rightarrow> ('S, 's) worker \<Rightarrow> 's calls \<Rightarrow> datetime \<Rightarrow> nat \<Rightarrow> job_record list \<Rightarrow> 's
    \<Rightarrow> 's \<times> emission list" where
  "recover_all_emitting m rt w cs now n [] s = (s, [])"
| "recover_all_emitting m rt w cs now n (j # js) s =
     (let (r, s1) = recover_one rt w (call_at cs n) now j (before_call cs n s);
          es = (case r of Inr True \<Rightarrow> recovered m (job_kind j) | _ \<Rightarrow> []);
          (s2, fs) = recover_all_emitting m rt w cs now (n + 1) js s1
      in (s2, es @ fs))"

definition recover_stale_emitting ::
  "bool \<Rightarrow> runtime \<Rightarrow> ('S, 's) worker \<Rightarrow> 's calls \<Rightarrow> datetime \<Rightarrow> 's \<Rightarrow> 's \<times> emission list" where
  "recover_stale_emitting m rt w cs now s =
     (let s0 = before_call cs 0 s in
      case so_find_stale (w_store w) (call_at cs 0) s0 of
        Inl _ \<Rightarrow> (s0, [])
      | Inr stale \<Rightarrow> recover_all_emitting m rt w cs now 1 stale s0)"

text \<open>What joining a task emits: a finished run is settled, a torn down one is not.\<close>

fun join_emits :: "bool \<Rightarrow> runtime \<Rightarrow> ('S, 's) worker \<Rightarrow> call_env \<Rightarrow> datetime \<Rightarrow> joined \<Rightarrow> 's \<Rightarrow> emission list" where
  "join_emits m rt w e now (Finished task_id fin) s = snd (snd (settle_emitting m rt w e now fin s))"
| "join_emits m rt w e now (Join_error task_id) s = []"

lemma settle_silent: "silent (settle_emitting m rt w e now fin s) = settle rt w e now fin s"
  by (simp add: settle_emitting_def Let_def split: prod.split)

lemma fill_silent: "fst (fill_slot_emitting m rt w cs ks now st s) = fst (fill_slot w cs ks st s)"
  "fst (snd (fill_slot_emitting m rt w cs ks now st s)) = snd (fill_slot w cs ks st s)"
  by (simp_all add: fill_slot_emitting_def split: prod.split)

lemma recover_all_silent: "fst (recover_all_emitting m rt w cs now n js s) = recover_all rt w cs now n js s"
  by (induction js arbitrary: n s) (simp_all add: case_prod_beta Let_def)

lemma recover_silent: "fst (recover_stale_emitting m rt w cs now s) = recover_stale rt w cs now s"
  by (simp add: recover_stale_emitting_def recover_stale_def Let_def recover_all_silent split: sum.split)

lemma recover_all_totals: "claimed_total ls (snd (recover_all_emitting True rt w cs now n js s)) = 0"
  "settled_total ls (snd (recover_all_emitting True rt w cs now n js s)) = 0"
  by (induction js arbitrary: n s) (simp_all add: case_prod_beta Let_def split: sum.split bool.split)

lemma recover_totals: "claimed_total ls (snd (recover_stale_emitting True rt w cs now s)) = 0"
  "settled_total ls (snd (recover_stale_emitting True rt w cs now s)) = 0"
  by (simp_all add: recover_stale_emitting_def Let_def recover_all_totals split: sum.split)

section \<open>Observed executions\<close>

text \<open>
  The steps of \<^verbatim>\<open>Worker_Loop\<close> with the log of what they emit. The last component is no part of the program:
  it collects the kinds of the runs that end without a settlement, torn down or released.
\<close>

type_synonym 's observed = "loop_state \<times> 's \<times> emission list \<times> string list"

fun unsettled :: "joined \<Rightarrow> loop_state \<Rightarrow> string list" where
  "unsettled (Join_error task_id) st = (case map_of (inflight st) task_id of Some job \<Rightarrow> [inf_kind job] | None \<Rightarrow> [])"
| "unsettled (Finished task_id fin) st = []"

inductive observed_step ::
  "bool \<Rightarrow> runtime \<Rightarrow> ('S, 's) worker \<Rightarrow> ('s calls \<Rightarrow> bool) \<Rightarrow> 's observed \<Rightarrow> 's observed \<Rightarrow> bool"
  for m rt w env where
  ob_recover:
    "phase st = Recovering \<Longrightarrow> env cs \<Longrightarrow> recover_stale_emitting m rt w cs now s = (s', fs) \<Longrightarrow>
      observed_step m rt w env (st, s, es, us) (st\<lparr>phase := Filling\<rparr>, s', es @ fs, us)"
| ob_full:
    "phase st = Filling \<Longrightarrow> \<not> length (running st) < cfg_concurrency (w_config w) \<Longrightarrow>
      observed_step m rt w env (st, s, es, us) (st\<lparr>phase := Waiting\<rparr>, s, es, us)"
| ob_fill_shutdown:
    "phase st = Filling \<Longrightarrow> length (running st) < cfg_concurrency (w_config w) \<Longrightarrow>
      observed_step m rt w env (st, s, es, us)
        (st\<lparr>phase := Draining\<rparr>, s, es @ shutdown_drain (length (running st)), us)"
| ob_all_capped:
    "phase st = Filling \<Longrightarrow> length (running st) < cfg_concurrency (w_config w) \<Longrightarrow>
      claimable_kinds w (kinds (w_registry w)) (by_kind st) = [] \<Longrightarrow>
      observed_step m rt w env (st, s, es, us) (st\<lparr>phase := Waiting\<rparr>, s, es, us)"
| ob_fill:
    "phase st = Filling \<Longrightarrow> env cs \<Longrightarrow> length (running st) < cfg_concurrency (w_config w) \<Longrightarrow>
      claimable_kinds w (kinds (w_registry w)) (by_kind st) = ks \<Longrightarrow> ks \<noteq> [] \<Longrightarrow>
      fill_slot_emitting m rt w cs ks now st s = (st', s', fs) \<Longrightarrow>
      observed_step m rt w env (st, s, es, us) (st', s', es @ fs, us)"
| ob_wake:
    "phase st = Waiting \<Longrightarrow> observed_step m rt w env (st, s, es, us) (st\<lparr>phase := Recovering\<rparr>, s, es, us)"
| ob_wait_shutdown:
    "phase st = Waiting \<Longrightarrow>
      observed_step m rt w env (st, s, es, us)
        (st\<lparr>phase := Draining\<rparr>, s, es @ shutdown_drain (length (running st)), us)"
| ob_join:
    "phase st = Waiting \<Longrightarrow> env cs \<Longrightarrow> joinable st jn \<Longrightarrow>
      reap rt w (call_at cs 0) now jn (unjoin (joined_id jn) st) (before_call cs 0 s) = (st', s') \<Longrightarrow>
      join_emits m rt w (call_at cs 0) now jn (before_call cs 0 s) = fs \<Longrightarrow>
      observed_step m rt w env (st, s, es, us) (st'\<lparr>phase := Recovering\<rparr>, s', es @ fs, us @ unsettled jn st)"
| ob_drain_join:
    "phase st = Draining \<Longrightarrow> env cs \<Longrightarrow> joinable st jn \<Longrightarrow>
      drain_join rt w (call_at cs 0) now jn st (before_call cs 0 s) = (st', s') \<Longrightarrow>
      join_emits m rt w (call_at cs 0) now jn (before_call cs 0 s) = fs \<Longrightarrow>
      observed_step m rt w env (st, s, es, us) (st', s', es @ fs, us @ unsettled jn st)"
| ob_drain_end:
    "phase st = Draining \<Longrightarrow> observed_step m rt w env (st, s, es, us) (st\<lparr>phase := Finishing\<rparr>, s, es, us)"
| ob_finish_join:
    "phase st = Finishing \<Longrightarrow> env cs \<Longrightarrow> joinable st jn \<Longrightarrow>
      finish_join rt w (call_at cs 0) now jn (unjoin (joined_id jn) st) (before_call cs 0 s) = (st', s') \<Longrightarrow>
      join_emits m rt w (call_at cs 0) now jn (before_call cs 0 s) = fs \<Longrightarrow>
      observed_step m rt w env (st, s, es, us) (st', s', es @ fs, us)"
| ob_finish_release:
    "phase st = Finishing \<Longrightarrow> env cs \<Longrightarrow> running st = [] \<Longrightarrow> inflight st = (task_id, job) # rest \<Longrightarrow>
      observed_step m rt w env (st, s, es, us)
        (st\<lparr>inflight := rest\<rparr>, release w (call_at cs 0) now job (before_call cs 0 s), es, us @ [inf_kind job])"
| ob_stop:
    "phase st = Finishing \<Longrightarrow> running st = [] \<Longrightarrow> inflight st = [] \<Longrightarrow>
      observed_step m rt w env (st, s, es, us) (st\<lparr>phase := Stopped\<rparr>, s, es, us)"

inductive observed_reachable ::
  "bool \<Rightarrow> runtime \<Rightarrow> ('S, 's) worker \<Rightarrow> ('s calls \<Rightarrow> bool) \<Rightarrow> 's \<Rightarrow> 's observed \<Rightarrow> bool" for m rt w env s0 where
  ob_start: "kinds (w_registry w) \<noteq> [] \<Longrightarrow> observed_reachable m rt w env s0 (loop_init, s0, [], [])"
| ob_next: "observed_reachable m rt w env s0 x \<Longrightarrow> observed_step m rt w env x y \<Longrightarrow> observed_reachable m rt w env s0 y"

text \<open>The instrumentation neither adds executions nor takes any away.\<close>

lemma observed_step_plain:
  assumes "observed_step m rt w env (st, s, es, us) (st', s', es', us')"
  shows "loop_step rt w env (st, s) (st', s')"
  using assms
proof (induction "(st, s, es, us)" "(st', s', es', us')" rule: observed_step.induct)
  case (ob_recover cs now fs)
  then have "s' = recover_stale rt w cs now s" using recover_silent by (metis fst_conv)
  with ob_recover show ?case by (auto intro: loop_recover)
next
  case (ob_fill cs ks now fs)
  then have "(st', s') = fill_slot w cs ks st s" using fill_silent by (metis fst_conv snd_conv prod.collapse)
  with ob_fill loop_fill [of st env cs w ks rt s] show ?case by simp
qed (auto intro: loop_step.intros)

lemma plain_step_observed:
  assumes "loop_step rt w env (st, s) (st', s')"
  shows "\<exists>es' us'. observed_step m rt w env (st, s, es, us) (st', s', es', us')"
  using assms
proof (induction "(st, s)" "(st', s')" rule: loop_step.induct)
  case (loop_recover cs now)
  then show ?case using observed_step.ob_recover [of st env cs m rt w now s s'] recover_silent by (metis prod.collapse)
next
  case (loop_fill cs ks)
  then show ?case using observed_step.ob_fill [of st env cs w ks m rt undefined s st' s'] fill_silent
    by (metis fst_conv snd_conv prod.collapse)
qed (blast intro: observed_step.intros)+

lemma observed_reachable_plain:
  "observed_reachable m rt w env s0 (st, s, es, us) \<Longrightarrow> loop_reachable rt w env s0 (st, s)"
proof (induction "(st, s, es, us)" arbitrary: st s es us rule: observed_reachable.induct)
  case (ob_next x)
  obtain st0 t fs vs where x: "x = (st0, t, fs, vs)" using prod_cases4 by blast
  with ob_next have "loop_reachable rt w env s0 (st0, t)" by blast
  with ob_next(3) x show ?case using observed_step_plain loop_next by metis
qed (simp add: loop_start)

lemma plain_reachable_observed:
  "loop_reachable rt w env s0 (st, s) \<Longrightarrow> \<exists>es us. observed_reachable m rt w env s0 (st, s, es, us)"
proof (induction "(st, s)" arbitrary: st s rule: loop_reachable.induct)
  case loop_start
  then show ?case by (blast intro: ob_start)
next
  case (loop_next q)
  obtain st0 t where q: "q = (st0, t)" by fastforce
  then obtain fs vs where "observed_reachable m rt w env s0 (st0, t, fs, vs)" using loop_next by blast
  moreover obtain es us where "observed_step m rt w env (st0, t, fs, vs) (st, s, es, us)"
    using plain_step_observed loop_next q by metis
  ultimately show ?case by (meson ob_next)
qed

section \<open>Every claimed run is accounted for\<close>

definition balanced :: "string \<Rightarrow> 's observed \<Rightarrow> bool" where
  "balanced k = (\<lambda>(st, s, es, us).
     claimed_total [(''kind'', k)] es =
       settled_total [(''kind'', k)] es + kind_count k (inflight st) + count_list us k)"

lemma kind_count_simps [simp]: "kind_count k [] = 0" "kind_count k (xs @ ys) = kind_count k xs + kind_count k ys"
  "kind_count k ((i, job) # xs) = (if inf_kind job = k then 1 else 0) + kind_count k xs"
  by (simp_all add: kind_count_def)

lemma settle_emits [simp]:
  "snd (snd (settle_emitting m rt w e now fin s)) = settled m (rt_rounding rt) (fin_kind fin)
     (journal_outcome_for (fst (settlement_of rt w now fin)))
     (case fin_report fin of Inl _ \<Rightarrow> 0 | Inr rep \<Rightarrow> rep_duration rep)"
  by (simp add: settle_emitting_def Let_def case_prod_beta)

lemma join_totals [simp]: "claimed_total ls (join_emits True rt w e now jn s) = 0"
  by (cases jn) simp_all

lemma join_inflight:
  "inflight (fst (reap rt w e now jn (unjoin i st) s)) = AList.delete (joined_id jn) (inflight st)"
  "inflight (fst (finish_join rt w e now (Finished i' fin) (unjoin i st) s)) = AList.delete i' (inflight st)"
  "inflight (fst (finish_join rt w e now (Join_error i') (unjoin i st) s)) = inflight st"
  by (simp_all add: reap_fst inflight_forget unjoin_def)

lemma joined_entry:
  assumes "tasks_tracked w K st" "ids_ok st" "joinable st jn"
  obtains job where "map_of (inflight st) (joined_id jn) = Some job" "\<And>i fin. jn = Finished i fin \<Longrightarrow> fin_kind fin = inf_kind job"
proof (cases jn)
  case (Finished i fin)
  obtain j hist cancel el where "fin = spawn w j hist cancel el" "(i, tracked j) \<in> set (inflight st)"
    by (rule joined_run [OF assms(1) assms(3) [unfolded Finished]])
  moreover from this have "map_of (inflight st) i = Some (tracked j)" using assms(2) by (simp add: ids_ok_def)
  ultimately show thesis using that [of "tracked j"] Finished by (simp add: tracked_def)
next
  case (Join_error i)
  have "i \<in> fst ` set (inflight st)" using joinable_running [OF assms(3)] assms(2) Join_error by (auto simp: ids_ok_def)
  then have "map_of (inflight st) i \<noteq> None" by (simp add: map_of_eq_None_iff)
  then show thesis using that Join_error by auto
qed

lemma join_balance:
  assumes "tasks_tracked w K st" "ids_ok st" "joinable st jn"
  shows "kind_count k (inflight st) = kind_count k (AList.delete (joined_id jn) (inflight st)) +
    settled_total [(''kind'', k)] (join_emits True rt w e now jn s) + count_list (unsettled jn st) k"
proof (rule joined_entry [OF assms])
  fix job
  assume job: "map_of (inflight st) (joined_id jn) = Some job" "\<And>i fin. jn = Finished i fin \<Longrightarrow> fin_kind fin = inf_kind job"
  have "distinct (map fst (inflight st))" using assms(2) by (simp add: ids_ok_def)
  from kind_count_delete [OF this job(1), of k] job show ?thesis by (cases jn) auto
qed

lemma fill_balance:
  assumes "ids_ok st" "fill_slot_emitting True rt w cs ks now st s = (st', s', fs)"
  shows "kind_count k (inflight st') = kind_count k (inflight st) + claimed_total [(''kind'', k)] fs"
    "settled_total ls fs = 0"
proof -
  have new: "next_task st \<notin> fst ` set (inflight st)" using assms(1) by (auto simp: ids_ok_def)
  show "kind_count k (inflight st') = kind_count k (inflight st) + claimed_total [(''kind'', k)] fs" "settled_total ls fs = 0"
    using assms(2) by (auto simp: fill_slot_emitting_def fill_slot_def claim_emits_def Let_def update_fresh [OF new]
        split: prod.splits sum.splits option.splits)
qed

lemma observed_step_balance:
  assumes "observed_step True rt w env (st, s, es, us) (st', s', es', us')" "tasks_tracked w K st" "ids_ok st"
    and "balanced k (st, s, es, us)"
  shows "balanced k (st', s', es', us')"
  using assms(1)
proof cases
  case (ob_recover cs now fs)
  then have "claimed_total [(''kind'', k)] fs = 0" "settled_total [(''kind'', k)] fs = 0" using recover_totals by (metis snd_conv)+
  with ob_recover assms(4) show ?thesis by (simp add: balanced_def)
next
  case (ob_fill cs ks now fs)
  then have "fill_slot_emitting True rt w cs ks now st s = (st', s', fs)" by simp
  from fill_balance [OF assms(3) this] ob_fill assms(4) show ?thesis by (simp add: balanced_def)
next
  case (ob_join cs jn now st1 fs)
  have "inflight st1 = AList.delete (joined_id jn) (inflight st)" using join_inflight(1) ob_join by (metis fst_conv)
  with join_balance [where k = k and rt = rt and e = "call_at cs 0" and now = now and s = "before_call cs 0 s", OF assms(2,3) ob_join(6)]
    ob_join assms(4) show ?thesis by (auto simp: balanced_def)
next
  case (ob_drain_join cs jn now fs)
  have "inflight st' = AList.delete (joined_id jn) (inflight st)"
    using join_inflight(1) ob_drain_join by (metis drain_join_def fst_conv)
  with join_balance [where k = k and rt = rt and e = "call_at cs 0" and now = now and s = "before_call cs 0 s", OF assms(2,3) ob_drain_join(5)]
    ob_drain_join assms(4) show ?thesis by (auto simp: balanced_def)
next
  case (ob_finish_join cs jn now fs)
  show ?thesis
  proof (cases jn)
    case (Finished i fin)
    then have "inflight st' = AList.delete i (inflight st)" using join_inflight(2) ob_finish_join by (metis fst_conv)
    with join_balance [where k = k and rt = rt and e = "call_at cs 0" and now = now and s = "before_call cs 0 s", OF assms(2,3) ob_finish_join(5)] ob_finish_join assms(4) Finished show ?thesis
      by (auto simp: balanced_def)
  next
    case (Join_error i)
    then have "inflight st' = inflight st" using join_inflight(3) ob_finish_join by (metis fst_conv)
    with ob_finish_join assms(4) Join_error show ?thesis by (simp add: balanced_def)
  qed
qed (use assms(4) in \<open>auto simp: balanced_def\<close>)

lemma settles_never_release: "outcome_as_str (journal_outcome_for (fst (settlement_of rt w now fin))) \<noteq> ''released''"
  by (simp add: settlement_of_fst settlement_for_def retry_or_backstop_def Let_def
      split: sum.split outcome.split option.split)

lemma released_uncounted:
  assumes "observed_step True rt w env (st, s, es, us) (st', s', es', us')" "ids_ok st"
  shows "settled_total [(''kind'', k), (''outcome'', ''released'')] es' = settled_total [(''kind'', k), (''outcome'', ''released'')] es"
proof -
  have join: "settled_total [(''kind'', k), (''outcome'', ''released'')] (join_emits True rt w e now jn t) = 0" for e now jn and t :: 'b
    by (cases jn) (simp_all add: settles_never_release [symmetric])
  from assms(1) show ?thesis
  proof cases
    case (ob_recover cs now fs)
    then have "settled_total [(''kind'', k), (''outcome'', ''released'')] fs = 0" using recover_totals by (metis snd_conv)
    with ob_recover show ?thesis by simp
  next
    case (ob_fill cs ks now fs)
    then have "fill_slot_emitting True rt w cs ks now st s = (st', s', fs)" by simp
    from fill_balance(2) [OF assms(2) this] ob_fill show ?thesis by simp
  qed (auto simp: join)
qed

lemma observed_reachable_balance:
  assumes "observed_reachable True rt w (lawful_calls (pg_inv c)) s0 (st, s, es, us)" "w_store w = pg_ops c" "pg_inv c s0"
  shows "balanced k (st, s, es, us) \<and> settled_total [(''kind'', k), (''outcome'', ''released'')] es = 0"
  using assms
proof (induction "(st, s, es, us)" arbitrary: st s es us rule: observed_reachable.induct)
  case ob_start
  then show ?case by (simp add: balanced_def loop_init_def)
next
  case (ob_next x)
  obtain st0 t fs vs where x: "x = (st0, t, fs, vs)" using prod_cases4 by blast
  have reach: "loop_reachable rt w (lawful_calls (pg_inv c)) s0 (st0, t)" by (rule observed_reachable_plain [OF ob_next(1) [unfolded x]])
  have ok: "tasks_tracked w (\<lambda>_. True) st0" "ids_ok st0"
    using loop_reachable_tracked [OF reach ob_next(4,5)] loop_reachable_ok [OF reach ob_next(4,5)] by (simp_all add: loop_ok_def)
  have step: "observed_step True rt w (lawful_calls (pg_inv c)) (st0, t, fs, vs) (st, s, es, us)" using ob_next(3) x by simp
  have IH: "balanced k (st0, t, fs, vs)" "settled_total [(''kind'', k), (''outcome'', ''released'')] fs = 0"
    using ob_next(2) [OF x ob_next(4,5)] by simp_all
  show ?case using observed_step_balance [OF step ok IH(1)] released_uncounted [OF step ok(2), of k] IH(2) by simp
qed

text \<open>
  C20: the claim counter balances. At every moment of every execution and for every kind, the jobs counted as claimed are
  those counted as settled, those in flight and those whose run was torn down or released, each run counted once.
  No run is ever counted as settled with the outcome released: a forced shutdown gives its jobs back
  without a lifecycle event.
\<close>

theorem claimed_runs_are_accounted_for:
  assumes "observed_reachable True rt w (lawful_calls (pg_inv c)) s0 (st, s, es, us)" "w_store w = pg_ops c" "pg_inv c s0"
  shows "claimed_total [(''kind'', k)] es =
      settled_total [(''kind'', k)] es + kind_count k (inflight st) + count_list us k \<and>
    settled_total [(''kind'', k), (''outcome'', ''released'')] es = 0"
  using observed_reachable_balance [OF assms, of k] by (simp add: balanced_def)

theorem claimed_runs_are_accounted_for_witness:
  "\<exists>es us. observed_reachable True sample_runtime mail_worker (lawful_calls (pg_inv binary_codec)) sample_store
       (fst sample_filled, snd sample_filled, es, us) \<and>
     claimed_total [(''kind'', ''mail'')] es = settled_total [(''kind'', ''mail'')] es + 1 + count_list us ''mail''"
proof -
  have "loop_reachable sample_runtime mail_worker (lawful_calls (pg_inv binary_codec)) sample_store (fst sample_filled, snd sample_filled)"
    using sample_filled_reachable [of "lawful_calls (pg_inv binary_codec)"] by (simp add: quiet_lawful)
  from plain_reachable_observed [OF this, of True]
  obtain es us where ob: "observed_reachable True sample_runtime mail_worker (lawful_calls (pg_inv binary_codec)) sample_store
       (fst sample_filled, snd sample_filled, es, us)"
    by blast
  from claimed_runs_are_accounted_for [OF ob _ sample_inv, of "''mail''"] ob show ?thesis
    by (auto simp: sample_filled_sel(3) sample_job_def claim_job_def fresh_job_def sample_new_def)
qed

text \<open>
  The instrumentation is transparent: with the metrics feature on or off, the executions of the instrumented loop are,
  but for their log, exactly those of the loop.
\<close>

theorem instrumentation_is_transparent:
  "(\<exists>es us. observed_reachable m rt w env s0 (st, s, es, us)) \<longleftrightarrow> loop_reachable rt w env s0 (st, s)"
  using observed_reachable_plain [of m rt w env s0 st s] plain_reachable_observed [of rt w env s0 st s m] by blast

text \<open>
  C40: the settled counter counts attempts: a run whose claim was lost in the meantime (its settlement is refused and nothing
  changes in the store) is still counted once as settled, under the outcome it would have had.
\<close>

theorem refused_settlement_is_still_counted:
  assumes "pg_inv c s" "w_store w = pg_ops c"
    and "\<not> (\<exists>j. a_job (pg_view c s) (fin_id fin) = Some j \<and> owned (w_identity w) (fin_run_no fin) j)"
    and "settle_emitting True rt w e now fin s = (r, s', es)"
  shows "pg_view c s' = pg_view c s \<and>
    settled_total [(''kind'', fin_kind fin), (''outcome'', outcome_as_str (journal_outcome_for (fst (settlement_of rt w now fin))))] es = 1"
proof -
  have es: "es = snd (snd (settle_emitting True rt w e now fin s))" "s' = snd (settle rt w e now fin s)"
    using assms(4) settle_silent [of True rt w e now fin s] by (simp_all add: silent_def prod_eq_iff)
  have "spec_settle (w_identity w) (fin_run_no fin) stl ja (fin_id fin) (pg_view c s) = (False, pg_view c s)" for stl ja
    using assms(3) by (auto simp: spec_settle_def guarded_def split: option.split)
  then have "pg_view c (snd (pg_settle c e (fin_id fin) (w_identity w) (fin_run_no fin) stl ja s)) = pg_view c s" for stl ja
    using pg_settle_conforms(2) [OF assms(1), of e "fin_id fin" "w_identity w" "fin_run_no fin" stl ja]
    by (auto simp: conforms_def split: sum.splits)
  then show ?thesis by (simp add: es pg.settle_run_snd assms(2) pg_ops_sel)
qed

theorem refused_settlement_is_still_counted_witness:
  "\<exists>r s' es. settle_emitting True sample_runtime mail_worker (env_at 300) 300
       \<lparr>fin_id = 1, fin_kind = ''mail'', fin_run_no = 2, fin_failure_count = 0, fin_report = Inl (InvalidPriority 7)\<rparr>
       (snd sample_claim) = (r, s', es) \<and>
     pg_view binary_codec s' = pg_view binary_codec (snd sample_claim) \<and>
     settled_total [(''kind'', ''mail''), (''outcome'', ''dead'')] es = 1"
proof -
  let ?fin = "\<lparr>fin_id = 1, fin_kind = ''mail'', fin_run_no = 2, fin_failure_count = 0, fin_report = Inl (InvalidPriority 7)\<rparr>"
  obtain r s' es where out: "settle_emitting True sample_runtime mail_worker (env_at 300) 300 ?fin (snd sample_claim) = (r, s', es)"
    using prod_cases3 by blast
  have "\<not> (\<exists>j. a_job (pg_view binary_codec (snd sample_claim)) (fin_id ?fin) = Some j \<and>
      owned (w_identity mail_worker) (fin_run_no ?fin) j)"
    by (simp add: owned_def sample_job_def claim_job_def fresh_job_def)
  from refused_settlement_is_still_counted [OF sample_claim_inv _ this out] out show ?thesis
    by (simp add: settlement_of_fst)
qed

end
