(* ===== verification/Fake_Store.thy ===== *)
theory Fake_Store
  imports History Worker_Policy
begin

text \<open>
  The in-memory \<^verbatim>\<open>FakeStore\<close> (\<^verbatim>\<open>src/test_support.rs\<close>) that the unit tests of the queue and the worker run
  against, as a second implementation of the store's contract. The mutex makes every method one step on
  \<^verbatim>\<open>Inner\<close>. A \<^verbatim>\<open>HashMap\<close> is an association list whose order stands for the iteration order,
  which only the order of \<^verbatim>\<open>find_stale\<close> depends on. The test build checks arithmetic: a claim that would
  overflow the run counter panics, the value \<open>None\<close>. The journal's 64-bit identifiers are taken as
  inexhaustible.
\<close>

section \<open>State\<close>

record inner =
  fk_jobs :: "(ulid \<times> job_record) list"
  fk_journal :: "journal_record list"
  fk_next_journal_id :: i64
  fk_force_next_merge_into_miss :: bool

definition fake_new :: inner where
  "fake_new = \<lparr>fk_jobs = [], fk_journal = [], fk_next_journal_id = 0, fk_force_next_merge_into_miss = False\<rparr>"

text \<open>The values in iteration order, the entry pushed on the journal, and a job put in place.\<close>

definition job_values :: "inner \<Rightarrow> job_record list" where
  "job_values st = map snd (fk_jobs st)"

definition push_entry :: "ulid \<Rightarrow> journal_append \<Rightarrow> inner \<Rightarrow> inner" where
  "push_entry i ja st =
     (let new_entry = fk_next_journal_id st
      in st\<lparr>fk_next_journal_id := new_entry + 1,
            fk_journal := fk_journal st @
              [\<lparr>entry_id = new_entry, entry_job_id = i, entry_kind = app_kind ja, entry_run_no = app_run_no ja,
                entry_recorded_at = app_recorded_at ja, entry_outcome = app_outcome ja,
                entry_note = app_note ja, entry_attachment = app_attachment ja\<rparr>]\<rparr>)"

definition put_job :: "ulid \<Rightarrow> job_record \<Rightarrow> inner \<Rightarrow> inner" where
  "put_job i j st = st\<lparr>fk_jobs := AList.update i j (fk_jobs st)\<rparr>"

section \<open>Test seams\<close>

definition force_next_merge_into_miss :: "inner \<Rightarrow> inner" where
  "force_next_merge_into_miss st = st\<lparr>fk_force_next_merge_into_miss := True\<rparr>"

definition fake_count :: "status \<Rightarrow> inner \<Rightarrow> nat" where
  "fake_count stat st = length (filter (\<lambda>j. job_status j = stat) (job_values st))"

section \<open>Operations\<close>

definition fake_migrate :: "inner \<Rightarrow> unit res \<times> inner" where
  "fake_migrate st = (Inr (), st)"

definition fake_enqueue :: "new_job \<Rightarrow> inner \<Rightarrow> unit res \<times> inner" where
  "fake_enqueue nj st =
     (case validate nj of
        Inl x \<Rightarrow> (Inl x, st)
      | Inr _ \<Rightarrow>
          let new_record = \<lparr>job_id = new_id nj, job_kind = new_kind nj, job_payload = new_payload nj,
                            job_priority = new_priority nj, job_status = Pending,
                            job_created_at = new_created_at nj, job_visible_at = new_visible_at nj,
                            job_claim_expires_at = None, job_claimed_by = None, job_finished_at = None,
                            job_run_count = 0, job_failure_count = 0, job_carry = new_carry nj,
                            job_dedup_key = new_dedup_key nj\<rparr>
          in (Inr (), put_job (new_id nj) new_record st))"

text \<open>The scan keeps the best identifier so far with its key.\<close>

type_synonym scan_key = "i16 \<times> datetime \<times> ulid"

fun claim_scan :: "(job_record \<Rightarrow> bool) \<Rightarrow> (ulid \<times> scan_key) option \<Rightarrow> job_record list \<Rightarrow> (ulid \<times> scan_key) option" where
  "claim_scan eligible best [] = best"
| "claim_scan eligible best (j # js) =
     (if \<not> eligible j then claim_scan eligible best js
      else let key = (job_priority j, job_created_at j, job_id j)
           in if (case best of None \<Rightarrow> True | Some (_, b) \<Rightarrow> key < b)
              then claim_scan eligible (Some (job_id j, key)) js
              else claim_scan eligible best js)"

definition fake_claim_next ::
  "chrono \<Rightarrow> datetime \<Rightarrow> string list \<Rightarrow> i16 \<Rightarrow> duration \<Rightarrow> string \<Rightarrow> inner \<Rightarrow> (job_record option \<times> inner) option" where
  "fake_claim_next C now ks priority_floor lease claimed_by st =
     (let eligible = (\<lambda>j. job_status j = Pending \<and> job_visible_at j \<le> now \<and>
                          priority_floor \<le> job_priority j \<and> job_kind j \<in> set ks)
      in case claim_scan eligible None (job_values st) of
           None \<Rightarrow> Some (None, st)
         | Some (i, _) \<Rightarrow>
             (case map_of (fk_jobs st) i of
                None \<Rightarrow> None
              | Some j \<Rightarrow>
                  if unat (job_run_count j) = u32_max then None
                  else
                    let j' = j\<lparr>job_status := Claimed, job_claimed_by := Some claimed_by,
                               job_claim_expires_at := Some (add_duration C now lease),
                               job_run_count := job_run_count j + 1\<rparr>
                    in Some (Some j', put_job i j' st)))"

definition fake_settle ::
  "ulid \<Rightarrow> string \<Rightarrow> u32 \<Rightarrow> settlement \<Rightarrow> journal_append \<Rightarrow> inner \<Rightarrow> bool res \<times> inner" where
  "fake_settle i claimed_by run_no stl journal st =
     (case map_of (fk_jobs st) i of
        None \<Rightarrow> (Inr False, st)
      | Some j \<Rightarrow>
          if job_status j \<noteq> Claimed \<or> job_claimed_by j \<noteq> Some claimed_by \<or> job_run_count j \<noteq> run_no
          then (Inr False, st)
          else
            let j1 = (case stl of
                        Complete fin \<Rightarrow> j\<lparr>job_status := Completed, job_finished_at := Some fin\<rparr>
                      | Retry vis failures carry \<Rightarrow>
                          j\<lparr>job_status := Pending, job_visible_at := vis, job_failure_count := failures,
                            job_carry := carry\<rparr>
                      | Pause vis carry \<Rightarrow> j\<lparr>job_status := Pending, job_visible_at := vis, job_carry := carry\<rparr>
                      | GiveUp fin failures \<Rightarrow>
                          j\<lparr>job_status := Dead, job_finished_at := Some fin, job_failure_count := failures\<rparr>
                      | Release vis \<Rightarrow> j\<lparr>job_status := Pending, job_visible_at := vis\<rparr>);
                j2 = j1\<lparr>job_claimed_by := None, job_claim_expires_at := None\<rparr>
            in (Inr True, push_entry i journal (put_job i j2 st)))"

definition fake_journal :: "ulid \<Rightarrow> inner \<Rightarrow> journal_record list res" where
  "fake_journal i st = Inr (sort_key entry_id (filter (\<lambda>x. entry_job_id x = i) (fk_journal st)))"

definition fake_next_visible_at :: "datetime \<Rightarrow> string list \<Rightarrow> inner \<Rightarrow> datetime option res" where
  "fake_next_visible_at now ks st =
     (let future = map job_visible_at
            (filter (\<lambda>j. job_status j = Pending \<and> now < job_visible_at j \<and> job_kind j \<in> set ks) (job_values st))
      in Inr (if future = [] then None else Some (Min (set future))))"

definition fake_query_jobs :: "history_filter \<Rightarrow> inner \<Rightarrow> job_record list res" where
  "fake_query_jobs hf st =
     (let jobs = filter (\<lambda>j.
            (case hf_kind hf of None \<Rightarrow> True | Some k \<Rightarrow> job_kind j = k) \<and>
            (case hf_status hf of None \<Rightarrow> True | Some stat \<Rightarrow> job_status j = stat) \<and>
            (case hf_finished_since hf of None \<Rightarrow> True
             | Some since \<Rightarrow> (case job_finished_at j of None \<Rightarrow> False | Some f \<Rightarrow> since \<le> f)) \<and>
            (case hf_finished_until hf of None \<Rightarrow> True
             | Some until \<Rightarrow> (case job_finished_at j of None \<Rightarrow> False | Some f \<Rightarrow> f < until)) \<and>
            (case hf_created_before hf of None \<Rightarrow> True | Some (ts, i) \<Rightarrow> (job_created_at j, job_id j) < (ts, i)))
            (job_values st);
          sorted_jobs = rev (sort_key (\<lambda>j. (job_created_at j, job_id j)) jobs)
      in Inr (case hf_limit hf of None \<Rightarrow> sorted_jobs | Some limit \<Rightarrow> take (nat (max limit 0)) sorted_jobs))"

definition fake_job :: "ulid \<Rightarrow> inner \<Rightarrow> job_record option res" where
  "fake_job i st = Inr (map_of (fk_jobs st) i)"

definition fake_cleanup :: "cleanup_criteria \<Rightarrow> inner \<Rightarrow> nat res \<times> inner" where
  "fake_cleanup cc st =
     (let to_remove = map job_id (filter (\<lambda>j.
            (case job_finished_at j of None \<Rightarrow> False | Some f \<Rightarrow> f < cc_finished_before cc) \<and>
            (case cc_kind cc of None \<Rightarrow> True | Some k \<Rightarrow> job_kind j = k) \<and>
            (case cc_status cc of None \<Rightarrow> True | Some stat \<Rightarrow> job_status j = stat)) (job_values st));
          st' = fold (\<lambda>i acc. acc\<lparr>fk_jobs := AList.delete i (fk_jobs acc),
                                  fk_journal := filter (\<lambda>x. entry_job_id x \<noteq> i) (fk_journal acc)\<rparr>)
                  to_remove st
      in (Inr (length to_remove), st'))"

definition stats_step :: "chrono \<Rightarrow> datetime \<Rightarrow> job_record \<Rightarrow> snapshot \<Rightarrow> snapshot" where
  "stats_step C now j sn =
     (case job_status j of
        Pending \<Rightarrow>
          let n = (case snap_pending_by_kind sn (job_kind j) of Some n \<Rightarrow> n | None \<Rightarrow> 0);
              age = (case to_std C (now - job_created_at j) of Some d \<Rightarrow> d | None \<Rightarrow> 0);
              oldest = (case snap_oldest_pending_age sn (job_kind j) of Some prev \<Rightarrow> max prev age | None \<Rightarrow> age)
          in sn\<lparr>snap_pending_by_kind := (snap_pending_by_kind sn)(job_kind j \<mapsto> n + 1),
                snap_oldest_pending_age := (snap_oldest_pending_age sn)(job_kind j \<mapsto> oldest)\<rparr>
      | Claimed \<Rightarrow> sn\<lparr>snap_claimed := snap_claimed sn + 1\<rparr>
      | Dead \<Rightarrow>
          let n = (case snap_dead_by_kind sn (job_kind j) of Some n \<Rightarrow> n | None \<Rightarrow> 0)
          in sn\<lparr>snap_dead_by_kind := (snap_dead_by_kind sn)(job_kind j \<mapsto> n + 1)\<rparr>
      | Completed \<Rightarrow> sn)"

definition snapshot_default :: snapshot where
  "snapshot_default = \<lparr>snap_pending_by_kind = Map.empty, snap_oldest_pending_age = Map.empty, snap_claimed = 0,
     snap_dead_by_kind = Map.empty\<rparr>"

definition fake_stats :: "chrono \<Rightarrow> datetime \<Rightarrow> inner \<Rightarrow> snapshot res" where
  "fake_stats C now st = Inr (fold (stats_step C now) (job_values st) snapshot_default)"

definition fake_find_stale :: "datetime \<Rightarrow> inner \<Rightarrow> job_record list res" where
  "fake_find_stale now st =
     Inr (filter (\<lambda>j. job_status j = Claimed \<and>
       (case job_claim_expires_at j of None \<Rightarrow> False | Some expiry \<Rightarrow> expiry < now)) (job_values st))"

definition fake_recover ::
  "datetime \<Rightarrow> ulid \<Rightarrow> datetime \<Rightarrow> i32 \<Rightarrow> u32 \<Rightarrow> journal_append \<Rightarrow> inner \<Rightarrow> bool res \<times> inner" where
  "fake_recover now i visible_at failure_count run_no journal st =
     (case map_of (fk_jobs st) i of
        None \<Rightarrow> (Inr False, st)
      | Some j \<Rightarrow>
          if \<not> (job_status j = Claimed \<and> job_run_count j = run_no \<and>
                (case job_claim_expires_at j of None \<Rightarrow> False | Some expiry \<Rightarrow> expiry < now))
          then (Inr False, st)
          else
            let j' = j\<lparr>job_status := Pending, job_visible_at := visible_at, job_failure_count := failure_count,
                       job_claimed_by := None, job_claim_expires_at := None\<rparr>
            in (Inr True, push_entry i journal (put_job i j' st)))"

definition fake_extend_lease ::
  "chrono \<Rightarrow> datetime \<Rightarrow> ulid \<Rightarrow> string \<Rightarrow> u32 \<Rightarrow> duration \<Rightarrow> inner \<Rightarrow> bool res \<times> inner" where
  "fake_extend_lease C now i claimed_by run_no lease st =
     (case map_of (fk_jobs st) i of
        None \<Rightarrow> (Inr False, st)
      | Some j \<Rightarrow>
          if job_status j \<noteq> Claimed \<or> job_claimed_by j \<noteq> Some claimed_by \<or> job_run_count j \<noteq> run_no
          then (Inr False, st)
          else (Inr True, put_job i (j\<lparr>job_claim_expires_at := Some (add_duration C now lease)\<rparr>) st))"

definition fake_dedup_candidate :: "string \<Rightarrow> string \<Rightarrow> inner \<Rightarrow> job_record option res" where
  "fake_dedup_candidate kind dedup_key st =
     (let candidates = filter (\<lambda>j. job_status j = Pending \<and> job_kind j = kind \<and>
            job_dedup_key j = Some dedup_key) (job_values st)
      in Inr (if candidates = [] then None
              else Some (arg_min_list (\<lambda>j. (job_created_at j, job_id j)) candidates)))"

definition fake_merge_into ::
  "ulid \<Rightarrow> merge_payload option \<Rightarrow> journal_append \<Rightarrow> inner \<Rightarrow> bool res \<times> inner" where
  "fake_merge_into i update journal st =
     (if fk_force_next_merge_into_miss st
      then (Inr False, st\<lparr>fk_force_next_merge_into_miss := False\<rparr>)
      else case map_of (fk_jobs st) i of
             None \<Rightarrow> (Inr False, st)
           | Some j \<Rightarrow>
               if job_status j \<noteq> Pending then (Inr False, st)
               else
                 let j' = (case update of
                             Some mp \<Rightarrow> j\<lparr>job_payload := mp_payload mp, job_carry := mp_carry mp,
                                          job_priority := mp_priority mp\<rparr>
                           | None \<Rightarrow> j)
                 in (Inr True, push_entry i journal (put_job i j' st)))"

text \<open>
  The store as a trait object. The clock is that of the call; there are no faults and no locks. A panic
  leaves the mutex poisoned and no result; where a result is asked for, it is this error.
\<close>

definition claim_panicked :: error where
  "claim_panicked = Database ''attempt to add with overflow''"

definition fake_ops :: "chrono \<Rightarrow> inner store_ops" where
  "fake_ops C =
     \<lparr>so_enqueue = (\<lambda>e. fake_enqueue),
      so_claim_next = (\<lambda>e ks fl ls by st.
        case fake_claim_next C (env_now e) ks fl ls by st of Some (r, st') \<Rightarrow> (Inr r, st') | None \<Rightarrow> (Inl claim_panicked, st)),
      so_settle = (\<lambda>e. fake_settle),
      so_journal = (\<lambda>e. fake_journal),
      so_next_visible_at = (\<lambda>e. fake_next_visible_at (env_now e)),
      so_dedup_candidate = (\<lambda>e. fake_dedup_candidate),
      so_find_stale = (\<lambda>e. fake_find_stale (env_now e)),
      so_recover = (\<lambda>e. fake_recover (env_now e)),
      so_extend_lease = (\<lambda>e. fake_extend_lease C (env_now e)),
      so_query_jobs = (\<lambda>e. fake_query_jobs),
      so_job = (\<lambda>e. fake_job),
      so_cleanup = (\<lambda>e. fake_cleanup),
      so_merge_into = (\<lambda>e. fake_merge_into),
      so_stats = (\<lambda>e now s1 s2 s3. fake_stats C now s1)\<rparr>"

lemma fake_ops_sel:
  "so_enqueue (fake_ops C) e = fake_enqueue" "so_settle (fake_ops C) e = fake_settle"
  "so_journal (fake_ops C) e = fake_journal" "so_next_visible_at (fake_ops C) e = fake_next_visible_at (env_now e)"
  "so_dedup_candidate (fake_ops C) e = fake_dedup_candidate" "so_find_stale (fake_ops C) e = fake_find_stale (env_now e)"
  "so_recover (fake_ops C) e = fake_recover (env_now e)" "so_query_jobs (fake_ops C) e = fake_query_jobs"
  "so_job (fake_ops C) e = fake_job" "so_cleanup (fake_ops C) e = fake_cleanup"
  "so_merge_into (fake_ops C) e = fake_merge_into" "so_stats (fake_ops C) e now s1 s2 s3 = fake_stats C now s1"
  by (simp_all add: fake_ops_def)

section \<open>Invariant and abstraction\<close>

definition fake_wf :: "inner \<Rightarrow> bool" where
  "fake_wf st \<longleftrightarrow>
     distinct (map fst (fk_jobs st)) \<and> (\<forall>x \<in> set (fk_jobs st). job_id (snd x) = fst x \<and> job_wf (snd x)) \<and>
     sorted_wrt (<) (map entry_id (fk_journal st)) \<and>
     (\<forall>x \<in> set (fk_journal st). entry_id x < fk_next_journal_id st \<and> entry_job_id x \<in> fst ` set (fk_jobs st))"

definition fake_inv :: "chrono \<Rightarrow> inner \<Rightarrow> bool" where
  "fake_inv C st \<longleftrightarrow> chrono_ok C \<and> fake_wf st \<and> \<not> fk_force_next_merge_into_miss st"

definition fake_view :: "inner \<Rightarrow> astore" where
  "fake_view st = \<lparr>a_job = map_of (fk_jobs st),
     a_journal = (\<lambda>i. map entry_of (filter (\<lambda>x. entry_job_id x = i) (fk_journal st)))\<rparr>"

lemma fake_inv_wf: "fake_inv C st \<Longrightarrow> fake_wf st"
  by (simp add: fake_inv_def)

lemma fake_view_sel [simp]: "a_job (fake_view st) = map_of (fk_jobs st)"
  "a_journal (fake_view st) i = map entry_of (filter (\<lambda>x. entry_job_id x = i) (fk_journal st))"
  by (simp_all add: fake_view_def)

lemma fake_view_force [simp]: "fake_view (st\<lparr>fk_force_next_merge_into_miss := b\<rparr>) = fake_view st"
  "fake_wf (st\<lparr>fk_force_next_merge_into_miss := b\<rparr>) = fake_wf st"
  by (simp_all add: fake_view_def fake_wf_def)

lemma fake_new_inv: "chrono_ok C \<Longrightarrow> fake_inv C fake_new"
  by (simp add: fake_inv_def fake_wf_def fake_new_def)

lemma fake_new_view: "fake_view fake_new = \<lparr>a_job = (\<lambda>_. None), a_journal = (\<lambda>_. [])\<rparr>"
  by (simp add: fake_view_def fake_new_def)

lemma fake_lookup: "fake_wf st \<Longrightarrow> map_of (fk_jobs st) i = Some j \<longleftrightarrow> (i, j) \<in> set (fk_jobs st)"
  by (simp add: fake_wf_def)

lemma fake_lookup_wf: "fake_wf st \<Longrightarrow> map_of (fk_jobs st) i = Some j \<Longrightarrow> job_id j = i \<and> job_wf j"
  by (auto simp: fake_lookup fake_wf_def)

lemma job_values_iff: "fake_wf st \<Longrightarrow> j \<in> set (job_values st) \<longleftrightarrow> map_of (fk_jobs st) (job_id j) = Some j"
  by (auto simp: job_values_def fake_lookup fake_wf_def image_iff intro!: bexI)

lemma job_values_ex: "fake_wf st \<Longrightarrow> j \<in> set (job_values st) \<longleftrightarrow> (\<exists>i. map_of (fk_jobs st) i = Some j)"
  using fake_lookup_wf job_values_iff by blast

lemma job_ids_distinct: "fake_wf st \<Longrightarrow> distinct (map job_id (job_values st))"
proof -
  assume wf: "fake_wf st"
  then have "map job_id (job_values st) = map fst (fk_jobs st)" by (auto simp: job_values_def fake_wf_def)
  with wf show ?thesis by (simp add: fake_wf_def)
qed

lemma fake_view_wf:
  assumes "fake_wf st"
  shows "astore_wf (fake_view st)"
proof -
  have "a_journal (fake_view st) i = []" if "map_of (fk_jobs st) i = None" for i
    using assms that by (auto simp: fake_wf_def filter_empty_conv map_of_eq_None_iff)
  then show ?thesis using fake_lookup_wf [OF assms] by (simp add: astore_wf_def)
qed

lemma update_entries: "set (AList.update k v xs) \<subseteq> insert (k, v) (set xs)"
  "fst ` set (AList.update k v xs) = insert k (fst ` set xs)"
  by (induction xs) auto

lemma put_job_view: "fake_view (put_job i j st) = (fake_view st)\<lparr>a_job := (a_job (fake_view st))(i \<mapsto> j)\<rparr>"
  by (simp add: fake_view_def put_job_def update_conv')

lemma push_entry_view:
  "fake_view (push_entry i ja st) = (fake_view st)\<lparr>a_journal := (a_journal (fake_view st))(i := a_journal (fake_view st) i @ [ja])\<rparr>"
  by (auto simp: fake_view_def push_entry_def Let_def entry_of_def)

lemma put_job_wf:
  assumes "fake_wf st" "job_id j = i" "job_wf j"
  shows "fake_wf (put_job i j st)"
proof -
  have "\<forall>x \<in> set (AList.update i j (fk_jobs st)). job_id (snd x) = fst x \<and> job_wf (snd x)"
    using assms update_entries(1) [of i j "fk_jobs st"] by (auto simp: fake_wf_def)
  then show ?thesis using assms(1) by (auto simp: fake_wf_def put_job_def distinct_update update_entries(2))
qed

lemma push_entry_wf: "fake_wf st \<Longrightarrow> i \<in> fst ` set (fk_jobs st) \<Longrightarrow> fake_wf (push_entry i ja st)"
  by (auto simp: fake_wf_def push_entry_def Let_def sorted_wrt_append)

lemma put_push_sel [simp]:
  "fk_force_next_merge_into_miss (put_job i j st) = fk_force_next_merge_into_miss st"
  "fk_force_next_merge_into_miss (push_entry i ja st) = fk_force_next_merge_into_miss st"
  "fk_jobs (push_entry i ja st) = fk_jobs st"
  "fst ` set (fk_jobs (put_job i j st)) = insert i (fst ` set (fk_jobs st))"
  by (simp_all add: put_job_def push_entry_def Let_def update_entries(2))

section \<open>Guarded writes\<close>

text \<open>Settlement, recovery and merge have the shape of the specification's guarded write.\<close>

definition fake_guarded ::
  "(job_record \<Rightarrow> bool) \<Rightarrow> (job_record \<Rightarrow> job_record) \<Rightarrow> journal_append \<Rightarrow> ulid \<Rightarrow> inner \<Rightarrow> bool res \<times> inner" where
  "fake_guarded g f ja i st =
     (case map_of (fk_jobs st) i of
        Some j \<Rightarrow> if g j then (Inr True, push_entry i ja (put_job i (f j) st)) else (Inr False, st)
      | None \<Rightarrow> (Inr False, st))"

lemma fake_guarded_ok:
  assumes "fake_inv C st" "\<And>j. job_wf j \<Longrightarrow> g j \<Longrightarrow> job_id (f j) = job_id j \<and> job_wf (f j)"
  shows "fake_inv C (snd (fake_guarded g f ja i st)) \<and>
    fst (fake_guarded g f ja i st) = Inr (fst (guarded g f [ja] i (fake_view st))) \<and>
    fake_view (snd (fake_guarded g f ja i st)) = snd (guarded g f [ja] i (fake_view st))"
proof (cases "map_of (fk_jobs st) i")
  case (Some j)
  have wf: "fake_wf st" using assms(1) by (simp add: fake_inv_def)
  have j: "job_id j = i" "job_wf j" using fake_lookup_wf [OF wf Some] by simp_all
  have "fake_inv C (push_entry i ja (put_job i (f j) st))" if "g j"
    using assms j that wf by (auto simp: fake_inv_def intro!: push_entry_wf put_job_wf)
  then show ?thesis
    using Some assms(1) by (simp add: fake_guarded_def guarded_def push_entry_view put_job_view)
qed (simp add: fake_guarded_def guarded_def assms(1))

lemma fake_settle_eq: "fake_settle i by rn stl ja = fake_guarded (owned by rn) (settle_job stl) ja i"
  by (rule ext, cases stl) (auto simp: fake_settle_def fake_guarded_def owned_def unclaim_def Let_def split: option.split)

lemma fake_recover_eq: "fake_recover now i vis fc rn ja = fake_guarded (expired now rn) (recover_job vis fc) ja i"
  by (rule ext) (auto simp: fake_recover_def fake_guarded_def expired_def recover_job_def unclaim_def split: option.split)

lemma fake_merge_eq:
  "\<not> fk_force_next_merge_into_miss st \<Longrightarrow>
    fake_merge_into i u ja st = fake_guarded (\<lambda>j. job_status j = Pending) (merge_job u) ja i st"
  by (auto simp: fake_merge_into_def fake_guarded_def merge_job_def split: option.split)

lemma fake_settle_ok:
  assumes "fake_inv C st"
  shows "fake_inv C (snd (fake_settle i by rn stl ja st))"
    "conforms fake_view st (fake_settle i by rn stl ja st) (spec_settle by rn stl ja i (fake_view st))"
    "\<exists>v. fst (fake_settle i by rn stl ja st) = Inr v"
  using fake_guarded_ok [OF assms, of "owned by rn" "settle_job stl" ja i]
  by (simp_all add: fake_settle_eq spec_settle_def conforms_def job_wf_settle owned_def)

lemma fake_recover_ok:
  assumes "fake_inv C st"
  shows "fake_inv C (snd (fake_recover now i vis fc rn ja st))"
    "conforms fake_view st (fake_recover now i vis fc rn ja st) (spec_recover now vis fc rn ja i (fake_view st))"
    "\<exists>v. fst (fake_recover now i vis fc rn ja st) = Inr v"
  using fake_guarded_ok [OF assms, of "expired now rn" "recover_job vis fc" ja i]
  by (simp_all add: fake_recover_eq spec_recover_def conforms_def job_wf_recover expired_def)

lemma fake_merge_ok:
  assumes "fake_inv C st" "merge_valid u"
  shows "fake_inv C (snd (fake_merge_into i u ja st))"
    "conforms fake_view st (fake_merge_into i u ja st) (spec_merge u ja i (fake_view st))"
    "\<exists>v. fst (fake_merge_into i u ja st) = Inr v"
proof -
  have eq: "fake_merge_into i u ja st = fake_guarded (\<lambda>j. job_status j = Pending) (merge_job u) ja i st"
    using assms(1) by (simp add: fake_merge_eq fake_inv_def)
  show "fake_inv C (snd (fake_merge_into i u ja st))"
    "conforms fake_view st (fake_merge_into i u ja st) (spec_merge u ja i (fake_view st))"
    "\<exists>v. fst (fake_merge_into i u ja st) = Inr v"
    using fake_guarded_ok [OF assms(1), of "\<lambda>j. job_status j = Pending" "merge_job u" ja i]
    by (simp_all add: eq spec_merge_def conforms_def job_wf_merge assms(2))
qed

lemma fake_enqueue_ok:
  assumes "new_priority nj \<in> {0, 1, 2}"
  shows "fake_inv C st \<Longrightarrow> fake_inv C (snd (fake_enqueue nj st))"
    "fst (fake_enqueue nj st) = Inr ()" "fake_view (snd (fake_enqueue nj st)) = spec_enqueue nj (fake_view st)"
proof -
  have eq: "fake_enqueue nj st = (Inr (), put_job (new_id nj) (fresh_job nj) st)"
    using validate_iff [THEN iffD2, OF assms] by (simp add: fake_enqueue_def fresh_job_def)
  show "fake_inv C st \<Longrightarrow> fake_inv C (snd (fake_enqueue nj st))"
    using assms by (auto simp: eq fake_inv_def intro!: put_job_wf job_wf_fresh)
  show "fst (fake_enqueue nj st) = Inr ()" "fake_view (snd (fake_enqueue nj st)) = spec_enqueue nj (fake_view st)"
    by (simp_all add: eq put_job_view spec_enqueue_def)
qed

lemma fake_enqueue_invalid:
  "new_priority nj \<notin> {0, 1, 2} \<Longrightarrow> fake_enqueue nj st = (Inl (InvalidPriority (new_priority nj)), st)"
  by (simp add: fake_enqueue_def validate_def from_smallint_None)

section \<open>Sweeps\<close>

lemma sweep_fold:
  "fk_jobs (fold (\<lambda>i acc. acc\<lparr>fk_jobs := AList.delete i (fk_jobs acc),
      fk_journal := filter (\<lambda>x. entry_job_id x \<noteq> i) (fk_journal acc)\<rparr>) is st) =
    filter (\<lambda>x. fst x \<notin> set is) (fk_jobs st)"
  "fk_journal (fold (\<lambda>i acc. acc\<lparr>fk_jobs := AList.delete i (fk_jobs acc),
      fk_journal := filter (\<lambda>x. entry_job_id x \<noteq> i) (fk_journal acc)\<rparr>) is st) =
    filter (\<lambda>x. entry_job_id x \<notin> set is) (fk_journal st)"
  "fk_next_journal_id (fold (\<lambda>i acc. acc\<lparr>fk_jobs := AList.delete i (fk_jobs acc),
      fk_journal := filter (\<lambda>x. entry_job_id x \<noteq> i) (fk_journal acc)\<rparr>) is st) = fk_next_journal_id st"
  "fk_force_next_merge_into_miss (fold (\<lambda>i acc. acc\<lparr>fk_jobs := AList.delete i (fk_jobs acc),
      fk_journal := filter (\<lambda>x. entry_job_id x \<noteq> i) (fk_journal acc)\<rparr>) is st) = fk_force_next_merge_into_miss st"
  by (induction "is" arbitrary: st) (auto simp: AList.delete_eq intro!: filter_cong)

lemma map_of_without: "map_of (filter (\<lambda>x. fst x \<notin> A) xs) i = (if i \<in> A then None else map_of xs i)"
  by (induction xs) auto

lemma fake_cleanup_ok:
  assumes "fake_inv C st"
  shows "fake_inv C (snd (fake_cleanup cc st))"
    "fst (fake_cleanup cc st) = Inr (card {j. \<exists>i. a_job (fake_view st) i = Some j \<and> sweepable cc j})"
    "fake_view (snd (fake_cleanup cc st)) = spec_cleanup cc (fake_view st)"
proof -
  note wf = fake_inv_wf [OF assms]
  let ?swept = "filter (sweepable cc) (job_values st)"
  let ?ids = "set (map job_id ?swept)"
  have guard: "(\<lambda>j. (case job_finished_at j of None \<Rightarrow> False | Some f \<Rightarrow> f < cc_finished_before cc) \<and>
      (case cc_kind cc of None \<Rightarrow> True | Some k \<Rightarrow> job_kind j = k) \<and>
      (case cc_status cc of None \<Rightarrow> True | Some stat \<Rightarrow> job_status j = stat)) = sweepable cc"
    by (auto simp: sweepable_def fun_eq_iff split: option.splits)
  have jobs: "fk_jobs (snd (fake_cleanup cc st)) = filter (\<lambda>x. fst x \<notin> ?ids) (fk_jobs st)"
    and journal: "fk_journal (snd (fake_cleanup cc st)) = filter (\<lambda>x. entry_job_id x \<notin> ?ids) (fk_journal st)"
    and rest: "fk_next_journal_id (snd (fake_cleanup cc st)) = fk_next_journal_id st"
      "fk_force_next_merge_into_miss (snd (fake_cleanup cc st)) = fk_force_next_merge_into_miss st"
    by (simp_all add: fake_cleanup_def Let_def guard sweep_fold)
  have ids: "i \<in> ?ids \<longleftrightarrow> (\<exists>j. map_of (fk_jobs st) i = Some j \<and> sweepable cc j)" for i
    using fake_lookup_wf [OF wf] by (auto simp: job_values_iff [OF wf])
  show "fake_inv C (snd (fake_cleanup cc st))"
  proof -
    have "fst ` set (filter (\<lambda>x. fst x \<notin> ?ids) (fk_jobs st)) = fst ` set (fk_jobs st) - ?ids" by auto
    then show ?thesis
      using assms by (simp add: fake_inv_def fake_wf_def jobs journal rest distinct_map_filter sorted_wrt_filter sorted_wrt_map)
  qed
  have "card (set ?swept) = length ?swept"
    using job_ids_distinct [OF wf] by (intro distinct_card distinct_filter) (simp add: distinct_map)
  moreover have "set ?swept = {j. \<exists>i. a_job (fake_view st) i = Some j \<and> sweepable cc j}"
    by (auto simp: job_values_ex [OF wf])
  ultimately show "fst (fake_cleanup cc st) = Inr (card {j. \<exists>i. a_job (fake_view st) i = Some j \<and> sweepable cc j})"
    by (simp add: fake_cleanup_def Let_def guard)
  have "map_of (filter (\<lambda>x. fst x \<notin> ?ids) (fk_jobs st)) i = (if i \<in> ?ids then None else map_of (fk_jobs st) i)" for i
    by (rule map_of_without)
  moreover have "filter (\<lambda>x. entry_job_id x = i) (filter (\<lambda>x. entry_job_id x \<notin> ?ids) (fk_journal st)) =
      (if i \<in> ?ids then [] else filter (\<lambda>x. entry_job_id x = i) (fk_journal st))" for i
    by (auto simp: filter_empty_conv intro!: filter_cong)
  ultimately show "fake_view (snd (fake_cleanup cc st)) = spec_cleanup cc (fake_view st)"
    by (simp add: fake_view_def spec_cleanup_def jobs journal ids fun_eq_iff flip: ids)
qed

section \<open>Reads\<close>

lemma fake_journal_ok:
  assumes "fake_wf st" "fake_journal i st = Inr rs"
  shows "map entry_of rs = a_journal (fake_view st) i"
proof -
  let ?es = "filter (\<lambda>x. entry_job_id x = i) (fk_journal st)"
  have "sorted_wrt (<) (map entry_id (fk_journal st))" using assms(1) by (simp add: fake_wf_def)
  then have "sorted (map entry_id ?es)"
    by (intro sorted_filter) (simp add: strict_sorted_imp_sorted)
  then have "sort_key entry_id ?es = ?es" by (rule sort_key_id_if_sorted)
  with assms(2) show ?thesis by (simp add: fake_journal_def)
qed

lemma fake_find_stale_ok:
  assumes "fake_wf st" "fake_find_stale now st = Inr js"
  shows "j \<in> set js \<longleftrightarrow> map_of (fk_jobs st) (job_id j) = Some j \<and> expired now (job_run_count j) j"
  using assms(2) by (auto simp: fake_find_stale_def expired_def job_values_iff [OF assms(1)] split: option.splits)

lemma fake_next_visible_ok:
  assumes "fake_wf st" "fake_next_visible_at now ks st = Inr upcoming"
  shows "case upcoming of
      None \<Rightarrow> \<forall>i j. a_job (fake_view st) i = Some j \<and> job_status j = Pending \<and> job_kind j \<in> set ks \<longrightarrow> job_visible_at j \<le> now
    | Some t \<Rightarrow> now < t \<and> (\<forall>i j. a_job (fake_view st) i = Some j \<and> job_status j = Pending \<and> job_kind j \<in> set ks \<longrightarrow>
        job_visible_at j \<le> now \<or> t \<le> job_visible_at j)"
proof -
  let ?F = "map job_visible_at
    (filter (\<lambda>j. job_status j = Pending \<and> now < job_visible_at j \<and> job_kind j \<in> set ks) (job_values st))"
  have in_F: "job_visible_at j \<in> set ?F"
    if "a_job (fake_view st) i = Some j" "job_status j = Pending" "job_kind j \<in> set ks" "\<not> job_visible_at j \<le> now" for i j
  proof -
    have "j \<in> set (job_values st)" using that(1) job_values_ex [OF assms(1)] by auto
    with that show ?thesis by auto
  qed
  have up: "upcoming = (if ?F = [] then None else Some (Min (set ?F)))"
    using assms(2) by (simp add: fake_next_visible_at_def Let_def)
  show ?thesis
  proof (cases "?F = []")
    case True
    then show ?thesis using in_F up by fastforce
  next
    case False
    then have "set ?F \<noteq> {}" unfolding set_empty .
    then have "Min (set ?F) \<in> set ?F" by (rule Min_in [OF finite_set])
    then have "now < Min (set ?F)" by auto
    moreover have "Min (set ?F) \<le> x" if "x \<in> set ?F" for x using that by (intro Min_le) simp_all
    ultimately show ?thesis using in_F up False by (simp only: if_False option.case) blast
  qed
qed

lemma fake_dedup_ok:
  assumes "fake_wf st"
  shows "fake_dedup_candidate k key st = Inr None \<Longrightarrow> a_job (fake_view st) i = Some j \<Longrightarrow>
      \<not> (job_kind j = k \<and> job_dedup_key j = Some key \<and> job_status j = Pending)"
    "fake_dedup_candidate k key st = Inr (Some j) \<Longrightarrow>
      a_job (fake_view st) (job_id j) = Some j \<and> job_kind j = k \<and> job_dedup_key j = Some key \<and> job_status j = Pending \<and>
      (\<forall>i l. a_job (fake_view st) i = Some l \<and> job_kind l = k \<and> job_dedup_key l = Some key \<and> job_status l = Pending \<longrightarrow>
        job_created_at j \<le> job_created_at l)"
proof -
  let ?F = "filter (\<lambda>j. job_status j = Pending \<and> job_kind j = k \<and> job_dedup_key j = Some key) (job_values st)"
  let ?key = "\<lambda>j. (job_created_at j, job_id j)"
  have in_F: "l \<in> set ?F \<longleftrightarrow> (\<exists>i. a_job (fake_view st) i = Some l) \<and> job_status l = Pending \<and> job_kind l = k \<and> job_dedup_key l = Some key" for l
    using job_values_ex [OF assms, of l] by auto
  show "\<not> (job_kind j = k \<and> job_dedup_key j = Some key \<and> job_status j = Pending)"
    if "fake_dedup_candidate k key st = Inr None" "a_job (fake_view st) i = Some j"
  proof -
    have "?F = []" using that(1) by (simp add: fake_dedup_candidate_def Let_def split: if_splits)
    then show ?thesis using in_F [of j] that(2) by auto
  qed
  assume "fake_dedup_candidate k key st = Inr (Some j)"
  then have F: "?F \<noteq> []" "j = arg_min_list ?key ?F" by (simp_all add: fake_dedup_candidate_def Let_def split: if_splits)
  then have mem: "j \<in> set ?F" using arg_min_list_in by blast
  then have job: "map_of (fk_jobs st) (job_id j) = Some j" by (simp add: job_values_iff [OF assms])
  have old: "job_created_at j \<le> job_created_at l" if "l \<in> set ?F" for l
  proof -
    have "?key j \<le> ?key l" using f_arg_min_list_f [OF F(1), of ?key] F(2) that by simp
    then show ?thesis by (auto simp: less_eq_prod_def)
  qed
  note job
  moreover have "job_created_at j \<le> job_created_at l"
    if "a_job (fake_view st) i = Some l \<and> job_kind l = k \<and> job_dedup_key l = Some key \<and> job_status l = Pending" for i l
    by (rule old) (use that in_F [of l] in blast)
  ultimately show "a_job (fake_view st) (job_id j) = Some j \<and> job_kind j = k \<and> job_dedup_key j = Some key \<and> job_status j = Pending \<and>
      (\<forall>i l. a_job (fake_view st) i = Some l \<and> job_kind l = k \<and> job_dedup_key l = Some key \<and> job_status l = Pending \<longrightarrow>
        job_created_at j \<le> job_created_at l)"
    using mem unfolding fake_view_sel set_filter mem_Collect_eq by blast
qed

section \<open>Statistics\<close>

text \<open>The jobs counted so far, as the fold leaves them.\<close>

definition tally :: "status \<Rightarrow> string \<Rightarrow> job_record list \<Rightarrow> job_record list" where
  "tally stat k js = filter (\<lambda>j. job_status j = stat \<and> job_kind j = k) js"

definition counted :: "nat \<Rightarrow> nat option" where
  "counted n = (if n = 0 then None else Some n)"

lemma tally_simps: "tally stat k [] = []"
  "tally stat k (js @ [j]) = tally stat k js @ (if job_status j = stat \<and> job_kind j = k then [j] else [])"
  by (simp_all add: tally_def)

lemma counted_simps: "counted 0 = None" "counted (Suc n) = Some (Suc n)" "(case counted n of Some n \<Rightarrow> n | None \<Rightarrow> 0) = n"
  by (simp_all add: counted_def)

lemma stats_fold:
  assumes "chrono_ok C"
  shows "fold (stats_step C now) js snapshot_default =
    \<lparr>snap_pending_by_kind = (\<lambda>k. counted (length (tally Pending k js))),
     snap_oldest_pending_age = (\<lambda>k. if tally Pending k js = [] then None
       else Some (Max ((\<lambda>j. nat (now - job_created_at j)) ` set (tally Pending k js)))),
     snap_claimed = length (filter (\<lambda>j. job_status j = Claimed) js),
     snap_dead_by_kind = (\<lambda>k. counted (length (tally Dead k js)))\<rparr>"
proof (induction js rule: rev_induct)
  case Nil
  show ?case by (simp add: snapshot_default_def tally_simps counted_simps)
next
  case (snoc j js)
  have age: "(case to_std C (now - job_created_at j) of Some d \<Rightarrow> d | None \<Rightarrow> 0) = nat (now - job_created_at j)"
    by (simp add: chrono_okD(5) [OF assms])
  let ?age = "\<lambda>k js. if tally Pending k js = [] then None
    else Some (Max ((\<lambda>j. nat (now - job_created_at j)) ` set (tally Pending k js)))"
  have oldest: "?age k (js @ [j]) = (if k = job_kind j then
      Some (case ?age k js of Some prev \<Rightarrow> max prev (nat (now - job_created_at j)) | None \<Rightarrow> nat (now - job_created_at j))
      else ?age k js)" if "job_status j = Pending" for k
    using that by (auto simp: tally_simps max.commute)
  have pend: "(\<lambda>k. counted (length (tally stat k (js @ [j])))) =
      (if job_status j = stat then (\<lambda>k. counted (length (tally stat k js)))(job_kind j \<mapsto> length (tally stat (job_kind j) js) + 1)
       else (\<lambda>k. counted (length (tally stat k js))))" for stat
    by (auto simp: tally_simps counted_simps fun_eq_iff)
  have ages: "(\<lambda>k. ?age k (js @ [j])) = (if job_status j = Pending then (\<lambda>k. ?age k js)(job_kind j \<mapsto>
      (case ?age (job_kind j) js of Some prev \<Rightarrow> max prev (nat (now - job_created_at j)) | None \<Rightarrow> nat (now - job_created_at j)))
      else (\<lambda>k. ?age k js))"
    using oldest by (auto simp: fun_eq_iff tally_simps(2))
  have step: "fold (stats_step C now) (js @ [j]) snapshot_default = stats_step C now j (fold (stats_step C now) js snapshot_default)"
    by simp
  show ?case
    unfolding step snoc pend ages by (cases "job_status j") (simp_all add: stats_step_def Let_def age counted_simps)
qed

lemma Max_age:
  assumes "finite A" "A \<noteq> {}"
  shows "Max ((\<lambda>j. nat (now - f j)) ` A) = nat (now - Min (f ` A :: int set))"
proof (rule Max_eqI)
  show "y \<le> nat (now - Min (f ` A))" if "y \<in> (\<lambda>j. nat (now - f j)) ` A" for y
    using that assms by (auto intro!: nat_mono)
  have "Min (f ` A) \<in> f ` A" using assms by (intro Min_in) auto
  then show "nat (now - Min (f ` A)) \<in> (\<lambda>j. nat (now - f j)) ` A" by auto
qed (use assms in simp)

lemma fake_stats_ok:
  assumes "fake_inv C st" "fake_stats C now st = Inr sn"
  shows "sn = spec_stats now (fake_view st)"
proof -
  have wf: "fake_wf st" and chr: "chrono_ok C" using assms(1) by (simp_all add: fake_inv_def)
  have dist: "distinct (job_values st)" using job_ids_distinct [OF wf] by (simp add: distinct_map)
  have set: "set (tally stat k (job_values st)) = jobs_in (fake_view st) stat k" for stat k
    by (auto simp: tally_def jobs_in_def job_values_ex [OF wf])
  have len: "length (tally stat k (job_values st)) = card (jobs_in (fake_view st) stat k)" for stat k
    using distinct_card [of "tally stat k (job_values st)"] dist by (simp add: set [symmetric] tally_def)
  have empty: "tally stat k (job_values st) = [] \<longleftrightarrow> jobs_in (fake_view st) stat k = {}" for stat k
    by (simp flip: set)
  have fin: "finite (jobs_in (fake_view st) stat k)" for stat k by (simp flip: set)
  have "{j. \<exists>i. a_job (fake_view st) i = Some j \<and> job_status j = Claimed} = set (filter (\<lambda>j. job_status j = Claimed) (job_values st))"
    by (auto simp: job_values_ex [OF wf])
  then have claimed: "length (filter (\<lambda>j. job_status j = Claimed) (job_values st)) =
      card {j. \<exists>i. a_job (fake_view st) i = Some j \<and> job_status j = Claimed}"
    using distinct_card [of "filter (\<lambda>j. job_status j = Claimed) (job_values st)"] dist by simp
  show ?thesis
    using assms(2) unfolding fake_stats_def stats_fold [OF chr] spec_stats_def set len empty claimed
    by (auto simp: counted_def fun_eq_iff Max_age fin)
qed

section \<open>Listings\<close>

abbreviation stamp_older :: "stamp \<Rightarrow> stamp \<Rightarrow> bool" where
  "stamp_older p q \<equiv> p < q"

lemma fake_query_ok:
  assumes "fake_wf st" "fake_query_jobs hf st = Inr js"
  shows "\<exists>all. set all = {j. \<exists>i. a_job (fake_view st) i = Some j \<and> listed stamp_older hf j} \<and>
    newest_first stamp_older all \<and> js = cut (hf_limit hf) all"
proof -
  let ?jobs = "filter (listed stamp_older hf) (job_values st)"
  let ?all = "rev (sort_key stamp ?jobs)"
  have stamp: "(\<lambda>j. (job_created_at j, job_id j)) = stamp" by (simp add: fun_eq_iff stamp_def)
  have guard: "(\<lambda>j. (case hf_kind hf of None \<Rightarrow> True | Some k \<Rightarrow> job_kind j = k) \<and>
      (case hf_status hf of None \<Rightarrow> True | Some stat \<Rightarrow> job_status j = stat) \<and>
      (case hf_finished_since hf of None \<Rightarrow> True
       | Some since \<Rightarrow> (case job_finished_at j of None \<Rightarrow> False | Some f \<Rightarrow> since \<le> f)) \<and>
      (case hf_finished_until hf of None \<Rightarrow> True
       | Some until \<Rightarrow> (case job_finished_at j of None \<Rightarrow> False | Some f \<Rightarrow> f < until)) \<and>
      (case hf_created_before hf of None \<Rightarrow> True | Some (ts, i) \<Rightarrow> (job_created_at j, job_id j) < (ts, i))) =
    listed stamp_older hf"
    by (auto simp: listed_def stamp_def fun_eq_iff split: option.splits)
  have "js = cut (hf_limit hf) ?all"
    using assms(2) unfolding fake_query_jobs_def guard stamp Let_def
    by (cases "hf_limit hf") (auto simp: cut_def max_def)
  moreover have "set ?all = {j. \<exists>i. a_job (fake_view st) i = Some j \<and> listed stamp_older hf j}"
    by (auto simp: job_values_ex [OF assms(1)])
  moreover have "newest_first stamp_older ?all"
  proof -
    have "distinct (map job_id ?jobs)" using job_ids_distinct [OF assms(1)] by (rule distinct_map_filter)
    then have "distinct (map stamp (sort_key stamp ?jobs))" by (auto simp: distinct_map inj_on_def stamp_def)
    then have "sorted_wrt (<) (map stamp (sort_key stamp ?jobs))" by (simp add: strict_sorted_iff)
    then show ?thesis by (simp add: newest_first_def sorted_wrt_rev sorted_wrt_map)
  qed
  ultimately show ?thesis by blast
qed

section \<open>The interfaces it implements\<close>

interpretation fake_reads: store_reads "fake_ops C" "fake_inv C" fake_view
  for C
proof (unfold_locales, goal_cases)
  case (1 s) then show ?case by (simp add: fake_inv_def fake_view_wf)
next
  case (2 s e i rs) then show ?case using fake_journal_ok fake_inv_wf by (simp add: fake_ops_sel)
next
  case (3 s e i r) then show ?case by (simp add: fake_ops_sel fake_job_def)
next
  case (4 s e js j) then show ?case using fake_find_stale_ok [of s "env_now e" js j] fake_inv_wf by (simp add: fake_ops_sel)
next
  case (5 s e k key i j) then show ?case using fake_dedup_ok(1) [OF fake_inv_wf] unfolding fake_ops_sel by blast
next
  case (6 s e k key j) then show ?case using fake_dedup_ok(2) fake_inv_wf unfolding fake_ops_sel by blast
next
  case (7 s e ks upcoming) then show ?case using fake_next_visible_ok fake_inv_wf unfolding fake_ops_sel by blast
next
  case (8 s e now sn) then show ?case using fake_stats_ok by (simp add: fake_ops_sel)
qed

lemma fake_enqueue_law:
  "fake_inv C s \<Longrightarrow> a_job (fake_view s) (new_id nj) = None \<Longrightarrow> fake_inv C (snd (fake_enqueue nj s))"
  "new_priority nj \<in> {0, 1, 2} \<Longrightarrow> conforms fake_view s (fake_enqueue nj s) ((), spec_enqueue nj (fake_view s))"
proof -
  show "fake_inv C s \<Longrightarrow> fake_inv C (snd (fake_enqueue nj s))"
    by (cases "new_priority nj \<in> {0, 1, 2}") (rule fake_enqueue_ok(1), assumption+, simp only: fake_enqueue_invalid snd_conv simp_thms)
  show "new_priority nj \<in> {0, 1, 2} \<Longrightarrow> conforms fake_view s (fake_enqueue nj s) ((), spec_enqueue nj (fake_view s))"
    by (simp only: conforms_def fake_enqueue_ok sum.case fst_conv snd_conv simp_thms)
qed

lemma fake_cleanup_law:
  "fake_inv C s \<Longrightarrow> fake_view (snd (fake_cleanup cc s)) = fake_view s \<or> fake_view (snd (fake_cleanup cc s)) = spec_cleanup cc (fake_view s)"
  "fake_inv C s \<Longrightarrow> fake_cleanup cc s = (Inr n, s') \<Longrightarrow>
    n = card {j. \<exists>i. a_job (fake_view s) i = Some j \<and> sweepable cc j} \<and> fake_view s' = spec_cleanup cc (fake_view s)"
  using fake_cleanup_ok(2,3) [of C s cc] by auto

lemma fake_responds:
  "fake_inv C s \<Longrightarrow> (\<exists>v. fst (fake_settle i by rn stl ja s) = Inr v) \<and> (\<exists>v. fst (fake_recover now i vis fc rn ja s) = Inr v) \<and>
    (merge_valid u \<longrightarrow> (\<exists>v. fst (fake_merge_into i u ja s) = Inr v))"
  using fake_settle_ok(3) [of C s i "by" rn stl ja] fake_recover_ok(3) [of C s now i vis fc rn ja] fake_merge_ok(3) [of C s u i ja] by blast

lemmas fake_laws = fake_enqueue_invalid fake_enqueue_law fake_settle_ok(1,2) fake_recover_ok(1,2) fake_merge_ok(1,2)
  fake_responds fake_enqueue_ok(2) fake_cleanup_ok(1) fake_cleanup_law

interpretation fake: store_writes "fake_ops C" "fake_inv C" fake_view
  for C
  by unfold_locales (unfold fake_ops_sel, (assumption | rule fake_laws)+)

interpretation fake_history: store_history "fake_ops C" "fake_inv C" fake_view stamp_older
  for C
proof
  show "\<exists>all. set all = {j. \<exists>i. a_job (fake_view s) i = Some j \<and> listed stamp_older hf j} \<and>
      newest_first stamp_older all \<and> js = cut (hf_limit hf) all"
    if "fake_inv C s" "so_query_jobs (fake_ops C) e hf s = Inr js" for s e hf js
    using fake_query_ok [of s hf js] that by (simp add: fake_ops_sel fake_inv_def)
qed auto

end
