(* ===== verification/Fake_Store_Props.thy ===== *)
theory Fake_Store_Props
  imports Fake_Store
begin

text \<open>
  What the in-memory store promises to the tests that run on it: it answers like the PostgreSQL adapter, its
  claim is the specified one up to the overflow of the run counter, where it panics, and its seam makes an
  enqueue lose the merge race.
\<close>

section \<open>Agreement with PostgreSQL\<close>

text \<open>Whatever the adapter answers successfully, the in-memory store answers too, and the states agree again.\<close>

definition echoes :: "ulid_codec \<Rightarrow> 'a res \<times> pg_state \<Rightarrow> 'a res \<times> inner \<Rightarrow> bool" where
  "echoes c out out' \<longleftrightarrow> (\<forall>v s'. out = (Inr v, s') \<longrightarrow> fst out' = Inr v \<and> fake_view (snd out') = pg_view c s')"

lemma conforming_echo:
  assumes "conforms (pg_view c) s out spec" "conforms fake_view st out' spec" "\<exists>v. fst out' = Inr v"
  shows "echoes c out out'"
  using assms by (auto simp: echoes_def conforms_def split: sum.splits)


text \<open>The sample queue, in memory.\<close>

definition sample_inner :: inner where
  "sample_inner = snd (fake_enqueue sample_new fake_new)"

definition sample_calendar :: chrono where
  "sample_calendar = calendar 0 (10 ^ 20)"

lemma sample_new_valid: "new_priority sample_new \<in> {0, 1, 2}"
  by (simp add: sample_new_def)

lemma sample_inner_inv: "fake_inv sample_calendar sample_inner"
  unfolding sample_inner_def sample_calendar_def
  by (intro fake_enqueue_ok(1) sample_new_valid fake_new_inv calendar_ok) simp

lemma sample_inner_view: "fake_view sample_inner = pg_view binary_codec sample_store"
  unfolding sample_inner_def sample_view fake_enqueue_ok(3) [OF sample_new_valid] fake_new_view pg_empty_view ..


section \<open>Claims\<close>

abbreviation scan_key_of :: "job_record \<Rightarrow> scan_key" where
  "scan_key_of j \<equiv> (job_priority j, job_created_at j, job_id j)"

lemma claim_scan_None: "claim_scan el best js = None \<longleftrightarrow> best = None \<and> (\<forall>j \<in> set js. \<not> el j)"
proof (induction js arbitrary: best)
  case (Cons j js)
  then show ?case by (cases best) (simp_all add: Let_def del: not_None_eq)
qed simp

text \<open>The scan finds the least key among the eligible jobs and what it started with.\<close>

lemma claim_scan_Some:
  assumes "claim_scan el best js = Some (i, k)"
  shows "(best = Some (i, k) \<or> (\<exists>j \<in> set js. el j \<and> i = job_id j \<and> k = scan_key_of j)) \<and>
    (\<forall>b. best = Some b \<longrightarrow> k \<le> snd b) \<and> (\<forall>j \<in> set js. el j \<longrightarrow> k \<le> scan_key_of j)"
  using assms
proof (induction js arbitrary: best)
  case (Cons j js)
  show ?case
  proof (cases "el j \<and> (case best of None \<Rightarrow> True | Some (_, b) \<Rightarrow> scan_key_of j < b)")
    case True
    then have "claim_scan el (Some (job_id j, scan_key_of j)) js = Some (i, k)" using Cons.prems by simp
    from Cons.IH [OF this] True show ?thesis by (fastforce split: option.splits)
  next
    case False
    then have scan: "claim_scan el best js = Some (i, k)" using Cons.prems by (auto simp: Let_def split: if_splits)
    have "k \<le> scan_key_of j" if "el j"
      using False that Cons.IH [OF scan] by (auto split: option.splits)
    with Cons.IH [OF scan] show ?thesis by auto
  qed
qed simp

lemma fake_claim_ok:
  assumes "fake_inv C st" "MIN_UTC C \<le> now" "now \<le> MAX_UTC C"
  shows "case fake_claim_next C now ks fl ls by st of
      Some (r, st') \<Rightarrow> spec_claim (\<lambda>_. False) now ks fl ls by (fake_view st) r (fake_view st') \<and> fake_inv C st'
    | None \<Rightarrow> \<exists>i j. a_job (fake_view st) i = Some j \<and> claimable now ks fl j \<and> unat (job_run_count j) = u32_max \<and>
        (\<forall>k l. a_job (fake_view st) k = Some l \<and> claimable now ks fl l \<longrightarrow> claim_key j \<le> claim_key l)"
proof -
  have chr: "chrono_ok C" and wf: "fake_wf st" using assms(1) by (simp_all add: fake_inv_def)
  let ?el = "\<lambda>j. job_status j = Pending \<and> job_visible_at j \<le> now \<and> fl \<le> job_priority j \<and> job_kind j \<in> set ks"
  have el: "?el j \<longleftrightarrow> claimable now ks fl j" for j by (auto simp: claimable_def)
  show ?thesis
  proof (cases "claim_scan ?el None (job_values st)")
    case None
    then have "\<not> claimable now ks fl j" if "a_job (fake_view st) i = Some j" for i j
      using that job_values_ex [OF wf, of j] unfolding claim_scan_None el by auto
    then have "spec_claim (\<lambda>_. False) now ks fl ls by (fake_view st) None (fake_view st)" by (auto simp: spec_claim_def)
    then show ?thesis using None assms(1) by (simp add: fake_claim_next_def)
  next
    case (Some b)
    obtain i k where b: "b = (i, k)" by (cases b)
    from claim_scan_Some [OF Some [unfolded b]] obtain j where j: "j \<in> set (job_values st)" "?el j" "i = job_id j" "k = scan_key_of j"
      by auto
    have job: "map_of (fk_jobs st) i = Some j" using j(1,3) job_values_iff [OF wf] by simp
    have least: "claim_key j \<le> claim_key l" if "a_job (fake_view st) m = Some l" "claimable now ks fl l" for m l
    proof -
      have "l \<in> set (job_values st)" using that(1) job_values_ex [OF wf] by auto
      moreover have "\<forall>l \<in> set (job_values st). ?el l \<longrightarrow> k \<le> scan_key_of l"
        using claim_scan_Some [OF Some [unfolded b]] by (elim conjE)
      ultimately have "k \<le> scan_key_of l" using that(2) unfolding el by (simp only: Ball_def)
      then have "scan_key_of j \<le> scan_key_of l" unfolding j(4) .
      then show ?thesis by (auto simp: claim_key_def less_eq_prod_def)
    qed
    show ?thesis
    proof (cases "unat (job_run_count j) = u32_max")
      case True
      then have eq: "fake_claim_next C now ks fl ls by st = None" using Some b job by (simp add: fake_claim_next_def)
      have "claimable now ks fl j" using j(2) unfolding el .
      with True job least show ?thesis unfolding eq option.case fake_view_sel by blast
    next
      case False
      let ?t = "add_duration C now ls"
      have t: "now \<le> ?t" "?t \<le> now + int ls" using assms(3) by (simp_all add: add_duration_eq [OF chr assms(2,3)])
      have run: "unat (job_run_count j) < u32_max" using False unsigned_less [where 'a = nat, of "job_run_count j"] by (simp add: int_limits)
      have eq: "fake_claim_next C now ks fl ls by st = Some (Some (claim_job ?t by j), put_job i (claim_job ?t by j) st)"
        using Some b job False by (simp add: fake_claim_next_def claim_job_def Let_def)
      have "fake_inv C (put_job i (claim_job ?t by j) st)"
        using assms(1) fake_lookup_wf [OF wf job] j(2) by (auto simp: fake_inv_def intro!: put_job_wf job_wf_claim)
      moreover have "spec_claim (\<lambda>_. False) now ks fl ls by (fake_view st) (Some (claim_job ?t by j)) (fake_view (put_job i (claim_job ?t by j) st))"
        unfolding spec_claim_def option.case
        by (intro exI [of _ i] exI [of _ j] exI [of _ ?t]) (use job j(2) el least t run in \<open>auto simp: put_job_view\<close>)
      ultimately show ?thesis by (simp add: eq)
    qed
  qed
qed

lemma fake_extend_ok:
  assumes "fake_inv C st" "MIN_UTC C \<le> now" "now \<le> MAX_UTC C"
  shows "fake_inv C (snd (fake_extend_lease C now i by rn ls st)) \<and>
    (\<exists>expiry. now \<le> expiry \<and> expiry \<le> now + int ls \<and>
      conforms fake_view st (fake_extend_lease C now i by rn ls st) (spec_extend expiry by rn i (fake_view st)))"
proof -
  have chr: "chrono_ok C" and wf: "fake_wf st" using assms(1) by (simp_all add: fake_inv_def)
  let ?t = "add_duration C now ls"
  have t: "now \<le> ?t" "?t \<le> now + int ls" using assms(3) by (simp_all add: add_duration_eq [OF chr assms(2,3)])
  have eq: "fake_extend_lease C now i by rn ls st = (case map_of (fk_jobs st) i of
      Some j \<Rightarrow> if owned by rn j then (Inr True, put_job i (extend_job ?t j) st) else (Inr False, st) | None \<Rightarrow> (Inr False, st))"
    by (auto simp: fake_extend_lease_def owned_def extend_job_def split: option.split)
  have "fake_inv C (put_job i (extend_job ?t j) st)" if "map_of (fk_jobs st) i = Some j" "owned by rn j" for j
    using assms(1) fake_lookup_wf [OF wf that(1)] that(2) by (auto simp: fake_inv_def owned_def intro!: put_job_wf job_wf_extend)
  moreover have "conforms fake_view st (fake_extend_lease C now i by rn ls st) (spec_extend ?t by rn i (fake_view st))"
    by (auto simp: eq conforms_def spec_extend_def guarded_def fake_view_def put_job_def update_conv' fun_eq_iff split: option.split)
  ultimately show ?thesis using t assms(1) by (auto simp: eq split: option.split)
qed

text \<open>
  C39: the clocked operations of the in-memory store are the specified ones, with nothing locked, at every instant of the
  calendar. A claim hands out the most urgent eligible job with the next run number and a lease that starts
  now, or nothing when no job is eligible; a lease extension is guarded by ownership. A claim panics, without an
  answer, exactly where the most urgent job has used up its 32-bit run counter.
\<close>

theorem in_memory_claim_meets_the_specification:
  assumes "fake_inv C st" "MIN_UTC C \<le> now" "now \<le> MAX_UTC C"
  shows "(case fake_claim_next C now ks fl ls by st of
      Some (r, st') \<Rightarrow> spec_claim (\<lambda>_. False) now ks fl ls by (fake_view st) r (fake_view st') \<and> fake_inv C st'
    | None \<Rightarrow> \<exists>i j. a_job (fake_view st) i = Some j \<and> claimable now ks fl j \<and> unat (job_run_count j) = u32_max \<and>
        (\<forall>k l. a_job (fake_view st) k = Some l \<and> claimable now ks fl l \<longrightarrow> claim_key j \<le> claim_key l)) \<and>
    fake_inv C (snd (fake_extend_lease C now m by rn ls st)) \<and>
    (\<exists>expiry. now \<le> expiry \<and> expiry \<le> now + int ls \<and>
      conforms fake_view st (fake_extend_lease C now m by rn ls st) (spec_extend expiry by rn m (fake_view st)))"
  using fake_claim_ok [OF assms] fake_extend_ok [OF assms] by blast

theorem in_memory_claim_meets_the_specification_witness:
  "\<exists>r st'. fake_claim_next sample_calendar 200 [''mail''] 0 5 ''host:1'' sample_inner = Some (r, st') \<and>
     spec_claim (\<lambda>_. False) 200 [''mail''] 0 5 ''host:1'' (fake_view sample_inner) r (fake_view st')"
proof -
  have inner: "fk_jobs sample_inner = [(1, fresh_job sample_new)]"
    by (simp add: sample_inner_def fake_enqueue_def validate_def from_smallint_def sample_new_def put_job_def fake_new_def fresh_job_def)
  have "fake_claim_next sample_calendar 200 [''mail''] 0 5 ''host:1'' sample_inner \<noteq> None"
    by (simp add: fake_claim_next_def job_values_def inner fresh_job_def sample_new_def int_limits Let_def)
  then show ?thesis
    using in_memory_claim_meets_the_specification [OF sample_inner_inv, of 200 "[''mail'']" 0 5 "''host:1''", THEN conjunct1]
    by (auto simp: sample_calendar_def calendar_def split: option.splits)
qed

section \<open>The lost merge race\<close>

lemma fake_insert_fresh:
  assumes "fake_wf st" "a_job (fake_view st) uid = None" "key = map_option as_str (task_dedup_key T task)"
    and "\<And>s. before_call cs n s = s" "queue_insert (fake_ops C) T cs n uid task cr vis key st = (Inr i, st')"
  shows "stored_fresh T uid task cr vis i (fake_view st')"
proof -
  obtain payload carry where v: "to_value T task = Inr payload" "carry_to_value T (carry_default T) = Inr carry"
    using assms(5) by (auto simp: queue_insert_def from_serde_def split: sum.splits)
  let ?nj = "new_job_of T uid task cr vis key payload carry"
  have nj: "new_priority ?nj \<in> {0, 1, 2}" using as_smallint_range [of "task_priority T task"] by (simp add: new_job_of_def)
  have out: "fake_enqueue ?nj st = (Inr (), st')" "i = uid"
    using assms(4,5) by (auto simp: queue_insert_def v Let_def new_job_of_def bind_ok_eq_Inr fake_ops_sel split: prod.splits)
  have "fake_view st' = spec_enqueue ?nj (fake_view st)" using fake_enqueue_ok(3) [OF nj, of st] by (simp add: out)
  moreover have "a_journal (fake_view st) uid = []" using fake_view_wf [OF assms(1)] assms(2) unfolding astore_wf_def by blast
  ultimately show ?thesis using v out(2) assms(3) by (auto simp: stored_fresh_def spec_enqueue_def new_job_of_def)
qed

lemma armed_merge_inserts:
  assumes "fake_wf st" "fk_force_next_merge_into_miss st" "a_job (fake_view st) uid = None"
    and "task_dedup_key T task = Some dk" "\<And>n s. before_call cs n s = s"
    and "apply_merge (fake_ops C) T cs n uid now cand u task cr vis (as_str dk) st = (Inr i, st')"
  shows "stored_fresh T uid task cr vis i (fake_view st')"
proof -
  let ?st = "st\<lparr>fk_force_next_merge_into_miss := False\<rparr>"
  have "queue_insert (fake_ops C) T cs (n + 1) uid task cr vis (Some (as_str dk)) ?st = (Inr i, st')"
    using assms(2,5,6) by (simp add: apply_merge_def Let_def fake_ops_sel fake_merge_into_def)
  then show ?thesis using fake_insert_fresh [of ?st uid "Some (as_str dk)" T task cs "n + 1"] assms(1,3-5) by simp
qed

text \<open>
  The test seam reproduces the lost merge race. With the seam armed and the test alone on the store, an enqueue
  that succeeds stores a fresh job of its task under the new identifier, whatever pending job shares its
  deduplication key and whatever the merge decision: the merge is answered as missed and the enqueue
  falls back to an insert.
\<close>

theorem armed_seam_forces_a_fresh_job:
  assumes "fake_wf st" "a_job (fake_view st) uid = None" "\<And>n s. before_call cs n s = s"
    and "submit (fake_ops C) T cs uid now task cr vis (force_next_merge_into_miss st) = (Inr i, st')"
  shows "stored_fresh T uid task cr vis i (fake_view st')"
proof -
  let ?st = "force_next_merge_into_miss st"
  have st: "fake_wf ?st" "fk_force_next_merge_into_miss ?st" "a_job (fake_view ?st) uid = None"
    using assms(1,2) by (simp_all add: force_next_merge_into_miss_def)
  show ?thesis
  proof (cases "task_dedup_key T task")
    case None
    then have "queue_insert (fake_ops C) T cs 0 uid task cr vis None ?st = (Inr i, st')" using assms(4) by (simp add: submit_def)
    from fake_insert_fresh [OF st(1,3) _ assms(3) this] None show ?thesis by simp
  next
    case (Some dk)
    note ins = fake_insert_fresh [OF st(1,3), of "Some (as_str dk)" T task, unfolded Some, simplified, OF assms(3)]
    note mrg = armed_merge_inserts [OF st Some assms(3)]
    show ?thesis
      using assms(4) unfolding submit_def Some Let_def option.case assms(3)
      by (auto dest: ins mrg split: sum.splits option.splits merge_decision.splits)
  qed
qed

theorem armed_seam_forces_a_fresh_job_witness:
  "\<exists>i st'. submit (fake_ops sample_calendar) text_task (quiet_calls 150) 2 150 ''again'' 150 150
       (force_next_merge_into_miss sample_inner) = (Inr i, st') \<and>
     stored_fresh text_task 2 ''again'' 150 150 i (fake_view st')"
proof -
  have jobs: "fk_jobs sample_inner = [(1, fresh_job sample_new)]"
    by (simp add: sample_inner_def fake_enqueue_def validate_def from_smallint_def sample_new_def put_job_def fake_new_def fresh_job_def)
  obtain i st' where out: "submit (fake_ops sample_calendar) text_task (quiet_calls 150) 2 150 ''again'' 150 150
      (force_next_merge_into_miss sample_inner) = (Inr i, st')"
    by (simp add: submit_def text_task_def Let_def fake_ops_sel fake_dedup_candidate_def job_values_def jobs fresh_job_def
        sample_new_def force_next_merge_into_miss_def fake_journal_def apply_merge_def fake_merge_into_def queue_insert_def
        fake_enqueue_def validate_def from_smallint_def)
  have "a_job (fake_view sample_inner) 2 = None" by (simp add: jobs)
  from armed_seam_forces_a_fresh_job [OF fake_inv_wf [OF sample_inner_inv] this _ out] out show ?thesis by simp
qed

end
