(* ===== verification/Spec2Isabelle.thy ===== *)
theory Spec2Isabelle
  imports Postgres_Setup Delivery History Schema Worker_Fairness Observability
    Fake_Store_Props
begin

text \<open>
  Verification library of \<^verbatim>\<open>venturi\<close>, a PostgreSQL-backed job queue for Rust programs (all paths below
  are under \<^verbatim>\<open>src/\<close> of the repository).

  \<^bold>\<open>The program.\<close> A producer holds a \<^verbatim>\<open>Queue\<close> and enqueues tasks; a task may carry a deduplication key,
  and an enqueue then merges into a pending job of the same key. Workers claim jobs from the
  \<^verbatim>\<open>Store\<close> in priority-then-age order, each claim being a lease and a new run number, run the
  registered handler, and settle the run: completed, paused, retried with backoff, dead, or released
  by a shutdown. A claim whose lease expired is recovered by any worker. Every ended run leaves one entry on
  the job's journal. The store is a trait, implemented over PostgreSQL with one transaction per write,
  guarded by claim ownership and run number, and with a notification for every write that makes work
  claimable, which wakes idle workers over a dedicated \<^verbatim>\<open>LISTEN\<close> connection.

  \<^bold>\<open>Theories and sources.\<close>

    \<^item> \<^verbatim>\<open>Venturi_Prelude\<close>: machine integers at their width, instants (nanoseconds, \<open>int\<close>) and durations
      (nanoseconds, \<open>nat\<close>), JSON, results as sums with the \<^verbatim>\<open>?\<close> operator as \<open>bind_ok\<close>, saturating
      arithmetic, decimal printing, the locales \<open>encoding\<close> and \<open>canonical_encoding\<close> of stored forms, list
      lemmas behind the table operations.
    \<^item> \<^verbatim>\<open>Errors\<close> (\<^verbatim>\<open>error.rs\<close>), \<^verbatim>\<open>Store_Types\<close> (value types, \<^verbatim>\<open>NewJob::validate\<close> and the \<^verbatim>\<open>Store\<close> trait of
      \<^verbatim>\<open>store.rs\<close>, priorities of \<^verbatim>\<open>task.rs\<close>), \<^verbatim>\<open>Backoff\<close> (\<^verbatim>\<open>backoff.rs\<close>), \<^verbatim>\<open>Task_Model\<close> (\<^verbatim>\<open>task.rs\<close>, \<^verbatim>\<open>outcome.rs\<close>,
      \<^verbatim>\<open>context.rs\<close>), \<^verbatim>\<open>Registry\<close> (\<^verbatim>\<open>worker/registry.rs\<close>).
    \<^item> \<^verbatim>\<open>Store_Spec\<close>: the abstract store, a finite map of jobs with a journal per job, one transition per
      operation, and the contract of the trait as the locales \<open>store_reads\<close>, \<open>store_writes\<close> (guarded writes) and
      \<open>store_contract\<close> (claims and leases), each extending the one before. The queue handle, the worker and the
      whole system are proved against the contract only.
    \<^item> \<^verbatim>\<open>Postgres_Rows\<close> (\<^verbatim>\<open>postgres/rows.rs\<close>) and \<^verbatim>\<open>Postgres_Store\<close> (\<^verbatim>\<open>postgres/mod.rs\<close>): the two tables as lists of
      rows and each statement on them. \<^verbatim>\<open>Postgres_Contract\<close>: representation invariant \<open>pg_inv\<close>, abstraction
      \<open>pg_view\<close> and the interpretations \<open>pg_reads\<close> and \<open>pg\<close> of the contract. \<^verbatim>\<open>Postgres_Props\<close>: what the
      adapter guarantees. \<^verbatim>\<open>Postgres_Sample\<close>: a codec and a small queue for concrete instances.
    \<^item> \<^verbatim>\<open>Migrations\<close> (\<^verbatim>\<open>postgres/migrations.rs\<close>, \<^verbatim>\<open>PostgresStore::migrate\<close>), \<^verbatim>\<open>Notifications\<close>
      (\<^verbatim>\<open>postgres/notify.rs\<close>, \<^verbatim>\<open>Notifier\<close>), \<^verbatim>\<open>Postgres_Setup\<close> (constructors of \<^verbatim>\<open>PostgresStore\<close>).
    \<^item> \<^verbatim>\<open>Queue_Model\<close> (\<^verbatim>\<open>queue.rs\<close>), \<^verbatim>\<open>Worker_Core\<close> (the decisions and store calls of \<^verbatim>\<open>worker/mod.rs\<close>),
      \<^verbatim>\<open>Worker_Policy\<close> (properties that need no store), \<^verbatim>\<open>Worker_Store\<close> (the worker against a lawful store),
      \<^verbatim>\<open>Worker_Loop\<close> (\<^verbatim>\<open>Worker::run\<close>, \<^verbatim>\<open>reap\<close>, \<^verbatim>\<open>drain\<close>, \<^verbatim>\<open>force_finish\<close> as a step relation), \<^verbatim>\<open>Worker_Sample\<close>.
    \<^item> \<^verbatim>\<open>Queue_System\<close>: producers, workers, recoveries and sweeps interleaved at single store calls, with the
      audit invariant that ties each job to its journal; \<^verbatim>\<open>Worker_System\<close>: the run loop embedded in it.
    \<^item> Theories that put components together: \<^verbatim>\<open>Delivery\<close> (queue handle, store, registry and worker along the life of
      one task), \<^verbatim>\<open>History\<close> (paging through the history while the queue moves on, as the locale
      \<open>store_history\<close> with the adapter as its instance), \<^verbatim>\<open>Schema\<close> (the tables declared in
      \<^verbatim>\<open>migrations/V1__initial.sql\<close> as a type of the reachable tables), \<^verbatim>\<open>Worker_Fairness\<close> (the rotation of
      priority floors along executions of the loop).
    \<^item> \<^verbatim>\<open>Observability\<close> (\<^verbatim>\<open>observability.rs\<close> and its call sites): the stream of events, counter increments and
      samples of each lifecycle operation, the instrumented enqueue and run loop, and that the
      instrumentation changes nothing.
    \<^item> \<^verbatim>\<open>Fake_Store\<close> and \<^verbatim>\<open>Fake_Store_Props\<close> (\<^verbatim>\<open>test_support.rs\<close>): the in-memory store of the unit tests as a second
      instance of \<open>store_reads\<close>, \<open>store_writes\<close> and \<open>store_history\<close>, its agreement with PostgreSQL, its claim, and its
      test seam. It is no instance of \<open>store_contract\<close>, since its claim can panic.

  \<^bold>\<open>Concurrency and failure.\<close> A store call takes a \<open>call_env\<close>: the time, the row order the planner
  happens to choose, the rows other transactions hold locked, and a fault. A fault either rolls the
  transaction back or commits it and loses the acknowledgement, so every error path has both effects. A
  client operation that makes several calls takes a \<open>calls\<close> sequence, in which other clients may change the store
  before each call; what they may do is a hypothesis (the contract's invariant kept, or steps of the
  system). Statements that must be free of faults say so (\<open>calm_calls\<close>, \<open>orderly_calls\<close>,
  \<open>env_fault e = None\<close>).

  \<^bold>\<open>Parameters.\<close> Code outside the repository is an argument: the ULID text codec (\<open>ulid_codec_ok\<close>: parsing
  undoes printing), \<^verbatim>\<open>chrono\<close> conversions (\<open>chrono_ok\<close>), the rounding of floating-point multiplication,
  \<^verbatim>\<open>serde\<close> and the user's task and handler (the record \<open>task_def\<close> and the function type \<open>handler\<close>), the text of wrapped
  errors, \<^verbatim>\<open>tokio\<close>'s channel (\<open>mpsc_ok\<close>), \<^verbatim>\<open>tokio_postgres\<close>, \<^verbatim>\<open>deadpool\<close>, and \<^verbatim>\<open>refinery\<close>
  (\<open>runs_through_bridge\<close>: it reaches the database only through the traits it is given). Each such
  hypothesis is shown satisfiable by a concrete instance.

  \<^bold>\<open>What is shown.\<close> The adapter refines the abstract store under every fault, claims the most urgent
  unlocked job, fences stale runs, notifies exactly when work becomes available, pages without gaps,
  sweeps only terminal jobs, reads back what it wrote, and derives only valid identifiers from an
  accepted prefix. The queue handle never loses an enqueue that reported success. The worker respects
  its limits, routes every result to the right settlement, recovers exactly the expired claims, and
  always ends its shutdown with every claim handed back. In every reachable state of the system the
  journal numbers every run once, failure counts are exact, columns are consistent and history is
  only appended to; every execution of the run loop stays within that system. Retry delays follow the
  documented curve and stay in the jitter band. Migrations are applied whole or not at all, and no
  wakeup is lost. A task reaches its handler as it was enqueued; the lowest tier is served within \<open>r\<^sup>2\<close> claims;
  the stored tables always have their declared type and so always decode; the lifecycle counters
  balance, with two exceptions that are stated as such: a refused settlement is still counted as
  settled, and a released run is not counted at all. The store double of the unit tests answers like the
  adapter, so what the queue handle is shown to do on a lawful store it does in those tests too.

  \<^bold>\<open>Loops, bounds and fuel.\<close> No fuel is used: loops over data are structural recursions, the Fibonacci
  loop is bounded by its attempt, and the run loop, which runs until it is shut down, is a step relation
  whose shutdown is shown to end by a measure. Integers keep their width (run numbers and failure counts
  as 32-bit words with the checked conversion and saturation of the code, the jitter hash and lock key as
  64-bit words).

  \<^bold>\<open>Not modelled.\<close> The test modules; log lines other
  than the lifecycle events; the indexes of the schema, which change no result; the truncation of instants
  to microseconds by the database (instants are stored as given); \<^verbatim>\<open>lib.rs\<close> (re-exports); accessors that return a
  field; the duration of sleeps and the fairness of \<^verbatim>\<open>select!\<close> (any order of events is allowed); the isolation
  of PostgreSQL beyond what the adapter relies on (a write transaction is one atomic step, and the row locks
  another transaction holds are part of its environment).
\<close>

section \<open>The queue as a whole\<close>

text \<open>A reachable state in which the first run of a job was lost with its worker and recovered.\<close>

definition sample_recovered :: "pg_state system" where
  "sample_recovered =
     sample_system\<lparr>sys_stale := {sample_job},
       sys_store := snd (recover_one sample_runtime mail_worker (env_at (201 + 10 ^ 9)) 5 sample_job (snd sample_claim))\<rparr>"

lemma sample_recovered_reachable: "pg_reachable sample_runtime binary_codec {mail_worker} sample_recovered"
proof -
  let ?found = "sample_system\<lparr>sys_stale := {sample_job}\<rparr>"
  let ?out = "recover_one sample_runtime mail_worker (env_at (201 + 10 ^ 9)) 5 sample_job (snd sample_claim)"
  have "so_find_stale (pg_ops binary_codec) (env_at (201 + 10 ^ 9)) (sys_store sample_system) = Inr [sample_job]"
    using sample_claim_stale by (simp add: pg_ops_sel sample_system_def)
  from step_find_stale [OF this] have
    "sys_step sample_runtime (pg_ops binary_codec) {mail_worker} sample_system ?found" by (simp add: sample_system_def)
  moreover have "recover_one sample_runtime mail_worker (env_at (201 + 10 ^ 9)) 5 sample_job (sys_store ?found) =
      (fst ?out, snd ?out)" by (simp add: sample_system_def)
  from step_recover [OF _ _ _ this, of "{mail_worker}"] have
    "sys_step sample_runtime (pg_ops binary_codec) {mail_worker} ?found sample_recovered"
    by (simp add: sample_recovered_def)
  ultimately show ?thesis using sample_reachable unfolding pg_reachable_def by (meson reach_step)
qed

lemma sample_recovered_job:
  "a_job (pg_view binary_codec (sys_store sample_recovered)) 1 = Some (recovered_job sample_runtime mail_worker 5 sample_job)"
  "a_journal (pg_view binary_codec (sys_store sample_recovered)) 1 = [stale_entry 5 sample_job]"
proof -
  have id: "job_id sample_job = 1" by (simp add: sample_job_def sample_new_def)
  have "expired (201 + 10 ^ 9) (job_run_count sample_job) sample_job" by (simp add: expired_def sample_job_def claim_job_def)
  then show "a_job (pg_view binary_codec (sys_store sample_recovered)) 1 = Some (recovered_job sample_runtime mail_worker 5 sample_job)"
    "a_journal (pg_view binary_codec (sys_store sample_recovered)) 1 = [stale_entry 5 sample_job]"
    using pg.recover_one_effect [OF _ sample_claim_inv, of mail_worker "env_at (201 + 10 ^ 9)" sample_job sample_runtime 5] id
    by (simp_all add: sample_recovered_def)
qed

text \<open>
  C1: the journal accounts for every run. In every reachable state of a PostgreSQL queue, however the
  calls of producers, workers and recoveries interleave and fail, the entries of a job's journal
  other than merges carry the run numbers 1, 2, 3, ... in order without a gap or a repetition, up
  to its last ended run: every run is settled at most once, by itself or by its recovery, and no
  run starts before the one before it was recorded.
\<close>

theorem journal_numbers_every_run_once:
  assumes "ulid_codec_ok c" "pg_reachable rt c fleet sys"
    and "a_job (pg_view c (sys_store sys)) i = Some j"
  shows "map (\<lambda>x. unat (app_run_no x)) (executions (a_journal (pg_view c (sys_store sys)) i)) =
    [1..<unat (job_run_count j) + (if job_status j = Claimed then 0 else 1)]"
proof -
  have rec: "runs_recorded j (a_journal (pg_view c (sys_store sys)) i)"
    using pg_reachable_audit(2) [OF assms] by (simp add: accounted_def)
  then have "ended_runs j + 1 = unat (job_run_count j) + (if job_status j = Claimed then 0 else 1)"
    by (auto simp: runs_recorded_def ended_runs_def)
  with rec show ?thesis unfolding runs_recorded_def by metis
qed

theorem journal_numbers_every_run_once_witness:
  "pg_reachable sample_runtime binary_codec {mail_worker} sample_recovered \<and>
   map (\<lambda>x. unat (app_run_no x)) (executions (a_journal (pg_view binary_codec (sys_store sample_recovered)) 1)) = [1]"
proof -
  let ?j = "recovered_job sample_runtime mail_worker 5 sample_job"
  have "unat (job_run_count ?j) = 1" "job_status ?j = Pending"
    by (simp_all add: recovered_job_def sample_job_def claim_job_def fresh_job_def recover_job_def unclaim_def)
  with journal_numbers_every_run_once [OF binary_codec_ok sample_recovered_reachable sample_recovered_job(1)]
    sample_recovered_reachable show ?thesis by simp
qed

text \<open>
  C2: the failure count that drives backoff and backstop is the number of failed executions on the
  journal (retries, deaths, stale recoveries), saturating at the largest 32-bit integer, in every
  reachable state: pauses, releases and merges never count, and no stale writer regresses it.
\<close>

theorem failure_count_is_number_of_failures:
  assumes "ulid_codec_ok c" "pg_reachable rt c fleet sys"
    and "a_job (pg_view c (sys_store sys)) i = Some j"
  shows "sint (job_failure_count j) = min i32_max (int (failures (a_journal (pg_view c (sys_store sys)) i)))"
  using pg_reachable_audit(2) [OF assms] by (simp add: accounted_def failures_counted_def)

theorem failure_count_is_number_of_failures_witness:
  "pg_reachable sample_runtime binary_codec {mail_worker} sample_recovered \<and>
   sint (job_failure_count (recovered_job sample_runtime mail_worker 5 sample_job)) = 1"
proof -
  have "failures (a_journal (pg_view binary_codec (sys_store sample_recovered)) 1) = 1"
    by (simp add: sample_recovered_job(2) failures_def stale_entry_def)
  with failure_count_is_number_of_failures [OF binary_codec_ok sample_recovered_reachable sample_recovered_job(1)]
    sample_recovered_reachable show ?thesis by (simp add: int_limits)
qed

text \<open>
  C23: in every reachable state a job's columns are consistent: it has an owner and a lease exactly
  while claimed, a finishing time exactly when completed or dead, one of the three priorities,
  and it is completed (dead) exactly when its journal holds a completed (dead) entry.
\<close>

theorem job_state_is_consistent:
  assumes "ulid_codec_ok c" "pg_reachable rt c fleet sys"
    and "a_job (pg_view c (sys_store sys)) i = Some j"
  shows "job_wf j \<and> end_recorded j (a_journal (pg_view c (sys_store sys)) i)"
  using pg_reachable_audit(2) [OF assms] by (simp add: accounted_def)

theorem job_state_is_consistent_witness:
  "pg_reachable sample_runtime binary_codec {mail_worker} sample_recovered \<and>
   job_wf (recovered_job sample_runtime mail_worker 5 sample_job)"
  using job_state_is_consistent [OF binary_codec_ok sample_recovered_reachable sample_recovered_job(1)]
    sample_recovered_reachable by simp

text \<open>
  C22: no step of any client loses or rewrites history: an existing job survives every step with its
  identity, kind and age, its run count never decreases, its journal is only appended to, a
  completed or dead job never changes again, and only such a job can disappear, by a sweep.
\<close>

theorem jobs_evolve_monotonically:
  assumes "ulid_codec_ok c" "pg_reachable rt c fleet sys" "sys_step rt (pg_ops c) fleet sys sys'"
    and "a_job (pg_view c (sys_store sys)) i = Some j"
  shows "case a_job (pg_view c (sys_store sys')) i of
      None \<Rightarrow> terminal j
    | Some j' \<Rightarrow> evolves j (a_journal (pg_view c (sys_store sys)) i) j' (a_journal (pg_view c (sys_store sys')) i)"
  using pg_step_keeps_jobs [OF assms(1-3)] assms(4) by (simp add: jobs_kept_def)

theorem jobs_evolve_monotonically_witness:
  "let s' = snd (pg_cleanup (env_at 900) \<lparr>cc_finished_before = 900, cc_kind = None, cc_status = None\<rparr>
              (snd sample_claim))
   in \<exists>j'. a_job (pg_view binary_codec s') 1 = Some j' \<and>
        evolves sample_job [] j' (a_journal (pg_view binary_codec s') 1)"
proof -
  let ?cc = "\<lparr>cc_finished_before = 900, cc_kind = None, cc_status = None\<rparr>"
  let ?out = "pg_cleanup (env_at 900) ?cc (snd sample_claim)"
  have "so_cleanup (pg_ops binary_codec) (env_at 900) ?cc (sys_store sample_system) = (fst ?out, snd ?out)"
    by (simp add: pg_ops_sel sample_system_def)
  from jobs_evolve_monotonically [OF binary_codec_ok sample_reachable step_cleanup [OF this], of 1 sample_job]
  show ?thesis
    by (simp add: sample_system_def terminal_def sample_job_def claim_job_def split: option.splits)
qed

text \<open>
  C3: the worker is a lawful citizen of the queue: started on any reachable queue, every execution of its
  run loop (claims with fallback, lease overrides, recovery passes, settlements, drain, forced
  teardown), with store calls failing at will and other clients of the fleet acting between any two
  of its calls, leads to a reachable state of the whole system, in which each job it has in flight is
  one it was handed by a claim. The guarantees above therefore hold for the running program.
\<close>

theorem worker_loop_stays_within_the_system:
  assumes "ulid_codec_ok c" "w \<in> fleet" "w_store w = pg_ops c" "pg_reachable rt c fleet sys0"
    and "loop_reachable rt w (\<lambda>cs. system_calls rt (pg_ops c) fleet pg_empty cs \<and> lawful_calls (pg_inv c) cs)
      (sys_store sys0) (st, s)"
  shows "\<exists>sys. pg_reachable rt c fleet sys \<and> sys_store sys = s \<and>
    (\<forall>x \<in> set (inflight st). \<exists>j. (w_identity w, j) \<in> sys_runs sys \<and> snd x = tracked j)"
proof -
  obtain sys where "embedded rt (pg_ops c) fleet pg_empty w st s sys"
    using loop_reachable_embedded [OF assms(5,1-4)] by blast
  then show ?thesis
    by (intro exI [of _ sys]) (auto simp: embedded_def pg_reachable_def tasks_tracked_def tracks_def)
qed

theorem worker_loop_stays_within_the_system_witness:
  "\<exists>sys. pg_reachable sample_runtime binary_codec {mail_worker} sys \<and> sys_store sys = snd sample_filled \<and>
     (\<exists>j. (''host:1'', j) \<in> sys_runs sys \<and> tracked sample_job = tracked j)"
proof -
  let ?env = "\<lambda>cs. system_calls sample_runtime (pg_ops binary_codec) {mail_worker} pg_empty cs \<and>
    lawful_calls (pg_inv binary_codec) cs"
  have "?env (quiet_calls t)" for t by (auto simp: system_calls_def quiet_lawful)
  from sample_filled_reachable [of ?env, OF this]
  have reach: "loop_reachable sample_runtime mail_worker ?env (sys_store sample_enqueued) (fst sample_filled, snd sample_filled)"
    by (simp add: sample_enqueued_def)
  have "(0, tracked sample_job) \<in> set (inflight (fst sample_filled))" using sample_filled_sel(3) by (simp add: tracked_def)
  with worker_loop_stays_within_the_system [OF binary_codec_ok _ _ sample_enqueued_reachable reach] show ?thesis
    by fastforce
qed

end
